(* ===== verification/Prelude.thy ===== *)
theory Prelude
  imports Complex_Main "HOL-Library.AList" "HOL-Library.Monad_Syntax"
begin

text \<open>
  Shared vocabulary of the development: Python dictionaries as insertion-ordered
  association lists, the exceptions the engine raises, and the generic lemmas on
  lists, options and dictionaries that the component theories rely on.

  A Python \<open>dict\<close> keeps its keys in insertion order and overwrites in place, which is
  what \<^const>\<open>AList.update\<close> does on an association list; \<^const>\<open>map_of\<close> is the
  lookup (\<open>d.get(k)\<close>) and \<^const>\<open>AList.delete\<close> the removal (\<open>d.pop(k, None)\<close>).
\<close>

named_theorems dict_simps \<open>rewriting of dictionary operations\<close>

section \<open>Dictionaries\<close>

type_synonym ('k, 'v) dict = "('k \<times> 'v) list"

abbreviation dget :: "('k, 'v) dict \<Rightarrow> 'k \<Rightarrow> 'v option" where
  "dget d k \<equiv> map_of d k"

abbreviation dset :: "'k \<Rightarrow> 'v \<Rightarrow> ('k, 'v) dict \<Rightarrow> ('k, 'v) dict" where
  "dset k v d \<equiv> AList.update k v d"

abbreviation ddel :: "'k \<Rightarrow> ('k, 'v) dict \<Rightarrow> ('k, 'v) dict" where
  "ddel k d \<equiv> AList.delete k d"

abbreviation dkeys :: "('k, 'v) dict \<Rightarrow> 'k list" where
  "dkeys d \<equiv> map fst d"

abbreviation dvals :: "('k, 'v) dict \<Rightarrow> 'v list" where
  "dvals d \<equiv> map snd d"

text \<open>\<open>{k: v for ...}\<close>: later pairs overwrite earlier ones in place.\<close>

definition dict_of :: "('k \<times> 'v) list \<Rightarrow> ('k, 'v) dict" where
  "dict_of kvs = foldl (\<lambda>d (k, v). dset k v d) [] kvs"

text \<open>\<open>d.get(k, default)\<close>.\<close>

definition get_default :: "'v \<Rightarrow> ('k, 'v) dict \<Rightarrow> 'k \<Rightarrow> 'v" where
  "get_default v d k = (case dget d k of Some w \<Rightarrow> w | None \<Rightarrow> v)"

lemma dget_dset [simp, dict_simps]:
  "dget (dset k v d) k' = (if k = k' then Some v else dget d k')"
  by (simp add: update_conv')

lemma dget_ddel [simp, dict_simps]:
  "dget (ddel k d) k' = (if k = k' then None else dget d k')"
  by (simp add: delete_conv')

lemma dkeys_dset [dict_simps]:
  "dkeys (dset k v d) = (if k \<in> set (dkeys d) then dkeys d else dkeys d @ [k])"
  by (induction d) auto

lemma set_dkeys_dset [simp]: "set (dkeys (dset k v d)) = insert k (set (dkeys d))"
  by (simp add: dkeys_dset insert_absorb)

lemma distinct_dset [simp]: "distinct (dkeys (dset k v d)) \<longleftrightarrow> distinct (dkeys d)"
  by (simp add: dkeys_dset)

lemma dset_new: "k \<notin> set (dkeys d) \<Longrightarrow> dset k v d = d @ [(k, v)]"
  by (induction d) auto

lemma fst_set_dset [simp]: "fst ` set (dset k v d) = insert k (fst ` set d)"
  using set_dkeys_dset [of k v d] by simp

lemma dget_None_iff: "dget d k = None \<longleftrightarrow> k \<notin> set (dkeys d)"
  by (simp add: map_of_eq_None_iff)

lemma dget_Some_iff: "distinct (dkeys d) \<Longrightarrow> dget d k = Some v \<longleftrightarrow> (k, v) \<in> set d"
  by (simp add: map_of_eq_Some_iff)

lemma get_default_dset [simp, dict_simps]:
  "get_default w (dset k v d) k' = (if k = k' then v else get_default w d k')"
  by (simp add: get_default_def)

lemma get_default_Nil [simp]: "get_default w [] k = w"
  by (simp add: get_default_def)

lemma dict_of_foldl_distinct:
  "distinct (dkeys (d @ kvs)) \<Longrightarrow> foldl (\<lambda>d (k, v). dset k v d) d kvs = d @ kvs"
proof (induction kvs arbitrary: d)
  case Nil
  then show ?case by simp
next
  case (Cons kv kvs)
  obtain k v where kv: "kv = (k, v)" by force
  with Cons.prems have "dset k v d = d @ [(k, v)]"
    by (intro dset_new) auto
  with Cons kv show ?case by auto
qed

lemma dict_of_distinct: "distinct (dkeys kvs) \<Longrightarrow> dict_of kvs = kvs"
  using dict_of_foldl_distinct [of "[]" kvs] by (simp add: dict_of_def)

lemma distinct_dict_of [simp]: "distinct (dkeys (dict_of kvs))"
proof -
  have "distinct (dkeys d) \<Longrightarrow> distinct (dkeys (foldl (\<lambda>d (k, v). dset k v d) d kvs))" for d
    by (induction kvs arbitrary: d) (auto split: prod.splits)
  then show ?thesis by (simp add: dict_of_def)
qed

lemma dget_dict_of_const:
  "dget (dict_of (map (\<lambda>x. (f x, c)) xs)) k = (if k \<in> f ` set xs then Some c else None)"
proof -
  have "dget (foldl (\<lambda>d (k, v). dset k v d) d (map (\<lambda>x. (f x, c)) xs)) k
      = (if k \<in> f ` set xs then Some c else dget d k)" for d
    by (induction xs arbitrary: d) auto
  then show ?thesis by (simp add: dict_of_def)
qed

section \<open>Exceptions\<close>

text \<open>
  The Python exceptions that cross a function boundary of the engine. Each keeps the
  message \<open>str(exc)\<close>, except pydantic's \<open>ValidationError\<close>, whose text the library
  composes, and an HTTP exception, which has a status code, a detail and an error code.
\<close>

datatype exn =
    ValueError string
  | WorkflowValidationError string
  | PydanticError
  | KeyError string
  | TypeError string
  | RuntimeError string
  | OverflowError string
  | SQLAlchemyError string
  | HTTPException nat string string

text \<open>
  \<open>except ValueError\<close> also catches pydantic's \<open>ValidationError\<close>, which is a subclass
  of \<open>ValueError\<close>.
\<close>

fun is_value_error :: "exn \<Rightarrow> bool" where
  "is_value_error (ValueError _) = True"
| "is_value_error PydanticError = True"
| "is_value_error _ = False"

definition bind_sum :: "'e + 'a \<Rightarrow> ('a \<Rightarrow> 'e + 'b) \<Rightarrow> 'e + 'b" where
  "bind_sum m f = (case m of Inl e \<Rightarrow> Inl e | Inr x \<Rightarrow> f x)"

lemma bind_sum_simps [simp]:
  "bind_sum (Inl e) f = Inl e"
  "bind_sum (Inr x) f = f x"
  by (simp_all add: bind_sum_def)

lemma bind_sum_Inr_iff: "bind_sum m f = Inr y \<longleftrightarrow> (\<exists>x. m = Inr x \<and> f x = Inr y)"
  by (cases m) auto

lemma bind_sum_Inl_iff:
  "bind_sum m f = Inl e \<longleftrightarrow> m = Inl e \<or> (\<exists>x. m = Inr x \<and> f x = Inl e)"
  by (cases m) auto

section \<open>Lists\<close>

lemma length_filter_mono:
  "(\<And>y. y \<in> set xs \<Longrightarrow> Q y \<Longrightarrow> P y) \<Longrightarrow> length (filter Q xs) \<le> length (filter P xs)"
  by (induction xs) auto

lemma length_filter_less_if:
  "x \<in> set xs \<Longrightarrow> P x \<Longrightarrow> \<not> Q x \<Longrightarrow> (\<And>y. y \<in> set xs \<Longrightarrow> Q y \<Longrightarrow> P y)
    \<Longrightarrow> length (filter Q xs) < length (filter P xs)"
proof (induction xs)
  case Nil
  then show ?case by simp
next
  case (Cons a xs)
  have le: "length (filter Q xs) \<le> length (filter P xs)"
    using Cons.prems(4) by (intro length_filter_mono) auto
  show ?case
  proof (cases "x = a")
    case True
    with Cons.prems le show ?thesis by simp
  next
    case False
    with Cons have "length (filter Q xs) < length (filter P xs)" by simp
    with Cons.prems(4) show ?thesis by auto
  qed
qed

lemma filter_map_distinct_nth:
  "distinct (map f xs) \<Longrightarrow> x \<in> set xs \<Longrightarrow> filter (\<lambda>y. f y = f x) xs = [x]"
proof (induction xs)
  case Nil
  then show ?case by simp
next
  case (Cons a xs)
  then show ?case by (auto simp: filter_empty_conv) (metis imageI)+
qed

lemma distinct_map_inj: "distinct (map f xs) \<Longrightarrow> x \<in> set xs \<Longrightarrow> y \<in> set xs \<Longrightarrow> f x = f y \<Longrightarrow> x = y"
  by (metis distinct_map inj_onD)

end
