(* ===== verification/PyValue.thy ===== *)
theory PyValue
  imports Prelude
begin

text \<open>
  The Python values a workflow definition, a task parameter or a task result can be,
  with the parts of \<open>str\<close>, \<open>repr\<close>, truth testing and the string methods that the
  engine uses. Characters are code points below 256, where a HOL \<open>char\<close> and a Python
  character agree; a float is represented by its \<open>repr\<close>.
\<close>

section \<open>Strings\<close>

definition is_space :: "char \<Rightarrow> bool" where
  "is_space c = (of_char c \<in> {9::nat, 10, 11, 12, 13, 28, 29, 30, 31, 32, 133, 160})"

definition lstrip :: "string \<Rightarrow> string" where
  "lstrip s = dropWhile is_space s"

definition rstrip :: "string \<Rightarrow> string" where
  "rstrip s = rev (dropWhile is_space (rev s))"

definition strip :: "string \<Rightarrow> string" where
  "strip s = rstrip (lstrip s)"

definition lower_char :: "char \<Rightarrow> char" where
  "lower_char c =
     (let n = of_char c :: nat
      in if (65 \<le> n \<and> n \<le> 90) \<or> (192 \<le> n \<and> n \<le> 222 \<and> n \<noteq> 215) then char_of (n + 32) else c)"

text \<open>Evaluation on the bits of a character.\<close>

lemma of_char_eq_iff: "n < 256 \<Longrightarrow> of_char c = (n :: nat) \<longleftrightarrow> c = char_of n"
  by auto

lemma is_space_code [code]:
  "is_space c \<longleftrightarrow> list_ex (HOL.eq c) [CHR 0x09, CHR 0x0A, CHR 0x0B, CHR 0x0C, CHR 0x0D, CHR 0x1C, CHR 0x1D, CHR 0x1E,
     CHR 0x1F, CHR 0x20, CHR 0x85, CHR 0xA0]"
  by (simp add: is_space_def of_char_eq_iff char_of_def bit_0)

lemma lower_char_code [code]:
  "lower_char (Char b0 b1 b2 b3 b4 b5 b6 b7) =
     (if b6 \<and> \<not> b5 \<and> (if b7 then \<not> (b0 \<and> b1 \<and> b2 \<and> b4) else (b0 \<or> b1 \<or> b2 \<or> b3 \<or> b4) \<and> \<not> (b4 \<and> b3 \<and> (b2 \<or> b1 \<and> b0)))
      then Char b0 b1 b2 b3 b4 True b6 b7 else Char b0 b1 b2 b3 b4 b5 b6 b7)"
  by (cases b0; cases b1; cases b2; cases b3; cases b4; cases b5; cases b6; cases b7; simp add: lower_char_def char_of_def bit_0)

definition lower :: "string \<Rightarrow> string" where
  "lower s = map lower_char s"

fun startswith :: "string \<Rightarrow> string \<Rightarrow> bool" where
  "startswith s [] = True"
| "startswith [] (p # ps) = False"
| "startswith (c # s) (p # ps) = (c = p \<and> startswith s ps)"

text \<open>\<open>sub in s\<close>.\<close>

fun contains_str :: "string \<Rightarrow> string \<Rightarrow> bool" where
  "contains_str sub [] = (sub = [])"
| "contains_str sub (c # s) = (startswith (c # s) sub \<or> contains_str sub s)"

text \<open>\<open>s.count(sub)\<close>: occurrences that do not overlap; an empty \<open>sub\<close> occurs between
  all characters.\<close>

function count_from :: "string \<Rightarrow> string \<Rightarrow> nat" where
  "count_from s sub =
     (if sub = [] then length s + 1
      else if s = [] then 0
      else if startswith s sub then 1 + count_from (drop (length sub) s) sub
      else count_from (tl s) sub)"
  by pat_completeness auto
termination
  by (relation "measure (\<lambda>(s, sub). length s)") auto

declare count_from.simps [simp del]

text \<open>\<open>s.split()\<close> on whitespace.\<close>

lemma drop_word_shorter:
  assumes ne: "dropWhile is_space s \<noteq> []"
  shows "length (dropWhile (\<lambda>c. \<not> is_space c) (dropWhile is_space s)) < length s"
proof -
  from ne obtain c t where ct: "dropWhile is_space s = c # t" by (meson neq_Nil_conv)
  then have "\<not> is_space c" by (metis hd_dropWhile list.sel(1) ne)
  then have "length (dropWhile (\<lambda>c. \<not> is_space c) (dropWhile is_space s)) \<le> length t"
    by (simp add: ct length_dropWhile_le)
  also have "length t < length (dropWhile is_space s)" by (simp add: ct)
  also have "\<dots> \<le> length s" by (rule length_dropWhile_le)
  finally show ?thesis .
qed

function split_ws :: "string \<Rightarrow> string list" where
  "split_ws s =
     (let t = dropWhile is_space s
      in if t = [] then []
         else takeWhile (\<lambda>c. \<not> is_space c) t # split_ws (dropWhile (\<lambda>c. \<not> is_space c) t))"
  by pat_completeness auto
termination
  by (relation "measure length") (use drop_word_shorter in auto)

declare split_ws.simps [simp del]

text \<open>\<open>s.split(sep)\<close> for a separator of one character, and \<open>s.partition(sep)\<close>.\<close>

fun split_char :: "char \<Rightarrow> string \<Rightarrow> string list" where
  "split_char c [] = [[]]"
| "split_char c (x # xs) =
     (if x = c then [] # split_char c xs
      else case split_char c xs of [] \<Rightarrow> [[x]] | w # ws \<Rightarrow> (x # w) # ws)"

definition partition_char :: "char \<Rightarrow> string \<Rightarrow> string \<times> string \<times> string" where
  "partition_char c s =
     (if c \<in> set s
      then (takeWhile (\<lambda>x. x \<noteq> c) s, [c], tl (dropWhile (\<lambda>x. x \<noteq> c) s))
      else (s, [], []))"

fun join_str :: "string \<Rightarrow> string list \<Rightarrow> string" where
  "join_str sep [] = []"
| "join_str sep [x] = x"
| "join_str sep (x # y # ys) = x @ sep @ join_str sep (y # ys)"

lemma startswith_iff: "startswith s p \<longleftrightarrow> (\<exists>t. s = p @ t)"
  by (induction s p rule: startswith.induct) auto

lemma contains_str_iff: "contains_str sub s \<longleftrightarrow> (\<exists>a b. s = a @ sub @ b)"
proof (induction s)
  case Nil
  then show ?case by simp
next
  case (Cons c s)
  show ?case
  proof
    assume "contains_str sub (c # s)"
    then consider t where "c # s = sub @ t" | "contains_str sub s"
      by (auto simp: startswith_iff)
    then show "\<exists>a b. c # s = a @ sub @ b"
    proof cases
      case 1
      then show ?thesis by (metis append_Nil)
    next
      case 2
      with Cons.IH show ?thesis by (metis append_Cons)
    qed
  next
    assume "\<exists>a b. c # s = a @ sub @ b"
    then obtain a b where ab: "c # s = a @ sub @ b" by blast
    show "contains_str sub (c # s)"
    proof (cases a)
      case Nil
      with ab have "startswith (c # s) sub" by (simp only: startswith_iff) simp
      then show ?thesis by simp
    next
      case (Cons x xs)
      with ab have "s = xs @ sub @ b" by simp
      with Cons.IH show ?thesis by auto
    qed
  qed
qed

lemma contains_str_length: "contains_str sub s \<Longrightarrow> length sub \<le> length s"
  by (auto simp: contains_str_iff)

lemma count_from_pos_iff: "0 < count_from s sub \<longleftrightarrow> contains_str sub s"
proof (induction s sub rule: count_from.induct)
  case (1 s sub)
  show ?case
  proof (cases s)
    case Nil
    then show ?thesis by (subst count_from.simps) simp
  next
    case (Cons c t)
    with 1 show ?thesis
      by (subst count_from.simps) (cases sub; auto simp: Cons)
  qed
qed

lemma concat_split_char: "split_char c s \<noteq> [] \<and> join_str [c] (split_char c s) = s"
proof (induction s)
  case Nil
  then show ?case by simp
next
  case (Cons x xs)
  then obtain w ws where w: "split_char c xs = w # ws" by (meson neq_Nil_conv)
  with Cons show ?case by (cases ws) auto
qed

section \<open>Values\<close>

datatype pyval =
    PyNone
  | PyBool bool
  | PyInt int
  | PyFloat string
  | PyStr string
  | PyList "pyval list"
  | PyDict "(pyval \<times> pyval) list"
  | PyTaskResult pyval "string option" "(string \<times> pyval) list"

fun truthy :: "pyval \<Rightarrow> bool" where
  "truthy PyNone = False"
| "truthy (PyBool b) = b"
| "truthy (PyInt i) = (i \<noteq> 0)"
| "truthy (PyFloat r) = (r \<notin> {''0.0'', ''-0.0''})"
| "truthy (PyStr s) = (s \<noteq> [])"
| "truthy (PyList xs) = (xs \<noteq> [])"
| "truthy (PyDict d) = (d \<noteq> [])"
| "truthy (PyTaskResult _ _ _) = True"

fun type_name :: "pyval \<Rightarrow> string" where
  "type_name PyNone = ''NoneType''"
| "type_name (PyBool _) = ''bool''"
| "type_name (PyInt _) = ''int''"
| "type_name (PyFloat _) = ''float''"
| "type_name (PyStr _) = ''str''"
| "type_name (PyList _) = ''list''"
| "type_name (PyDict _) = ''dict''"
| "type_name (PyTaskResult _ _ _) = ''TaskResult''"

section \<open>\<open>str\<close> and \<open>repr\<close>\<close>

fun nat_digits :: "nat \<Rightarrow> string" where
  "nat_digits n =
     (if n < 10 then [char_of (48 + n)] else nat_digits (n div 10) @ [char_of (48 + n mod 10)])"

declare nat_digits.simps [simp del]

definition str_int :: "int \<Rightarrow> string" where
  "str_int i = (if i < 0 then CHR ''-'' # nat_digits (nat (- i)) else nat_digits (nat i))"

text \<open>Evaluation on binary numerals.\<close>

function int_digits :: "int \<Rightarrow> string" where
  "int_digits i =
     (if i < 10 then [char_of (nat (48 + i))] else int_digits (i div 10) @ [char_of (nat (48 + i mod 10))])"
  by auto
termination
  by (relation "measure nat") auto

declare int_digits.simps [simp del]

lemma int_digits_nat: "int_digits (int n) = nat_digits n"
proof (induction n rule: nat_digits.induct)
  case (1 n)
  have "int_digits (int n div 10) = nat_digits (n div 10)" if "\<not> n < 10"
    using 1 [OF that] by (simp add: zdiv_int)
  moreover have "nat (48 + int n) = 48 + n" "nat (48 + int n mod 10) = 48 + n mod 10"
    by (simp_all add: nat_add_distrib zmod_int nat_mod_distrib)
  ultimately show ?case
    by (subst int_digits.simps, subst nat_digits.simps) simp
qed

lemma str_int_code [code]:
  "str_int i = (if i < 0 then CHR ''-'' # int_digits (- i) else int_digits i)"
  using int_digits_nat [of "nat i"] int_digits_nat [of "nat (- i)"]
  by (cases "i < 0") (simp_all add: str_int_def)

text \<open>Natural numbers are unary when they are evaluated, and integers binary.\<close>

definition digit_char :: "int \<Rightarrow> char" where
  "digit_char i =
     (if i = 0 then CHR ''0'' else if i = 1 then CHR ''1'' else if i = 2 then CHR ''2'' else if i = 3 then CHR ''3''
      else if i = 4 then CHR ''4'' else if i = 5 then CHR ''5'' else if i = 6 then CHR ''6'' else if i = 7 then CHR ''7''
      else if i = 8 then CHR ''8'' else if i = 9 then CHR ''9'' else char_of (nat (48 + i)))"

lemma digit_char_eq: "digit_char i = char_of (nat (48 + i))"
  by (simp add: digit_char_def char_of_def bit_0)

lemma int_digits_code [code]:
  "int_digits i = (if i < 10 then [digit_char i] else int_digits (i div 10) @ [digit_char (i mod 10)])"
  by (subst int_digits.simps) (simp add: digit_char_eq)

lemma nat_digits_code [code]: "nat_digits n = int_digits (int n)"
  by (simp add: int_digits_nat)

definition code_point :: "char \<Rightarrow> int" where
  "code_point c = int (of_char c)"

lemma code_point_code [code]: "code_point c = of_char c"
  by (simp only: code_point_def of_nat_of_char)

definition hex_digit :: "nat \<Rightarrow> char" where
  "hex_digit n = (if n < 10 then char_of (48 + n) else char_of (87 + n))"

definition repr_char :: "char \<Rightarrow> char \<Rightarrow> string" where
  "repr_char q c =
     (let n = of_char c :: nat
      in if c = q \<or> c = CHR 0x5C then [CHR 0x5C, c]
         else if n = 10 then [CHR 0x5C, CHR ''n'']
         else if n = 13 then [CHR 0x5C, CHR ''r'']
         else if n = 9 then [CHR 0x5C, CHR ''t'']
         else if n < 32 \<or> (127 \<le> n \<and> n \<le> 160) \<or> n = 173
           then [CHR 0x5C, CHR ''x'', hex_digit (n div 16), hex_digit (n mod 16)]
         else [c])"

lemma repr_char_code [code]:
  "repr_char q c =
     (let n = code_point c
      in if c = q \<or> c = CHR 0x5C then [CHR 0x5C, c]
         else if n = 10 then [CHR 0x5C, CHR ''n'']
         else if n = 13 then [CHR 0x5C, CHR ''r'']
         else if n = 9 then [CHR 0x5C, CHR ''t'']
         else if n < 32 \<or> (127 \<le> n \<and> n \<le> 160) \<or> n = 173
           then [CHR 0x5C, CHR ''x'', hex_digit (nat (n div 16)), hex_digit (nat (n mod 16))]
         else [c])"
  by (auto simp: repr_char_def code_point_def Let_def nat_div_distrib nat_mod_distrib)

definition repr_str :: "string \<Rightarrow> string" where
  "repr_str s =
     (let q = (if CHR 0x27 \<in> set s \<and> CHR 0x22 \<notin> set s then CHR 0x22 else CHR 0x27)
      in [q] @ concat (map (repr_char q) s) @ [q])"

fun py_repr :: "pyval \<Rightarrow> string" where
  "py_repr PyNone = ''None''"
| "py_repr (PyBool b) = (if b then ''True'' else ''False'')"
| "py_repr (PyInt i) = str_int i"
| "py_repr (PyFloat r) = r"
| "py_repr (PyStr s) = repr_str s"
| "py_repr (PyList xs) = ''['' @ join_str '', '' (map py_repr xs) @ '']''"
| "py_repr (PyDict d) =
     ''{'' @ join_str '', '' (map (\<lambda>(k, v). py_repr k @ '': '' @ py_repr v) d) @ ''}''"
| "py_repr (PyTaskResult out err meta) =
     ''TaskResult(output='' @ py_repr out
       @ '', error='' @ (case err of None \<Rightarrow> ''None'' | Some e \<Rightarrow> repr_str e)
       @ '', metadata={'' @ join_str '', '' (map (\<lambda>(k, v). repr_str k @ '': '' @ py_repr v) meta)
       @ ''})''"

fun py_str :: "pyval \<Rightarrow> string" where
  "py_str (PyStr s) = s"
| "py_str v = py_repr v"

end
