(* ===== verification/Libraries.thy ===== *)
theory Libraries
  imports PyValue
begin

text \<open>
  The code the engine calls that is not in the repository, as one record of functions
  that every definition using it takes as an argument: PyYAML (\<open>safe_load\<close>,
  \<open>safe_dump\<close>), pydantic's lax coercions of a field's input, the digests of
  \<open>hashlib\<close> and \<open>hmac\<close>, and croniter. No property assumes more of them than its
  hypotheses say.

  \<^item> \<open>safe_load\<close>: \<open>Inl msg\<close> is a \<open>yaml.YAMLError\<close> with that text.
  \<^item> \<open>as_fields\<close>: the mapping a nested model field reads its own fields from;
    \<open>None\<close> in a coercion is a validation failure of that field.
  \<^item> \<open>sha256_hex\<close>: \<open>sha256(s.encode("utf-8")).hexdigest()\<close>; \<open>hmac_hex\<close>: the hex
    HMAC-SHA256 of a body under a key.
  \<^item> \<open>has_croniter\<close>: the import of croniter succeeded; \<open>cron_next\<close>:
    \<open>croniter(expr, base).get_next(datetime)\<close>. Instants are microseconds since 1970, UTC.
  \<^item> \<open>via_json\<close>: what a value stored in a JSON column is read back as, or the text of the
    error when it cannot be serialized.
\<close>

record libs =
  safe_load :: "string \<Rightarrow> string + pyval"
  safe_dump :: "pyval \<Rightarrow> string"
  as_str :: "pyval \<Rightarrow> string option"
  as_int :: "pyval \<Rightarrow> int option"
  as_bool :: "pyval \<Rightarrow> bool option"
  as_list :: "pyval \<Rightarrow> pyval list option"
  as_dict :: "pyval \<Rightarrow> (string, pyval) dict option"
  as_fields :: "pyval \<Rightarrow> (string, pyval) dict option"
  sha256_hex :: "string \<Rightarrow> string"
  hmac_hex :: "string \<Rightarrow> string \<Rightarrow> string"
  has_croniter :: bool
  cron_valid :: "string \<Rightarrow> bool"
  cron_next :: "string \<Rightarrow> int \<Rightarrow> int"
  via_json :: "pyval \<Rightarrow> string + pyval"

section \<open>A concrete instance, for closed examples\<close>

text \<open>
  Coercions on the values that need none, a digest that is injective on short strings, a
  cron that fires every minute, and a \<open>safe_load\<close> given by a table. The examples of
  the other theories run on it; the properties do not.
\<close>

fun plain_str :: "pyval \<Rightarrow> string option" where
  "plain_str (PyStr s) = Some s"
| "plain_str _ = None"

fun plain_int :: "pyval \<Rightarrow> int option" where
  "plain_int (PyInt i) = Some i"
| "plain_int _ = None"

fun plain_bool :: "pyval \<Rightarrow> bool option" where
  "plain_bool (PyBool b) = Some b"
| "plain_bool _ = None"

fun plain_list :: "pyval \<Rightarrow> pyval list option" where
  "plain_list (PyList xs) = Some xs"
| "plain_list _ = None"

fun str_keyed :: "(pyval \<times> pyval) list \<Rightarrow> (string, pyval) dict option" where
  "str_keyed [] = Some []"
| "str_keyed ((PyStr k, v) # kvs) = map_option (\<lambda>d. (k, v) # d) (str_keyed kvs)"
| "str_keyed (_ # kvs) = None"

fun plain_dict :: "pyval \<Rightarrow> (string, pyval) dict option" where
  "plain_dict (PyDict d) = str_keyed d"
| "plain_dict _ = None"

definition table_libs :: "(string \<times> pyval) list \<Rightarrow> libs" where
  "table_libs docs =
     \<lparr>safe_load = (\<lambda>s. case map_of docs s of Some v \<Rightarrow> Inr v | None \<Rightarrow> Inl ''syntax error''),
      safe_dump = py_repr,
      as_str = plain_str, as_int = plain_int, as_bool = plain_bool,
      as_list = plain_list, as_dict = plain_dict, as_fields = plain_dict,
      sha256_hex = (\<lambda>s. ''h:'' @ s),
      hmac_hex = (\<lambda>k b. k @ ''/'' @ b),
      has_croniter = True,
      cron_valid = (\<lambda>e. length (split_ws e) = 5),
      cron_next = (\<lambda>e t. (t div 60000000 + 1) * 60000000),
      via_json = Inr\<rparr>"

end
