(* ===== verification/Parser.thy ===== *)
theory Parser
  imports Libraries "HOL-Library.List_Lexorder" "HOL-Library.Char_ord"
begin

text \<open>
  \<open>parser.py\<close>: the workflow model (\<open>StepCondition\<close>, \<open>StepConfig\<close>,
  \<open>WorkflowConfig\<close>) with its field declarations and validators, the DAG check
  \<open>detect_cycles\<close> (Kahn's algorithm) and \<open>load_workflow_yaml\<close>. The main result is that
  the DAG check accepts exactly the workflows whose dependencies all exist and whose
  dependency relation is acyclic, and that it names the steps a cycle blocks.
\<close>

section \<open>The workflow model\<close>

record step_condition =
  sc_step :: string
  sc_equals :: "string option"
  sc_not_equals :: "string option"
  sc_contains :: "string option"

record step_config =
  st_id :: string
  st_task :: string
  st_depends_on :: "string list option"
  st_retries :: int
  st_params :: "(string, pyval) dict"
  st_condition :: "step_condition option"

record workflow_config =
  wf_name :: string
  wf_steps :: "step_config list"
  wf_schedule :: "string option"
  wf_typed_io :: bool

definition evaluate :: "step_condition \<Rightarrow> (string, pyval) dict \<Rightarrow> bool" where
  "evaluate c results =
     (case dget results (sc_step c) of
        None \<Rightarrow> False
      | Some v \<Rightarrow>
          (let actual = py_str v
           in if (case sc_equals c of None \<Rightarrow> False | Some x \<Rightarrow> actual \<noteq> x) then False
              else if (case sc_not_equals c of None \<Rightarrow> False | Some x \<Rightarrow> actual = x) then False
              else if (case sc_contains c of None \<Rightarrow> False | Some x \<Rightarrow> \<not> contains_str x actual)
                then False
              else True))"

section \<open>Validation of the model\<close>

definition non_negative_retries :: "int \<Rightarrow> exn + int" where
  "non_negative_retries value =
     (if value < 0 then Inl (ValueError ''retries must be >= 0'') else Inr value)"

fun unique_ids_from :: "string list \<Rightarrow> step_config list \<Rightarrow> exn + unit" where
  "unique_ids_from seen [] = Inr ()"
| "unique_ids_from seen (s # steps) =
     (if st_id s \<in> set seen
      then Inl (ValueError (''Duplicate step id '' @ [CHR 0x27] @ st_id s @ [CHR 0x27]))
      else unique_ids_from (st_id s # seen) steps)"

definition unique_step_ids :: "step_config list \<Rightarrow> exn + step_config list" where
  "unique_step_ids steps = bind_sum (unique_ids_from [] steps) (\<lambda>_. Inr steps)"

text \<open>
  A field: \<open>required\<close> has no default, \<open>field\<close> has one, \<open>nullable\<close> is
  \<open>Optional[...]\<close>, \<open>validated\<close> applies a \<open>field_validator\<close> to the coerced value.
  \<open>None\<close> is pydantic's \<open>ValidationError\<close>.
\<close>

definition required :: "(pyval \<Rightarrow> 'a option) \<Rightarrow> string \<Rightarrow> (string, pyval) dict \<Rightarrow> 'a option" where
  "required conv k d = Option.bind (dget d k) conv"

definition field :: "(pyval \<Rightarrow> 'a option) \<Rightarrow> 'a \<Rightarrow> string \<Rightarrow> (string, pyval) dict \<Rightarrow> 'a option" where
  "field conv dflt k d = (case dget d k of None \<Rightarrow> Some dflt | Some v \<Rightarrow> conv v)"

definition nullable :: "(pyval \<Rightarrow> 'a option) \<Rightarrow> pyval \<Rightarrow> 'a option option" where
  "nullable conv v = (if v = PyNone then Some None else map_option Some (conv v))"

definition validated :: "('a \<Rightarrow> exn + 'b) \<Rightarrow> 'a \<Rightarrow> 'b option" where
  "validated check x = (case check x of Inl e \<Rightarrow> None | Inr y \<Rightarrow> Some y)"

fun all_some :: "('a \<Rightarrow> 'b option) \<Rightarrow> 'a list \<Rightarrow> 'b list option" where
  "all_some f [] = Some []"
| "all_some f (x # xs) =
     (case f x of None \<Rightarrow> None | Some y \<Rightarrow> map_option ((#) y) (all_some f xs))"

definition make_condition :: "libs \<Rightarrow> pyval \<Rightarrow> step_condition option" where
  "make_condition L v = do {
     d \<leftarrow> as_fields L v;
     step \<leftarrow> required (as_str L) ''step'' d;
     eq \<leftarrow> field (nullable (as_str L)) None ''equals'' d;
     neq \<leftarrow> field (nullable (as_str L)) None ''not_equals'' d;
     con \<leftarrow> field (nullable (as_str L)) None ''contains'' d;
     Some \<lparr>sc_step = step, sc_equals = eq, sc_not_equals = neq, sc_contains = con\<rparr>
   }"

definition str_list :: "libs \<Rightarrow> pyval \<Rightarrow> string list option" where
  "str_list L v = Option.bind (as_list L v) (all_some (as_str L))"

definition make_step :: "libs \<Rightarrow> pyval \<Rightarrow> step_config option" where
  "make_step L v = do {
     d \<leftarrow> as_fields L v;
     sid \<leftarrow> required (as_str L) ''id'' d;
     task \<leftarrow> required (as_str L) ''task'' d;
     deps \<leftarrow> field (nullable (str_list L)) (Some []) ''depends_on'' d;
     retries \<leftarrow> field (\<lambda>x. Option.bind (as_int L x) (validated non_negative_retries)) 3 ''retries'' d;
     params \<leftarrow> field (as_dict L) [] ''params'' d;
     cond \<leftarrow> field (nullable (make_condition L)) None ''condition'' d;
     Some \<lparr>st_id = sid, st_task = task, st_depends_on = deps, st_retries = retries,
           st_params = params, st_condition = cond\<rparr>
   }"

definition make_config :: "libs \<Rightarrow> (string, pyval) dict \<Rightarrow> workflow_config option" where
  "make_config L d = do {
     name \<leftarrow> required (as_str L) ''name'' d;
     steps \<leftarrow> required
       (\<lambda>v. Option.bind (Option.bind (as_list L v) (all_some (make_step L)))
               (validated unique_step_ids)) ''steps'' d;
     schedule \<leftarrow> field (nullable (as_str L)) None ''schedule'' d;
     typed_io \<leftarrow> field (as_bool L) False ''typed_io'' d;
     Some \<lparr>wf_name = name, wf_steps = steps, wf_schedule = schedule, wf_typed_io = typed_io\<rparr>
   }"

section \<open>\<open>detect_cycles\<close>\<close>

type_synonym degrees = "(string, int) dict"
type_synonym adjacency = "(string, string list) dict"

definition depends_on :: "step_config \<Rightarrow> string list" where
  "depends_on s = (case st_depends_on s of None \<Rightarrow> [] | Some deps \<Rightarrow> deps)"

definition step_deps :: "step_config \<Rightarrow> string list" where
  "step_deps s =
     (let deps = depends_on s
      in case st_condition s of
           None \<Rightarrow> deps
         | Some c \<Rightarrow> if sc_step c \<notin> set deps then deps @ [sc_step c] else deps)"

definition unknown_step_msg :: "string \<Rightarrow> string \<Rightarrow> string" where
  "unknown_step_msg sid dep =
     ''Step '' @ [CHR 0x27] @ sid @ [CHR 0x27] @ '' depends on unknown step ''
       @ [CHR 0x27] @ dep @ [CHR 0x27]"

fun add_deps :: "string list \<Rightarrow> string \<Rightarrow> string list \<Rightarrow> degrees \<times> adjacency
    \<Rightarrow> exn + degrees \<times> adjacency" where
  "add_deps ids sid [] g = Inr g"
| "add_deps ids sid (dep # deps) (deg, adj) =
     (if dep \<notin> set ids then Inl (WorkflowValidationError (unknown_step_msg sid dep))
      else add_deps ids sid deps
             (dset sid (get_default 0 deg sid + 1) deg,
              dset dep (get_default [] adj dep @ [sid]) adj))"

fun build_graph :: "string list \<Rightarrow> step_config list \<Rightarrow> degrees \<times> adjacency
    \<Rightarrow> exn + degrees \<times> adjacency" where
  "build_graph ids [] g = Inr g"
| "build_graph ids (s # steps) g =
     bind_sum (add_deps ids (st_id s) (step_deps s) g) (build_graph ids steps)"

fun relax :: "string list \<Rightarrow> degrees \<Rightarrow> string list \<Rightarrow> degrees \<times> string list" where
  "relax [] deg queue = (deg, queue)"
| "relax (n # ns) deg queue =
     (let d = get_default 0 deg n - 1
      in relax ns (dset n d deg) (if d = 0 then queue @ [n] else queue))"

text \<open>
  Every pop shortens the queue, and a node enters it only when its degree falls to 0: the
  length of the queue plus the positive degrees shrinks in every round.
\<close>

definition pending_degree :: "degrees \<Rightarrow> nat" where
  "pending_degree deg = sum_list (map (\<lambda>(k, d). nat d) deg)"

lemma pending_degree_dset:
  "pending_degree (dset n d deg) + nat (get_default 0 deg n) = pending_degree deg + nat d"
  by (induction deg) (auto simp: pending_degree_def get_default_def)

lemma relax_measure:
  "relax ns deg q = (deg', q') \<Longrightarrow>
     length q' + pending_degree deg' \<le> length q + pending_degree deg"
proof (induction ns arbitrary: deg q)
  case Nil
  then show ?case by simp
next
  case (Cons n ns)
  let ?d = "get_default 0 deg n - 1"
  have "length q' + pending_degree deg'
      \<le> length (if ?d = 0 then q @ [n] else q) + pending_degree (dset n ?d deg)"
    using Cons by (simp add: Let_def)
  with pending_degree_dset [of n ?d deg] show ?case by (auto split: if_splits)
qed

function kahn :: "adjacency \<Rightarrow> string list \<Rightarrow> degrees \<Rightarrow> nat \<Rightarrow> nat \<times> degrees" where
  "kahn adj [] deg visited = (visited, deg)"
| "kahn adj (node # queue) deg visited =
     (case relax (get_default [] adj node) deg queue of
        (deg', queue') \<Rightarrow> kahn adj queue' deg' (visited + 1))"
  by pat_completeness auto
termination
proof (relation "measure (\<lambda>(adj, q, deg, v). length q + pending_degree deg)", simp, clarsimp)
  fix adj node queue deg deg' queue'
  assume "(deg', queue') = relax (get_default [] adj node) deg queue"
  from relax_measure [OF this [symmetric]]
  show "length queue' + pending_degree deg' < Suc (length queue + pending_degree deg)"
    by simp
qed

definition cycle_msg :: "string list \<Rightarrow> string" where
  "cycle_msg remaining =
     ''Cycle detected in workflow DAG. Unresolved nodes: '' @ py_repr (PyList (map PyStr remaining))"

definition detect_cycles :: "step_config list \<Rightarrow> exn + unit" where
  "detect_cycles steps =
     (let in_degree = dict_of (map (\<lambda>s. (st_id s, 0)) steps);
          adj = dict_of (map (\<lambda>s. (st_id s, [])) steps)
      in bind_sum (build_graph (dkeys in_degree) steps (in_degree, adj)) (\<lambda>(deg, adj).
           let queue = map fst (filter (\<lambda>(sid, d). d = 0) deg);
               (visited, deg') = kahn adj queue deg 0
           in if visited \<noteq> length steps
              then Inl (WorkflowValidationError
                     (cycle_msg (sort (map fst (filter (\<lambda>(sid, d). d > 0) deg')))))
              else Inr ()))"

section \<open>\<open>load_workflow_yaml\<close>\<close>

definition load_workflow_yaml :: "libs \<Rightarrow> string \<Rightarrow> exn + workflow_config" where
  "load_workflow_yaml L yaml_content =
     (case safe_load L yaml_content of
        Inl msg \<Rightarrow> Inl (WorkflowValidationError (''Invalid YAML: '' @ msg))
      | Inr (PyDict data) \<Rightarrow>
          (case str_keyed data of
             None \<Rightarrow> Inl (TypeError ''keywords must be strings'')
           | Some kwargs \<Rightarrow>
               (case make_config L kwargs of
                  None \<Rightarrow> Inl PydanticError
                | Some config \<Rightarrow>
                    bind_sum (detect_cycles (wf_steps config)) (\<lambda>_. Inr config)))
      | Inr _ \<Rightarrow> Inl (WorkflowValidationError
          (''Workflow definition must be a YAML mapping with '' @ repr_str ''name'' @ '' and '' @ repr_str ''steps'')))"

section \<open>Correctness of the DAG check\<close>

definition step_ids :: "step_config list \<Rightarrow> string list" where
  "step_ids steps = map st_id steps"

definition known_deps :: "step_config list \<Rightarrow> bool" where
  "known_deps steps \<longleftrightarrow> (\<forall>s \<in> set steps. set (step_deps s) \<subseteq> set (step_ids steps))"

text \<open>The dependency relation: a pair \<open>(d, n)\<close> says that step \<open>n\<close> waits for step \<open>d\<close>.\<close>

definition dep_rel :: "step_config list \<Rightarrow> (string \<times> string) set" where
  "dep_rel steps = {(d, st_id s) | d s. s \<in> set steps \<and> d \<in> set (step_deps s)}"

definition deps_of :: "step_config list \<Rightarrow> string \<Rightarrow> string list" where
  "deps_of steps n = (case find (\<lambda>s. st_id s = n) steps of None \<Rightarrow> [] | Some s \<Rightarrow> step_deps s)"

lemma find_distinct:
  "distinct (map f xs) \<Longrightarrow> x \<in> set xs \<Longrightarrow> find (\<lambda>y. f y = f x) xs = Some x"
  by (induction xs) force+

lemma find_fresh: "n \<notin> f ` set xs \<Longrightarrow> find (\<lambda>y. f y = n) xs = None"
  by (auto simp: find_None_iff)

lemma deps_of_id:
  "distinct (step_ids steps) \<Longrightarrow> s \<in> set steps \<Longrightarrow> deps_of steps (st_id s) = step_deps s"
  by (simp add: deps_of_def step_ids_def find_distinct)

lemma deps_of_unknown: "n \<notin> set (step_ids steps) \<Longrightarrow> deps_of steps n = []"
  by (simp add: deps_of_def step_ids_def find_fresh)

lemma dep_rel_iff:
  "distinct (step_ids steps) \<Longrightarrow> (d, n) \<in> dep_rel steps \<longleftrightarrow> d \<in> set (deps_of steps n)"
proof (cases "n \<in> set (step_ids steps)")
  case True
  assume dist: "distinct (step_ids steps)"
  from True obtain s where s: "s \<in> set steps" "n = st_id s" by (auto simp: step_ids_def)
  with dist show ?thesis
    by (auto simp: dep_rel_def deps_of_id step_ids_def dest: distinct_map_inj)
next
  case False
  then show ?thesis by (auto simp: deps_of_unknown dep_rel_def step_ids_def)
qed

subsection \<open>The graph that is built\<close>

lemma add_deps_ok:
  "add_deps ids sid deps (deg, adj) = Inr (deg', adj') \<longleftrightarrow>
     set deps \<subseteq> set ids
     \<and> add_deps ids sid deps (deg, adj) = Inr (deg', adj')"
  by (induction ids sid deps "(deg, adj)" arbitrary: deg adj rule: add_deps.induct) auto

lemma add_deps_Inr:
  "set deps \<subseteq> set ids \<Longrightarrow> \<exists>deg' adj'. add_deps ids sid deps (deg, adj) = Inr (deg', adj')"
  by (induction ids sid deps "(deg, adj)" arbitrary: deg adj rule: add_deps.induct) auto

lemma add_deps_spec:
  assumes "add_deps ids sid deps (deg, adj) = Inr (deg', adj')"
  shows "get_default 0 deg' n = get_default 0 deg n + (if n = sid then int (length deps) else 0)"
    and "get_default [] adj' d = get_default [] adj d @ replicate (count_list deps d) sid"
    and "sid \<in> set (dkeys deg) \<Longrightarrow> dkeys deg' = dkeys deg"
  using assms
  by (induction ids sid deps "(deg, adj)" arbitrary: deg adj rule: add_deps.induct)
     (auto split: if_splits simp: dkeys_dset replicate_append_same)

lemma build_graph_ok_iff:
  "(\<exists>g'. build_graph ids steps g = Inr g') \<longleftrightarrow> (\<forall>s \<in> set steps. set (step_deps s) \<subseteq> set ids)"
proof (induction steps arbitrary: g)
  case Nil
  then show ?case by simp
next
  case (Cons s steps)
  obtain deg adj where g: "g = (deg, adj)" by force
  show ?case
  proof (cases "set (step_deps s) \<subseteq> set ids")
    case True
    then obtain deg' adj' where "add_deps ids (st_id s) (step_deps s) g = Inr (deg', adj')"
      using add_deps_Inr g by blast
    with True Cons show ?thesis by simp
  next
    case False
    then have "\<forall>g'. add_deps ids (st_id s) (step_deps s) g \<noteq> Inr g'"
      using add_deps_ok g by (metis surj_pair)
    with False show ?thesis by (auto simp: bind_sum_Inr_iff)
  qed
qed

lemma build_graph_spec:
  assumes "build_graph ids steps (deg, adj) = Inr (deg', adj')"
    and "set (map st_id steps) \<subseteq> set (dkeys deg)"
  shows "dkeys deg' = dkeys deg
    \<and> get_default 0 deg' n
        = get_default 0 deg n + int (sum_list (map (\<lambda>s. if st_id s = n then length (step_deps s) else 0) steps))
    \<and> get_default [] adj' d
        = get_default [] adj d @ concat (map (\<lambda>s. replicate (count_list (step_deps s) d) (st_id s)) steps)"
  using assms
proof (induction steps arbitrary: deg adj)
  case Nil
  then show ?case by simp
next
  case (Cons s steps)
  then obtain deg1 adj1 where 1: "add_deps ids (st_id s) (step_deps s) (deg, adj) = Inr (deg1, adj1)"
    and 2: "build_graph ids steps (deg1, adj1) = Inr (deg', adj')"
    by (auto simp: bind_sum_Inr_iff)
  have k: "dkeys deg1 = dkeys deg" using add_deps_spec(3) [OF 1] Cons.prems by simp
  with Cons.IH [OF 2] Cons.prems add_deps_spec(1,2) [OF 1]
  show ?case by (simp add: eq_commute)
qed

lemma sum_list_distinct_single:
  "distinct (map f xs) \<Longrightarrow> x \<in> set xs \<Longrightarrow>
     sum_list (map (\<lambda>y. if f y = f x then g y else (0::nat)) xs) = g x"
proof (induction xs)
  case Nil
  then show ?case by simp
next
  case (Cons a xs)
  show ?case
  proof (cases "a = x")
    case True
    with Cons.prems have "\<forall>y \<in> set xs. f y \<noteq> f x" by (auto simp: image_iff)
    then have "sum_list (map (\<lambda>y. if f y = f x then g y else 0) xs) = 0"
      by (induction xs) auto
    with True show ?thesis by simp
  next
    case False
    with Cons show ?thesis by (auto simp: image_iff)
  qed
qed

lemma count_concat_replicate:
  "distinct (map f xs) \<Longrightarrow>
     count_list (concat (map (\<lambda>y. replicate (g y) (f y)) xs)) n
       = (case find (\<lambda>y. f y = n) xs of None \<Rightarrow> 0 | Some y \<Rightarrow> g y)"
proof (induction xs)
  case Nil
  then show ?case by simp
next
  case (Cons a xs)
  have rep: "count_list (replicate k x) n = (if x = n then k else 0)" for k x
    by (induction k) auto
  have "f a = n \<Longrightarrow> find (\<lambda>y. f y = n) xs = None"
    using Cons.prems by (auto intro: find_fresh)
  with Cons show ?case by (auto simp: rep)
qed

lemma graph_degrees:
  assumes dist: "distinct (step_ids steps)"
    and b: "build_graph ids steps
       (dict_of (map (\<lambda>s. (st_id s, 0)) steps), dict_of (map (\<lambda>s. (st_id s, [])) steps))
         = Inr (deg, adj)"
  shows "dkeys deg = step_ids steps"
    and "get_default 0 deg n = int (length (deps_of steps n))"
    and "count_list (get_default [] adj d) n = count_list (deps_of steps n) d"
proof -
  have d0: "dict_of (map (\<lambda>s. (st_id s, c)) steps) = map (\<lambda>s. (st_id s, c)) steps" for c :: "'z"
    by (intro dict_of_distinct) (use dist in \<open>simp add: step_ids_def comp_def\<close>)
  have k0: "dkeys (map (\<lambda>s. (st_id s, c)) steps) = step_ids steps" for c :: "'z"
    by (simp add: step_ids_def)
  have z: "get_default c (map (\<lambda>s. (st_id s, c)) steps) n = c" for c :: "'z" and n
    by (induction steps) (auto simp: get_default_def)
  note spec = build_graph_spec [OF b [unfolded d0]]
  have sub: "set (map st_id steps) \<subseteq> set (dkeys (map (\<lambda>s. (st_id s, 0::int)) steps))" by force
  show "dkeys deg = step_ids steps" by (simp only: spec [OF sub, THEN conjunct1] k0)
  show "get_default 0 deg n = int (length (deps_of steps n))"
  proof (cases "n \<in> set (step_ids steps)")
    case True
    then obtain s where s: "s \<in> set steps" "n = st_id s" by (auto simp: step_ids_def)
    with spec sub z [of "0::int"] show ?thesis
      using sum_list_distinct_single [of st_id steps s "\<lambda>s. length (step_deps s)"] dist
      by (simp add: deps_of_id step_ids_def)
  next
    case False
    then have "sum_list (map (\<lambda>s. if st_id s = n then length (step_deps s) else 0) steps) = 0"
      by (auto simp: step_ids_def)
    with False spec sub z [of "0::int"] show ?thesis by (simp add: deps_of_unknown)
  qed
  show "count_list (get_default [] adj d) n = count_list (deps_of steps n) d"
    using spec sub z [of "[]::string list"] dist
    by (simp add: count_concat_replicate step_ids_def deps_of_def split: option.splits)
qed


subsection \<open>The queue loop\<close>

lemma relax_spec:
  assumes "relax ns deg q = (deg', q')"
    and "\<forall>n \<in> set ns. int (count_list ns n) \<le> get_default 0 deg n"
  shows "(\<forall>n. get_default 0 deg' n = get_default 0 deg n - int (count_list ns n))
    \<and> (\<exists>new. q' = q @ new \<and> distinct new
          \<and> set new = {n \<in> set ns. get_default 0 deg n = int (count_list ns n)})
    \<and> (set ns \<subseteq> set (dkeys deg) \<longrightarrow> dkeys deg' = dkeys deg)"
  using assms
proof (induction ns arbitrary: deg q)
  case Nil
  then show ?case by simp
next
  case (Cons m ns)
  define d where "d = get_default 0 deg m - 1"
  let ?q = "if d = 0 then q @ [m] else q"
  from Cons.prems(1) have r: "relax ns (dset m d deg) ?q = (deg', q')"
    by (simp add: Let_def d_def)
  have b: "\<forall>n \<in> set ns. int (count_list ns n) \<le> get_default 0 (dset m d deg) n"
    using Cons.prems(2) by (auto simp: d_def split: if_splits)
  have zero: "d = 0 \<Longrightarrow> m \<notin> set ns"
    using Cons.prems(2) by (auto simp: d_def) (metis count_list_0_iff less_irrefl not_less of_nat_0_less_iff neq0_conv)
  from Cons.IH [OF r b] obtain new
    where deg': "\<forall>n. get_default 0 deg' n = get_default 0 (dset m d deg) n - int (count_list ns n)"
      and q': "q' = ?q @ new" "distinct new"
      and new: "set new = {n \<in> set ns. get_default 0 (dset m d deg) n = int (count_list ns n)}"
      and keys: "set ns \<subseteq> set (dkeys (dset m d deg)) \<longrightarrow> dkeys deg' = dkeys (dset m d deg)"
    by blast
  let ?new = "if d = 0 then m # new else new"
  have "q' = q @ ?new" "distinct ?new" using q' new zero by auto
  moreover have "set ?new = {n \<in> set (m # ns). get_default 0 deg n = int (count_list (m # ns) n)}"
    using new zero Cons.prems(2) by (auto simp: d_def)
  moreover have "\<forall>n. get_default 0 deg' n = get_default 0 deg n - int (count_list (m # ns) n)"
    using deg' by (simp add: d_def)
  moreover have "set (m # ns) \<subseteq> set (dkeys deg) \<longrightarrow> dkeys deg' = dkeys deg"
    using keys by (auto simp: dkeys_dset)
  ultimately show ?case by blast
qed

text \<open>A list in dependency order: the dependencies of each entry come before it.\<close>

definition topo :: "(string \<Rightarrow> string list) \<Rightarrow> string list \<Rightarrow> bool" where
  "topo dp vs \<longleftrightarrow> (\<forall>as n bs. vs = as @ n # bs \<longrightarrow> set (dp n) \<subseteq> set as)"

lemma topo_Nil [simp]: "topo dp []"
  by (simp add: topo_def)

lemma topo_snoc: "topo dp vs \<Longrightarrow> set (dp n) \<subseteq> set vs \<Longrightarrow> topo dp (vs @ [n])"
  by (fastforce simp: topo_def append_eq_append_conv2 Cons_eq_append_conv append_eq_Cons_conv)

lemma topo_closed: "topo dp vs \<Longrightarrow> n \<in> set vs \<Longrightarrow> set (dp n) \<subseteq> set vs"
  by (fastforce simp: topo_def dest: split_list)

lemma topo_acyclic:
  assumes "topo dp vs" and "\<And>d n. (d, n) \<in> r \<Longrightarrow> d \<in> set (dp n) \<and> n \<in> set vs"
    and "distinct vs"
  shows "acyclic r"
proof -
  define pos where "pos n = length (takeWhile (\<lambda>x. x \<noteq> n) vs)" for n
  have pos: "pos n = length as" if "vs = as @ n # bs" for as n bs
    using that \<open>distinct vs\<close> by (auto simp: pos_def takeWhile_append)
  have "(d, n) \<in> measure pos" if dn: "(d, n) \<in> r" for d n
  proof -
    from assms(2) [OF dn] obtain as bs where vs: "vs = as @ n # bs" by (auto dest: split_list)
    with assms(1,2) dn have "d \<in> set as" unfolding topo_def by blast
    then obtain a1 a2 where "as = a1 @ d # a2" by (auto dest: split_list)
    with vs pos [of a1 d "a2 @ n # bs"] pos [of as n bs] show ?thesis by simp
  qed
  then have "r \<subseteq> measure pos" by auto
  then show ?thesis using wf_measure wf_subset wf_acyclic by blast
qed

definition kahn_inv :: "step_config list \<Rightarrow> string list \<Rightarrow> string list \<Rightarrow> degrees \<Rightarrow> bool" where
  "kahn_inv steps vs q deg \<longleftrightarrow>
     distinct (vs @ q) \<and> set (vs @ q) \<subseteq> set (step_ids steps) \<and> dkeys deg = step_ids steps
     \<and> (\<forall>n. get_default 0 deg n = int (length (filter (\<lambda>d. d \<notin> set vs) (deps_of steps n))))
     \<and> (\<forall>n \<in> set (step_ids steps). n \<in> set (vs @ q) \<longleftrightarrow> get_default 0 deg n = 0)
     \<and> topo (deps_of steps) vs"

lemma length_filter_insert:
  "x \<notin> V \<Longrightarrow> int (length (filter (\<lambda>d. d \<notin> insert x V) ds))
     = int (length (filter (\<lambda>d. d \<notin> V) ds)) - int (count_list ds x)"
  by (induction ds) auto

lemma count_list_le_filter:
  "x \<notin> V \<Longrightarrow> count_list ds x \<le> length (filter (\<lambda>d. d \<notin> V) ds)"
  by (induction ds) auto

lemma kahn_inv_step:
  assumes inv: "kahn_inv steps vs (node # q) deg"
    and adj: "\<And>d n. count_list (get_default [] adj d) n = count_list (deps_of steps n) d"
    and r: "relax (get_default [] adj node) deg q = (deg', q')"
  shows "kahn_inv steps (vs @ [node]) q' deg'"
proof -
  let ?ns = "get_default [] adj node" and ?dp = "deps_of steps"
  have nv: "node \<notin> set vs" and nid: "node \<in> set (step_ids steps)"
    using inv by (auto simp: kahn_inv_def)
  have degv: "get_default 0 deg n = int (length (filter (\<lambda>d. d \<notin> set vs) (?dp n)))" for n
    using inv by (simp add: kahn_inv_def)
  have mem: "n \<in> set ?ns \<longleftrightarrow> node \<in> set (?dp n)" for n
    using adj [of node n] by (metis count_list_0_iff)
  have sub: "set ?ns \<subseteq> set (step_ids steps)"
    using mem deps_of_unknown by fastforce
  have le: "\<forall>n \<in> set ?ns. int (count_list ?ns n) \<le> get_default 0 deg n"
    using count_list_le_filter [OF nv] by (simp add: adj degv)
  have keys0: "dkeys deg = step_ids steps" using inv by (simp only: kahn_inv_def)
  have subk: "set ?ns \<subseteq> set (dkeys deg)" by (simp only: keys0 sub)
  from relax_spec [OF r le] subk obtain new
    where deg': "\<forall>n. get_default 0 deg' n = get_default 0 deg n - int (count_list ?ns n)"
      and q': "q' = q @ new" "distinct new"
      and new: "set new = {n \<in> set ?ns. get_default 0 deg n = int (count_list ?ns n)}"
      and keys: "dkeys deg' = step_ids steps"
    unfolding keys0 by blast
  have zero: "n \<in> set (step_ids steps) \<Longrightarrow> n \<in> set (vs @ node # q) \<longleftrightarrow> get_default 0 deg n = 0" for n
    using inv by (simp add: kahn_inv_def)
  have pos: "n \<in> set ?ns \<Longrightarrow> 0 < count_list ?ns n" for n
    by (metis count_list_0_iff neq0_conv)
  have fresh: "set new \<inter> set (vs @ node # q) = {}"
    using new sub zero pos by fastforce
  have "distinct ((vs @ [node]) @ q')" using inv fresh q' by (auto simp: kahn_inv_def)
  moreover have "set ((vs @ [node]) @ q') \<subseteq> set (step_ids steps)"
    using inv q' new sub by (auto simp: kahn_inv_def)
  moreover have "\<forall>n. get_default 0 deg' n
      = int (length (filter (\<lambda>d. d \<notin> set (vs @ [node])) (?dp n)))"
    using deg' length_filter_insert [OF nv] by (simp add: adj degv)
  moreover have "\<forall>n \<in> set (step_ids steps). n \<in> set ((vs @ [node]) @ q') \<longleftrightarrow> get_default 0 deg' n = 0"
  proof
    fix n assume n: "n \<in> set (step_ids steps)"
    show "n \<in> set ((vs @ [node]) @ q') \<longleftrightarrow> get_default 0 deg' n = 0"
    proof (cases "n \<in> set ?ns")
      case True
      with le pos have "0 < get_default 0 deg n" by fastforce
      with True zero [OF n] new q' deg' show ?thesis by auto
    next
      case False
      then have "count_list ?ns n = 0" by simp
      with False zero [OF n] new q' deg' show ?thesis by auto
    qed
  qed
  moreover have "topo ?dp (vs @ [node])"
  proof (rule topo_snoc)
    show "topo ?dp vs" using inv by (simp add: kahn_inv_def)
    have "get_default 0 deg node = 0" using zero [OF nid] by simp
    then show "set (?dp node) \<subseteq> set vs" by (auto simp: degv filter_empty_conv)
  qed
  ultimately show ?thesis using keys by (simp add: kahn_inv_def)
qed

lemma kahn_result:
  assumes "kahn_inv steps vs q deg"
    and "\<And>d n. count_list (get_default [] adj d) n = count_list (deps_of steps n) d"
    and "kahn adj q deg (length vs) = (visited, deg')"
  shows "\<exists>vs'. kahn_inv steps vs' [] deg' \<and> visited = length vs'"
  using assms
proof (induction adj q deg "length vs" arbitrary: vs rule: kahn.induct)
  case (1 adj deg)
  then show ?case by auto
next
  case (2 adj node queue deg)
  obtain deg1 q1 where r: "relax (get_default [] adj node) deg queue = (deg1, q1)" by force
  with 2 have "kahn_inv steps (vs @ [node]) q1 deg1" by (blast intro: kahn_inv_step)
  moreover have "kahn adj q1 deg1 (length (vs @ [node])) = (visited, deg')"
    using "2.prems"(3) r by simp
  ultimately show ?case using "2.hyps" [OF r [symmetric], of "vs @ [node]"] "2.prems"(2) by simp
qed

subsection \<open>What the check decides\<close>

definition blocked :: "step_config list \<Rightarrow> string \<Rightarrow> bool" where
  "blocked steps n \<longleftrightarrow> (\<exists>m. (m, m) \<in> (dep_rel steps)\<^sup>+ \<and> (m, n) \<in> (dep_rel steps)\<^sup>*)"

lemma finite_dep_rel: "finite (dep_rel steps)"
proof -
  have "dep_rel steps = (\<Union>s \<in> set steps. (\<lambda>d. (d, st_id s)) ` set (step_deps s))"
    by (auto simp: dep_rel_def)
  then show ?thesis by simp
qed

text \<open>
  Generic facts about a relation: a set in which every element has a predecessor inside the
  set contains only elements that a cycle reaches; a duplicate-free list in dependency
  order contains none.
\<close>

lemma cycle_reaches:
  assumes fin: "finite r" and n: "n \<in> S"
    and out: "\<And>m. m \<in> S \<Longrightarrow> \<exists>d \<in> S. (d, m) \<in> r"
  shows "\<exists>m. (m, m) \<in> r\<^sup>+ \<and> (m, n) \<in> r\<^sup>*"
proof (rule ccontr)
  assume nb: "\<not> ?thesis"
  define A where "A = {m \<in> S. (m, n) \<in> r\<^sup>*}"
  define rA where "rA = {(d, m) \<in> r. m \<in> A}"
  have sub: "rA \<subseteq> r" by (auto simp: rA_def)
  have "acyclic rA"
    unfolding acyclic_def
  proof (intro allI notI)
    fix x assume x: "(x, x) \<in> rA\<^sup>+"
    then obtain y where "(y, x) \<in> rA" by (meson tranclD2)
    then have "(x, n) \<in> r\<^sup>*" by (simp add: rA_def A_def)
    moreover have "(x, x) \<in> r\<^sup>+" using x sub by (rule trancl_mono)
    ultimately show False using nb by blast
  qed
  then have "wf rA" using finite_acyclic_wf finite_subset [OF sub fin] by blast
  moreover have "n \<in> A" using n by (simp add: A_def)
  ultimately obtain m where m: "m \<in> A" "\<And>d. (d, m) \<in> rA \<Longrightarrow> d \<notin> A"
    by (meson wfE_min)
  then obtain d where d: "d \<in> S" "(d, m) \<in> r" using out by (auto simp: A_def)
  moreover have "(d, n) \<in> r\<^sup>*"
    using d(2) m(1) unfolding A_def by (blast intro: converse_rtrancl_into_rtrancl)
  ultimately have "d \<in> A" "(d, m) \<in> rA" using m(1) by (simp_all add: A_def rA_def)
  with m(2) show False by blast
qed

lemma topo_cycle_free:
  assumes topo: "topo dp vs" and dist: "distinct vs" and n: "n \<in> set vs"
    and rel: "\<And>d m. (d, m) \<in> r \<longleftrightarrow> d \<in> set (dp m)"
    and mn: "(m, n) \<in> r\<^sup>*"
  shows "(m, m) \<notin> r\<^sup>+"
proof
  assume mm: "(m, m) \<in> r\<^sup>+"
  have closed: "(x, y) \<in> r\<^sup>* \<Longrightarrow> y \<in> set vs \<Longrightarrow> x \<in> set vs" for x y
    by (induction rule: converse_rtrancl_induct) (use topo_closed [OF topo] rel in blast)+
  define rV where "rV = {(d, k) \<in> r. k \<in> set vs}"
  have "(x, y) \<in> r\<^sup>+ \<Longrightarrow> y \<in> set vs \<Longrightarrow> (x, y) \<in> rV\<^sup>+" for x y
  proof (induction rule: converse_trancl_induct)
    case (base x)
    then have "(x, y) \<in> rV" by (simp add: rV_def)
    then show ?case by (rule r_into_trancl)
  next
    case (step x z)
    have "z \<in> set vs" by (rule closed [OF trancl_into_rtrancl [OF step.hyps(2)] step.prems])
    with step.hyps(1) have "(x, z) \<in> rV" by (simp add: rV_def)
    then show ?case using step.IH [OF step.prems] by (rule trancl_into_trancl2)
  qed
  with mm closed [OF mn n] have "(m, m) \<in> rV\<^sup>+" by blast
  moreover have "acyclic rV"
    by (rule topo_acyclic [OF topo _ dist]) (simp add: rV_def rel)
  ultimately show False by (auto simp: acyclic_def)
qed

lemma kahn_final:
  assumes dist: "distinct (step_ids steps)" and known: "known_deps steps"
    and inv: "kahn_inv steps vs [] deg" and n: "n \<in> set (step_ids steps)"
  shows "n \<notin> set vs \<longleftrightarrow> blocked steps n"
proof
  note rel = dep_rel_iff [OF dist]
  have topo: "topo (deps_of steps) vs" and dv: "distinct vs"
    and degv: "\<And>n. get_default 0 deg n = int (length (filter (\<lambda>d. d \<notin> set vs) (deps_of steps n)))"
    and zero: "\<And>n. n \<in> set (step_ids steps) \<Longrightarrow> n \<in> set vs \<longleftrightarrow> get_default 0 deg n = 0"
    using inv by (simp_all add: kahn_inv_def)
  let ?S = "set (step_ids steps) - set vs"
  have out: "\<exists>d \<in> ?S. (d, m) \<in> dep_rel steps" if m: "m \<in> ?S" for m
  proof -
    have "get_default 0 deg m \<noteq> 0" using zero [of m] m by blast
    then have "filter (\<lambda>d. d \<notin> set vs) (deps_of steps m) \<noteq> []" using degv [of m] by force
    then obtain d where "d \<in> set (deps_of steps m)" "d \<notin> set vs"
      by (auto simp: filter_empty_conv)
    moreover have "set (deps_of steps m) \<subseteq> set (step_ids steps)"
      using m known deps_of_id [OF dist] by (fastforce simp: known_deps_def step_ids_def)
    ultimately show ?thesis using rel by blast
  qed
  show "blocked steps n" if "n \<notin> set vs"
    unfolding blocked_def by (rule cycle_reaches [OF finite_dep_rel _ out, of n]) (use n that in simp_all)
  show "n \<notin> set vs" if "blocked steps n"
    using that topo_cycle_free [OF topo dv _ rel] unfolding blocked_def by blast
qed

lemma kahn_inv_init:
  assumes dist: "distinct (step_ids steps)"
    and b: "build_graph ids steps
       (dict_of (map (\<lambda>s. (st_id s, 0)) steps), dict_of (map (\<lambda>s. (st_id s, [])) steps))
         = Inr (deg, adj)"
  shows "kahn_inv steps [] (map fst (filter (\<lambda>(sid, d). d = 0) deg)) deg"
proof -
  note g = graph_degrees [OF dist b]
  have dd: "distinct (dkeys deg)" by (simp only: g(1) dist)
  have mem: "n \<in> set (step_ids steps) \<Longrightarrow> (n, d) \<in> set deg \<longleftrightarrow> get_default 0 deg n = d" for n d
  proof -
    assume "n \<in> set (step_ids steps)"
    then have "n \<in> set (dkeys deg)" by (simp only: g(1))
    then obtain v where v: "dget deg n = Some v" by (metis dget_None_iff not_None_eq)
    have "(n, d) \<in> set deg \<longleftrightarrow> dget deg n = Some d" by (rule dget_Some_iff [OF dd, symmetric])
    with v show ?thesis by (simp add: get_default_def)
  qed
  have sub: "(n, d) \<in> set deg \<Longrightarrow> n \<in> set (step_ids steps)" for n d
    unfolding g(1) [symmetric] by force
  have "distinct (map fst (filter (\<lambda>(sid, d). d = 0) deg))"
    using dd by (simp add: distinct_map_filter)
  moreover have "set (map fst (filter (\<lambda>(sid, d). d = 0) deg)) \<subseteq> set (step_ids steps)"
    using sub by auto
  moreover have "n \<in> set (map fst (filter (\<lambda>(sid, d). d = 0) deg)) \<longleftrightarrow> get_default 0 deg n = 0"
    if "n \<in> set (step_ids steps)" for n
  proof -
    have "n \<in> set (map fst (filter (\<lambda>(sid, d). d = 0) deg)) \<longleftrightarrow> (n, 0) \<in> set deg" by force
    with mem [OF that] show ?thesis by blast
  qed
  moreover have "\<forall>n. get_default 0 deg n = int (length (filter (\<lambda>d. d \<notin> set []) (deps_of steps n)))"
    using g(2) by simp
  ultimately show ?thesis using g(1) unfolding kahn_inv_def by simp
qed

lemma add_deps_Inl:
  "add_deps ids sid deps g = Inl e \<Longrightarrow>
     \<exists>d \<in> set deps - set ids. e = WorkflowValidationError (unknown_step_msg sid d)"
  by (induction ids sid deps g rule: add_deps.induct) (auto split: if_splits)

lemma build_graph_Inl:
  "build_graph ids steps g = Inl e \<Longrightarrow>
     \<exists>s \<in> set steps. \<exists>d \<in> set (step_deps s) - set ids.
       e = WorkflowValidationError (unknown_step_msg (st_id s) d)"
proof (induction steps arbitrary: g)
  case Nil
  then show ?case by simp
next
  case (Cons s steps)
  from Cons.prems consider "add_deps ids (st_id s) (step_deps s) g = Inl e"
    | g' where "build_graph ids steps g' = Inl e"
    by (auto simp: bind_sum_Inl_iff)
  then show ?case
  proof cases
    case 1
    from add_deps_Inl [OF this] show ?thesis by auto
  next
    case 2
    from Cons.IH [OF this] show ?thesis by auto
  qed
qed

lemma map_fst_filter_default:
  "distinct (dkeys deg) \<Longrightarrow>
     map fst (filter (\<lambda>(k, d). P d) deg) = filter (\<lambda>k. P (get_default z deg k)) (dkeys deg)"
proof (induction deg)
  case Nil
  then show ?case by simp
next
  case (Cons kv deg)
  obtain k d where kv: "kv = (k, d)" by force
  have "filter (\<lambda>x. P (get_default z (kv # deg) x)) (dkeys deg)
      = filter (\<lambda>x. P (get_default z deg x)) (dkeys deg)"
    using Cons.prems kv by (intro filter_cong) (auto simp: get_default_def)
  with Cons kv show ?case by (simp add: get_default_def)
qed

lemma distinct_length_full:
  assumes "distinct xs" "distinct ys" "set xs \<subseteq> set ys"
  shows "length xs = length ys \<longleftrightarrow> set ys \<subseteq> set xs"
  using assms by (metis card_subset_eq distinct_card finite_set subset_antisym order_refl)

lemma detect_cycles_unknown:
  assumes dist: "distinct (step_ids steps)" and "\<not> known_deps steps"
  shows "\<exists>s \<in> set steps. \<exists>d \<in> set (step_deps s) - set (step_ids steps).
            detect_cycles steps = Inl (WorkflowValidationError (unknown_step_msg (st_id s) d))"
proof -
  let ?deg = "dict_of (map (\<lambda>s. (st_id s, 0::int)) steps)"
    and ?adj = "dict_of (map (\<lambda>s. (st_id s, [])) steps) :: adjacency"
  have ids: "dkeys ?deg = step_ids steps"
    using dist by (subst dict_of_distinct) (simp_all add: step_ids_def comp_def)
  have "\<nexists>g. build_graph (step_ids steps) steps (?deg, ?adj) = Inr g"
    using assms(2) unfolding build_graph_ok_iff known_deps_def .
  then obtain e where e: "build_graph (step_ids steps) steps (?deg, ?adj) = Inl e"
    by (meson sum.exhaust)
  from build_graph_Inl [OF e] e ids show ?thesis by (auto simp: detect_cycles_def)
qed

lemma detect_cycles_known:
  assumes dist: "distinct (step_ids steps)" and known: "known_deps steps"
  shows "detect_cycles steps =
          (let bad = filter (blocked steps) (step_ids steps)
           in if bad = [] then Inr ()
              else Inl (WorkflowValidationError (cycle_msg (sort bad))))"
proof -
  let ?deg = "dict_of (map (\<lambda>s. (st_id s, 0::int)) steps)"
    and ?adj = "dict_of (map (\<lambda>s. (st_id s, [])) steps) :: adjacency"
    and ?bad = "filter (blocked steps) (step_ids steps)"
  have ids: "dkeys ?deg = step_ids steps"
    using dist by (subst dict_of_distinct) (simp_all add: step_ids_def comp_def)
  obtain deg adj where b: "build_graph (step_ids steps) steps (?deg, ?adj) = Inr (deg, adj)"
    using known build_graph_ok_iff [of "step_ids steps" steps] unfolding known_deps_def
    by (metis surj_pair)
  let ?q = "map fst (filter (\<lambda>(sid, d). d = 0) deg)"
  obtain visited deg' where k: "kahn adj ?q deg 0 = (visited, deg')" by force
  have "\<exists>vs'. kahn_inv steps vs' [] deg' \<and> visited = length vs'"
    by (rule kahn_result [OF kahn_inv_init [OF dist b] graph_degrees(3) [OF dist b]])
       (use k in simp)
  then obtain vs where inv: "kahn_inv steps vs [] deg'" and v: "visited = length vs" by blast
  have keys: "dkeys deg' = step_ids steps" and vs: "distinct vs" "set vs \<subseteq> set (step_ids steps)"
    using inv by (simp_all add: kahn_inv_def)
  have bl: "n \<in> set (step_ids steps) \<Longrightarrow> 0 < get_default 0 deg' n \<longleftrightarrow> blocked steps n" for n
    using kahn_final [OF dist known inv, of n] inv by (force simp: kahn_inv_def)
  have "map fst (filter (\<lambda>(sid, d). d > 0) deg')
      = filter (\<lambda>n. 0 < get_default 0 deg' n) (dkeys deg')"
    by (rule map_fst_filter_default) (simp only: keys dist)
  also have "\<dots> = ?bad" unfolding keys by (rule filter_cong) (use bl in auto)
  finally have remaining: "map fst (filter (\<lambda>(sid, d). d > 0) deg') = ?bad" .
  have "length vs = length (step_ids steps) \<longleftrightarrow> set (step_ids steps) \<subseteq> set vs"
    by (rule distinct_length_full [OF vs(1) dist vs(2)])
  also have "\<dots> \<longleftrightarrow> ?bad = []"
    using kahn_final [OF dist known inv] by (auto simp: filter_empty_conv)
  finally have "visited = length steps \<longleftrightarrow> ?bad = []" by (simp add: v step_ids_def)
  then show ?thesis
    by (simp add: detect_cycles_def ids b k remaining Let_def)
qed

lemma no_blocked_iff_acyclic:
  "filter (blocked steps) (step_ids steps) = [] \<longleftrightarrow> acyclic (dep_rel steps)"
proof -
  have "x \<in> set (step_ids steps)" if "(x, x) \<in> (dep_rel steps)\<^sup>+" for x
    using tranclD2 [OF that] by (auto simp: dep_rel_def step_ids_def)
  then show ?thesis
    by (auto simp: filter_empty_conv acyclic_def blocked_def)
qed

section \<open>What a loaded definition satisfies\<close>

lemma unique_ids_from_iff:
  "unique_ids_from seen steps = Inr () \<longleftrightarrow>
     distinct (step_ids steps) \<and> set (step_ids steps) \<inter> set seen = {}"
  by (induction seen steps rule: unique_ids_from.induct) (auto simp: step_ids_def)

lemma unique_step_ids_iff:
  "unique_step_ids steps = Inr steps' \<longleftrightarrow> steps' = steps \<and> distinct (step_ids steps)"
  using unique_ids_from_iff [of "[]" steps]
  by (cases "unique_ids_from [] steps") (auto simp: unique_step_ids_def)

lemma validated_iff: "validated check x = Some y \<longleftrightarrow> check x = Inr y"
  by (auto simp: validated_def split: sum.splits)

lemma all_some_set: "all_some f xs = Some ys \<Longrightarrow> y \<in> set ys \<Longrightarrow> \<exists>x \<in> set xs. f x = Some y"
  by (induction xs arbitrary: ys) (auto split: option.splits)

lemma make_step_retries: "make_step L v = Some s \<Longrightarrow> 0 \<le> st_retries s"
  by (auto simp: make_step_def field_def validated_iff non_negative_retries_def
        bind_eq_Some_conv split: option.splits if_splits)

lemma make_config_steps:
  assumes "make_config L d = Some c"
  shows "distinct (step_ids (wf_steps c))" and "\<forall>s \<in> set (wf_steps c). 0 \<le> st_retries s"
proof -
  from assms obtain vs where vs: "all_some (make_step L) vs = Some (wf_steps c)"
    and dist: "distinct (step_ids (wf_steps c))"
    by (auto simp: make_config_def required_def validated_iff unique_step_ids_iff
          bind_eq_Some_conv)
  show "distinct (step_ids (wf_steps c))" by (rule dist)
  show "\<forall>s \<in> set (wf_steps c). 0 \<le> st_retries s"
    by (auto dest!: all_some_set [OF vs] make_step_retries)
qed

text \<open>The invariant every loaded workflow has, on which the executor relies.\<close>

definition wf_workflow :: "workflow_config \<Rightarrow> bool" where
  "wf_workflow c \<longleftrightarrow>
     distinct (step_ids (wf_steps c)) \<and> (\<forall>s \<in> set (wf_steps c). 0 \<le> st_retries s)
     \<and> known_deps (wf_steps c) \<and> acyclic (dep_rel (wf_steps c))"

lemma detect_cycles_ok_iff:
  assumes "distinct (step_ids steps)"
  shows "detect_cycles steps = Inr () \<longleftrightarrow> known_deps steps \<and> acyclic (dep_rel steps)"
proof (cases "known_deps steps")
  case True
  then show ?thesis
    using no_blocked_iff_acyclic [of steps] by (simp add: detect_cycles_known [OF assms] Let_def)
next
  case False
  then show ?thesis using detect_cycles_unknown [OF assms] by auto
qed

lemma load_wf:
  assumes "load_workflow_yaml L y = Inr c"
  shows "wf_workflow c"
proof -
  from assms obtain kwargs where c: "make_config L kwargs = Some c"
    and d: "detect_cycles (wf_steps c) = Inr ()"
    by (auto simp: load_workflow_yaml_def bind_sum_Inr_iff split: sum.splits pyval.splits option.splits)
  note steps = make_config_steps [OF c]
  from d have "known_deps (wf_steps c) \<and> acyclic (dep_rel (wf_steps c))"
    by (simp add: detect_cycles_ok_iff [OF steps(1)])
  with steps show ?thesis by (simp add: wf_workflow_def)
qed

text \<open>
  C1: the DAG check accepts a list of steps with distinct ids exactly when every
  dependency and every condition source is a step of the list and the dependency relation
  has no cycle.
\<close>

theorem detect_cycles_accepts:
  assumes "distinct (step_ids steps)"
  shows "detect_cycles steps = Inr () \<longleftrightarrow> known_deps steps \<and> acyclic (dep_rel steps)"
  using assms by (rule detect_cycles_ok_iff)

definition ex_step :: "string \<Rightarrow> string list \<Rightarrow> step_config" where
  "ex_step sid deps =
     \<lparr>st_id = sid, st_task = ''parse_text'', st_depends_on = Some deps, st_retries = 3,
      st_params = [], st_condition = None\<rparr>"

theorem detect_cycles_accepts_witness:
  "known_deps [ex_step ''a'' [], ex_step ''b'' [''a'', ''a'']]
   \<and> acyclic (dep_rel [ex_step ''a'' [], ex_step ''b'' [''a'', ''a'']])"
proof -
  have "detect_cycles [ex_step ''a'' [], ex_step ''b'' [''a'', ''a'']] = Inr ()" by code_simp
  moreover have "distinct (step_ids [ex_step ''a'' [], ex_step ''b'' [''a'', ''a'']])"
    by (simp add: step_ids_def ex_step_def)
  ultimately show ?thesis using detect_cycles_accepts by blast
qed

text \<open>
  C2: when all dependencies exist, a rejected workflow is reported with exactly the steps
  that some cycle leads to (the ones that could never become ready), in sorted order.
\<close>

theorem detect_cycles_reports_blocked:
  assumes "distinct (step_ids steps)" and "known_deps steps" and "\<not> acyclic (dep_rel steps)"
  shows "\<exists>names. set names = {n \<in> set (step_ids steps). blocked steps n} \<and> sorted names
      \<and> distinct names \<and> names \<noteq> []
      \<and> detect_cycles steps = Inl (WorkflowValidationError (cycle_msg names))"
proof (intro exI conjI)
  let ?bad = "filter (blocked steps) (step_ids steps)"
  have "?bad \<noteq> []" using assms(3) no_blocked_iff_acyclic by blast
  then show "detect_cycles steps = Inl (WorkflowValidationError (cycle_msg (sort ?bad)))"
    and "sort ?bad \<noteq> []"
    by (simp_all add: detect_cycles_known [OF assms(1,2)] Let_def flip: set_empty)
qed (use assms in auto)

theorem detect_cycles_reports_blocked_witness:
  "\<exists>names. detect_cycles [ex_step ''x'' [''y''], ex_step ''y'' [''x''], ex_step ''z'' []]
      = Inl (WorkflowValidationError (cycle_msg names)) \<and> sorted names"
proof -
  let ?w = "[ex_step ''x'' [''y''], ex_step ''y'' [''x''], ex_step ''z'' []]"
  have d: "distinct (step_ids ?w)" by (simp add: step_ids_def ex_step_def)
  have k: "known_deps ?w"
    by (simp add: known_deps_def step_ids_def ex_step_def step_deps_def depends_on_def)
  have "(''x'', ''y'') \<in> dep_rel ?w" "(''y'', ''x'') \<in> dep_rel ?w"
    unfolding dep_rel_iff [OF d] by code_simp+
  then have "(''x'', ''x'') \<in> (dep_rel ?w)\<^sup>+" by (meson trancl.simps)
  then have "\<not> acyclic (dep_rel ?w)" by (auto simp: acyclic_def)
  from detect_cycles_reports_blocked [OF d k this] show ?thesis by blast
qed

text \<open>
  C3: a definition that loads has distinct step ids, non-negative retries, known
  dependencies and an acyclic dependency relation.
\<close>

theorem load_workflow_yaml_wf:
  assumes "load_workflow_yaml L y = Inr c"
  shows "wf_workflow c"
  using assms by (rule load_wf)

definition ex_doc :: pyval where
  "ex_doc = PyDict
     [(PyStr ''name'', PyStr ''leads''),
      (PyStr ''steps'', PyList
        [PyDict [(PyStr ''id'', PyStr ''a''), (PyStr ''task'', PyStr ''parse_text'')],
         PyDict [(PyStr ''id'', PyStr ''b''), (PyStr ''task'', PyStr ''classify_with_llm''),
                 (PyStr ''depends_on'', PyList [PyStr ''a'']), (PyStr ''retries'', PyInt 1)]])]"

definition ex_libs :: libs where
  "ex_libs = table_libs [(''leads.yaml'', ex_doc)]"

definition ex_config :: workflow_config where
  "ex_config =
     \<lparr>wf_name = ''leads'',
      wf_steps =
        [\<lparr>st_id = ''a'', st_task = ''parse_text'', st_depends_on = Some [], st_retries = 3,
          st_params = [], st_condition = None\<rparr>,
         \<lparr>st_id = ''b'', st_task = ''classify_with_llm'', st_depends_on = Some [''a''], st_retries = 1,
          st_params = [], st_condition = None\<rparr>],
      wf_schedule = None, wf_typed_io = False\<rparr>"

lemma ex_config_loads: "load_workflow_yaml ex_libs ''leads.yaml'' = Inr ex_config"
  by code_simp

theorem load_workflow_yaml_wf_witness: "wf_workflow ex_config"
  by (rule load_workflow_yaml_wf [OF ex_config_loads])

text \<open>
  A condition holds exactly when its source step has a result whose \<open>str\<close> equals
  \<open>equals\<close>, differs from \<open>not_equals\<close> and has \<open>contains\<close> as a substring, for the
  comparisons that are given.
\<close>

theorem evaluate_iff:
  "evaluate c results \<longleftrightarrow>
     (\<exists>v. dget results (sc_step c) = Some v
        \<and> (\<forall>x. sc_equals c = Some x \<longrightarrow> py_str v = x)
        \<and> (\<forall>x. sc_not_equals c = Some x \<longrightarrow> py_str v \<noteq> x)
        \<and> (\<forall>x. sc_contains c = Some x \<longrightarrow> (\<exists>a b. py_str v = a @ x @ b)))"
  by (auto simp: evaluate_def contains_str_iff Let_def split: option.splits)

theorem evaluate_iff_witness:
  "\<exists>a b. py_str (PyDict [(PyStr ''category'', PyStr ''business'')]) = a @ ''business'' @ b"
proof -
  let ?c = "\<lparr>sc_step = ''classify'', sc_equals = None, sc_not_equals = Some ''spam'',
             sc_contains = Some ''business''\<rparr>"
    and ?r = "[(''classify'', PyDict [(PyStr ''category'', PyStr ''business'')])]"
  have "evaluate ?c ?r" by code_simp
  then show ?thesis using evaluate_iff [of ?c ?r] by simp
qed

end
