(* ===== verification/Trace.thy ===== *)
theory Trace
  imports Prelude PyValue
begin

text \<open>
  \<open>trace.py\<close> and \<open>trace_store.py\<close>: the ordered, clock-free event sink of a run, the
  payload an event is stored and returned as, and the in-memory event store. The lemmas
  show that a trace numbers its events \<open>1, 2, \<dots>\<close> without gaps.
\<close>

section \<open>Events and the trace context\<close>

record execution_event =
  ev_sequence :: nat
  ev_kind :: string
  ev_trigger_id :: "string option"
  ev_run_id :: "string option"
  ev_step_id :: "string option"
  ev_attempt :: "nat option"
  ev_details :: "(string, pyval) dict"

record trace_context =
  tc_trigger_id :: "string option"
  tc_run_id :: "string option"
  tc_events :: "execution_event list"

definition new_trace :: "string option \<Rightarrow> string option \<Rightarrow> trace_context" where
  "new_trace trigger run = \<lparr>tc_trigger_id = trigger, tc_run_id = run, tc_events = []\<rparr>"

definition emit :: "string \<Rightarrow> string option \<Rightarrow> nat option \<Rightarrow> (string, pyval) dict
    \<Rightarrow> trace_context \<Rightarrow> trace_context" where
  "emit kind step_id attempt details t =
     (let event = \<lparr>ev_sequence = length (tc_events t) + 1, ev_kind = kind,
                   ev_trigger_id = tc_trigger_id t, ev_run_id = tc_run_id t,
                   ev_step_id = step_id, ev_attempt = attempt, ev_details = details\<rparr>
      in t\<lparr>tc_events := tc_events t @ [event]\<rparr>)"

definition numbered :: "trace_context \<Rightarrow> bool" where
  "numbered t \<longleftrightarrow> map ev_sequence (tc_events t) = [1..<Suc (length (tc_events t))]"

lemma numbered_new [simp]: "numbered (new_trace trigger run)"
  by (simp add: numbered_def new_trace_def)

lemma numbered_emit [simp]: "numbered t \<Longrightarrow> numbered (emit k s a d t)"
  by (simp add: numbered_def emit_def)

section \<open>Payloads and the in-memory event store\<close>

text \<open>A store receives events as objects or as plain mappings.\<close>

datatype raw_event = EventObject execution_event | EventDict "(string, pyval) dict"

fun py_opt_str :: "string option \<Rightarrow> pyval" where
  "py_opt_str None = PyNone"
| "py_opt_str (Some s) = PyStr s"

fun py_opt_nat :: "nat option \<Rightarrow> pyval" where
  "py_opt_nat None = PyNone"
| "py_opt_nat (Some n) = PyInt (int n)"

definition py_str_dict :: "(string, pyval) dict \<Rightarrow> pyval" where
  "py_str_dict d = PyDict (map (\<lambda>(k, v). (PyStr k, v)) d)"

fun event_payload :: "raw_event \<Rightarrow> (string, pyval) dict" where
  "event_payload (EventDict d) = d"
| "event_payload (EventObject e) =
     [(''sequence'', PyInt (int (ev_sequence e))),
      (''kind'', PyStr (ev_kind e)),
      (''trigger_id'', py_opt_str (ev_trigger_id e)),
      (''run_id'', py_opt_str (ev_run_id e)),
      (''step_id'', py_opt_str (ev_step_id e)),
      (''attempt'', py_opt_nat (ev_attempt e)),
      (''details'', py_str_dict (ev_details e))]"

type_synonym event_store = "(string, (string, pyval) dict list) dict"

definition events_save :: "string \<Rightarrow> raw_event list \<Rightarrow> event_store \<Rightarrow> event_store" where
  "events_save run_id events records = dset run_id (map event_payload events) records"

definition events_list :: "string \<Rightarrow> event_store \<Rightarrow> (string, pyval) dict list" where
  "events_list run_id records = get_default [] records run_id"

lemma events_list_save [simp]:
  "events_list r (events_save r' es store) =
     (if r = r' then map event_payload es else events_list r store)"
  by (simp add: events_list_def events_save_def)

end
