(* ===== verification/Contracts.thy ===== *)
theory Contracts
  imports Prelude PyValue
begin

text \<open>
  \<open>contracts.py\<close>: typed task input and results, the \<open>TaskRunner\<close> that adapts typed task
  objects and keyword-callable tasks, and the idempotency store. The interface
  \<open>idempotency\<close> states what a claim store promises; its lemmas (a key is granted at
  most once, whatever is claimed in between) hold for every provider and are interpreted
  here on the in-memory store.
\<close>

section \<open>Task results\<close>

definition task_ok :: "pyval \<Rightarrow> (string, pyval) dict \<Rightarrow> pyval" where
  "task_ok output metadata = PyTaskResult output None metadata"

definition task_failed :: "string \<Rightarrow> (string, pyval) dict \<Rightarrow> pyval" where
  "task_failed error metadata = PyTaskResult PyNone (Some error) metadata"

fun is_task_result :: "pyval \<Rightarrow> bool" where
  "is_task_result (PyTaskResult _ _ _) = True"
| "is_task_result _ = False"

text \<open>
  \<open>unwrap\<close>: the error is raised as \<open>RuntimeError(self.error)\<close>, whose \<open>str\<close> is the
  error. It is called on what \<open>TaskRunner.run\<close> returns, which is a \<open>TaskResult\<close>; any
  other value has no such attribute.
\<close>

fun unwrap :: "pyval \<Rightarrow> string + pyval" where
  "unwrap (PyTaskResult output None metadata) = Inr output"
| "unwrap (PyTaskResult output (Some error) metadata) = Inl error"
| "unwrap v = Inl ([CHR 0x27] @ type_name v @ [CHR 0x27] @ '' object has no attribute ''
                   @ [CHR 0x27] @ ''unwrap'' @ [CHR 0x27])"

section \<open>Tasks and the task runner\<close>

text \<open>
  A registered object is called with \<open>context\<close> and \<open>params\<close> (a callable) or has a
  \<open>run\<close> method (a \<open>TypedTask\<close>), or both. A call works on the state \<open>'w\<close> of the world
  outside the engine and returns a value (\<open>Inr\<close>) or raises an \<open>Exception\<close> with a
  message (\<open>Inl\<close>).
\<close>

type_synonym 'w callable =
  "'w \<Rightarrow> (string, pyval) dict \<Rightarrow> (string, pyval) dict \<Rightarrow> 'w \<times> (string + pyval)"

record 'w task_object =
  to_class :: string
  to_call :: "'w callable option"
  to_run :: "'w callable option"

type_synonym 'w registry = "(string, 'w task_object) dict"

definition call_object :: "'w task_object \<Rightarrow> 'w callable" where
  "call_object t w context params =
     (case to_call t of
        Some f \<Rightarrow> f w context params
      | None \<Rightarrow> (w, Inl ([CHR 0x27] @ to_class t @ [CHR 0x27] @ '' object is not callable'')))"

definition not_task_result_msg :: "string \<Rightarrow> pyval \<Rightarrow> string" where
  "not_task_result_msg name v =
     ''Typed task '' @ [CHR 0x27] @ name @ [CHR 0x27] @ '' must return TaskResult, got ''
       @ type_name v"

definition runner_run :: "'w registry \<Rightarrow> string \<Rightarrow> 'w callable" where
  "runner_run registry name w context params =
     (case dget registry name of
        None \<Rightarrow> (w, Inl (repr_str name))
      | Some task \<Rightarrow>
          (case to_run task of
             Some run \<Rightarrow>
               (case run w context params of
                  (w', Inl e) \<Rightarrow> (w', Inl e)
                | (w', Inr result) \<Rightarrow>
                    if is_task_result result then (w', Inr result)
                    else (w', Inl (not_task_result_msg name result)))
           | None \<Rightarrow>
               (case call_object task w context params of
                  (w', Inl e) \<Rightarrow> (w', Inl e)
                | (w', Inr result) \<Rightarrow>
                    (w', Inr (if is_task_result result then result else task_ok result [])))))"

text \<open>Whatever a task returns, the runner's result is a \<open>TaskResult\<close> or an exception.\<close>

lemma runner_run_task_result:
  "runner_run registry name w ctx ps = (w', Inr r) \<Longrightarrow> is_task_result r"
  by (auto simp: runner_run_def task_ok_def split: option.splits prod.splits sum.splits if_splits)

section \<open>Idempotency\<close>

text \<open>
  A claim is granted when the key is empty or absent, or when this namespace and key were
  not claimed before; a granted claim is remembered, and a refused or failing one changes
  nothing. Providers may raise (a database does). \<open>grants\<close> counts how often a sequence of
  claims grants one namespace and key.
\<close>

type_synonym 's claim_op = "string \<Rightarrow> string option \<Rightarrow> 's \<Rightarrow> 's \<times> (exn + bool)"

fun grants :: "'s claim_op \<Rightarrow> string \<Rightarrow> string \<Rightarrow> (string \<times> string option) list \<Rightarrow> 's \<Rightarrow> nat \<times> 's" where
  "grants cl ns k [] s = (0, s)"
| "grants cl ns k ((ns', key) # cs) s =
     (case cl ns' key s of
        (s1, r) \<Rightarrow>
          (case grants cl ns k cs s1 of
             (n, s2) \<Rightarrow> ((if r = Inr True \<and> ns' = ns \<and> key = Some k then 1 else 0) + n, s2)))"

locale idempotency =
  fixes claim :: "'s claim_op"
    and claimed :: "'s \<Rightarrow> (string \<times> string) set"
  assumes claim_no_key: "key = None \<or> key = Some [] \<Longrightarrow> claim ns key s = (s, Inr True)"
    and claim_taken: "(ns, k) \<in> claimed s \<Longrightarrow> k \<noteq> [] \<Longrightarrow> claim ns (Some k) s = (s', r) \<Longrightarrow>
      claimed s' = claimed s \<and> r \<noteq> Inr True"
    and claim_fresh: "(ns, k) \<notin> claimed s \<Longrightarrow> k \<noteq> [] \<Longrightarrow> claim ns (Some k) s = (s', r) \<Longrightarrow>
      (case r of Inr b \<Rightarrow> b \<and> claimed s' = insert (ns, k) (claimed s) | Inl e \<Rightarrow> claimed s' = claimed s)"
begin

lemma claim_granted:
  assumes "k \<noteq> []" and "claim ns (Some k) s = (s', Inr b)"
  shows "b \<longleftrightarrow> (ns, k) \<notin> claimed s" and "claimed s' = insert (ns, k) (claimed s)"
  using claim_taken [OF _ assms] claim_fresh [OF _ assms]
  by (cases "(ns, k) \<in> claimed s"; auto)+

lemma claim_raised:
  assumes "k \<noteq> []" and "claim ns (Some k) s = (s', Inl e)"
  shows "claimed s' = claimed s"
  using claim_taken [OF _ assms] claim_fresh [OF _ assms] by (cases "(ns, k) \<in> claimed s") auto

lemma claim_other:
  assumes "claim ns' key s = (s', r)" and "(ns', key) \<noteq> (ns, Some k)"
  shows "(ns, k) \<in> claimed s' \<longleftrightarrow> (ns, k) \<in> claimed s"
proof (cases "key = None \<or> key = Some []")
  case True
  with assms(1) claim_no_key show ?thesis by simp
next
  case False
  then obtain k' where k': "key = Some k'" "k' \<noteq> []" by auto
  show ?thesis
  proof (cases r)
    case (Inl e)
    with claim_raised [OF k'(2)] assms(1) k' show ?thesis by simp
  next
    case (Inr b)
    with claim_granted(2) [OF k'(2)] assms k' show ?thesis by auto
  qed
qed

text \<open>
  However many claims are made, in whatever namespaces, one namespace and key is granted at
  most once, and only if it was not claimed at the start; it is claimed at the end exactly
  when it was at the start or was granted.
\<close>

lemma claim_once:
  assumes "k \<noteq> []" and "grants claim ns k cs s = (n, s')"
  shows "n = (if (ns, k) \<in> claimed s' \<and> (ns, k) \<notin> claimed s then 1 else 0)
    \<and> ((ns, k) \<in> claimed s \<longrightarrow> (ns, k) \<in> claimed s')"
  using assms(2)
proof (induction cs arbitrary: s n)
  case Nil
  then show ?case by simp
next
  case (Cons c cs)
  obtain ns' key where c: "c = (ns', key)" by force
  obtain s1 r where cl: "claim ns' key s = (s1, r)" by force
  obtain m where g: "grants claim ns k cs s1 = (m, s')"
    and n: "n = (if r = Inr True \<and> c = (ns, Some k) then 1 else 0) + m"
    using Cons.prems c cl by (auto split: prod.splits)
  note ih = Cons.IH [OF g]
  show ?case
  proof (cases "c = (ns, Some k)")
    case True
    with c cl have cl': "claim ns (Some k) s = (s1, r)" by simp
    show ?thesis
    proof (cases r)
      case (Inl e)
      with claim_raised [OF assms(1)] cl' have "claimed s1 = claimed s" by simp
      with ih n Inl show ?thesis by simp
    next
      case (Inr b)
      with claim_granted [OF assms(1)] cl' ih n True show ?thesis by auto
    qed
  next
    case False
    with c cl have "(ns, k) \<in> claimed s1 \<longleftrightarrow> (ns, k) \<in> claimed s"
      using claim_other [of ns' key s s1 r ns k] by simp
    with False ih n show ?thesis by auto
  qed
qed

end

type_synonym claims = "(string \<times> string) list"

definition claim :: "claims claim_op" where
  "claim namespace key claims =
     (case key of
        None \<Rightarrow> (claims, Inr True)
      | Some k \<Rightarrow>
          if k = [] then (claims, Inr True)
          else if (namespace, k) \<in> set claims then (claims, Inr False)
          else (List.insert (namespace, k) claims, Inr True))"

interpretation mem_claims: idempotency claim set
  by unfold_locales (auto simp: claim_def split: if_splits)

text \<open>
  Whatever sequence of claims is made on the in-memory store, a namespace and key is
  granted exactly once if it was claimed during the sequence and not before it, and never
  otherwise.
\<close>

theorem claims_granted_once:
  assumes "k \<noteq> []" and "grants claim ns k cs s = (n, s')"
  shows "n = (if (ns, k) \<in> set s' \<and> (ns, k) \<notin> set s then 1 else 0)"
  using mem_claims.claim_once [OF assms] by simp

theorem claims_granted_once_witness:
  "fst (grants claim ''n'' ''k'' [(''n'', Some ''k''), (''m'', Some ''k''), (''n'', Some ''k''), (''n'', None)] []) = 1"
proof -
  let ?cs = "[(''n'', Some ''k''), (''m'', Some ''k''), (''n'', Some ''k''), (''n'', None)]"
  obtain n s' where g: "grants claim ''n'' ''k'' ?cs [] = (n, s')" by force
  have "(''n'', ''k'') \<in> set (snd (grants claim ''n'' ''k'' ?cs []))" by (simp add: claim_def)
  with claims_granted_once [OF _ g] g show ?thesis by simp
qed

end
