(* ===== verification/Executor.thy ===== *)
theory Executor
  imports Parser Trace Contracts
begin

text \<open>
  \<open>executor.py\<close>: the state of a \<open>WorkflowExecutor\<close> and its operations, each as a
  function from state to state and a result that is an exception (\<open>Inl\<close>) or a value.

  \<^item> Tasks, the \<open>on_step\<close> hook and everything else outside the engine act on a world of
    type \<open>'w\<close>, which the state carries. Tasks do not mutate their arguments.
  \<^item> \<open>sleep_fn\<close> is called with the delays listed in \<open>ex_sleeps\<close>; a delay is rational
    (the code's floats \<open>0.5 * 2**n\<close> are exact), and \<open>2**n\<close> for \<open>n \<ge> 1024\<close> does not
    convert to a float, so that the code raises \<open>OverflowError\<close> there.
  \<^item> The attempts of one step are a small-step machine (\<open>worker_step\<close>). The sequential
    mode runs it to the end; the parallel mode interleaves the machines of a layer, in an
    order given by a list of choices (submit the next step, let a worker pick up the next
    job, let the \<open>i\<close>-th busy worker make its next attempt). Choices that are not
    possible are ignored and what is left at the end of the list runs in a default order,
    so that every list is a schedule and every interleaving is given by some list.
\<close>

section \<open>State\<close>

datatype step_status = PENDING | RUNNING | COMPLETED | FAILED | SKIPPED

fun status_str :: "step_status \<Rightarrow> string" where
  "status_str PENDING = ''PENDING''"
| "status_str RUNNING = ''RUNNING''"
| "status_str COMPLETED = ''COMPLETED''"
| "status_str FAILED = ''FAILED''"
| "status_str SKIPPED = ''SKIPPED''"

record dead_letter =
  dl_step_id :: string
  dl_task :: string
  dl_error :: string
  dl_attempts :: nat
  dl_params :: "(string, pyval) dict"

record 'w exec =
  ex_statuses :: "(string, step_status) dict"
  ex_results :: "(string, pyval) dict"
  ex_retry_counts :: "(string, nat) dict"
  ex_attempt_counts :: "(string, nat) dict"
  ex_errors :: "(string, string) dict"
  ex_dead_letters :: "dead_letter list"
  ex_trace :: "trace_context option"
  ex_sleeps :: "rat list"
  ex_world :: 'w

type_synonym 'w step_hook =
  "'w \<Rightarrow> step_config \<Rightarrow> step_status \<Rightarrow> pyval \<Rightarrow> string option \<Rightarrow> nat \<Rightarrow> 'w"

record 'w engine =
  en_config :: workflow_config
  en_registry :: "'w registry"
  en_on_step :: "'w step_hook option"
  en_max_backoff :: rat
  en_concurrency :: "int option"
  en_typed_io :: bool

definition init_exec :: "workflow_config \<Rightarrow> trace_context option \<Rightarrow> 'w \<Rightarrow> 'w exec" where
  "init_exec config trace w =
     \<lparr>ex_statuses = dict_of (map (\<lambda>s. (st_id s, PENDING)) (wf_steps config)),
      ex_results = [],
      ex_retry_counts = dict_of (map (\<lambda>s. (st_id s, 0)) (wf_steps config)),
      ex_attempt_counts = dict_of (map (\<lambda>s. (st_id s, 0)) (wf_steps config)),
      ex_errors = [], ex_dead_letters = [], ex_trace = trace, ex_sleeps = [], ex_world = w\<rparr>"

text \<open>The keys of the status and count dictionaries are set by \<open>init_exec\<close>.\<close>

definition status_of :: "'w exec \<Rightarrow> string \<Rightarrow> step_status" where
  "status_of st sid = get_default PENDING (ex_statuses st) sid"

definition retry_count :: "'w exec \<Rightarrow> string \<Rightarrow> nat" where
  "retry_count st sid = get_default 0 (ex_retry_counts st) sid"

definition attempt_count :: "'w exec \<Rightarrow> string \<Rightarrow> nat" where
  "attempt_count st sid = get_default 0 (ex_attempt_counts st) sid"

definition set_status :: "string \<Rightarrow> step_status \<Rightarrow> 'w exec \<Rightarrow> 'w exec" where
  "set_status sid x st = st\<lparr>ex_statuses := dset sid x (ex_statuses st)\<rparr>"

definition trace_event :: "string \<Rightarrow> step_config option \<Rightarrow> nat option \<Rightarrow> (string, pyval) dict
    \<Rightarrow> 'w exec \<Rightarrow> 'w exec" where
  "trace_event kind step attempt details st =
     st\<lparr>ex_trace := map_option (emit kind (map_option st_id step) attempt details) (ex_trace st)\<rparr>"

text \<open>The hook's exceptions are swallowed; what it does to the world stays.\<close>

definition emit_hook :: "'w engine \<Rightarrow> step_config \<Rightarrow> 'w exec \<Rightarrow> 'w exec" where
  "emit_hook en step st =
     (case en_on_step en of
        None \<Rightarrow> st
      | Some hook \<Rightarrow>
          st\<lparr>ex_world := hook (ex_world st) step (status_of st (st_id step))
               (get_default PyNone (ex_results st) (st_id step))
               (dget (ex_errors st) (st_id step)) (retry_count st (st_id step))\<rparr>)"

section \<open>One step: attempts and retries\<close>

definition run_task :: "'w engine \<Rightarrow> 'w task_object \<Rightarrow> step_config \<Rightarrow> (string, pyval) dict
    \<Rightarrow> 'w \<Rightarrow> 'w \<times> (string + pyval)" where
  "run_task en task_fn step context w =
     (if en_typed_io en
      then (case runner_run (en_registry en) (st_task step) w context (st_params step) of
              (w', Inl e) \<Rightarrow> (w', Inl e)
            | (w', Inr result) \<Rightarrow> (w', unwrap result))
      else call_object task_fn w context (st_params step))"

definition backoff :: "'w engine \<Rightarrow> nat \<Rightarrow> exn + rat" where
  "backoff en attempt =
     (if 1024 \<le> attempt then Inl (OverflowError ''int too large to convert to float'')
      else Inr (min (1 / 2 * 2 ^ attempt) (en_max_backoff en)))"

definition fail_step :: "step_config \<Rightarrow> string \<Rightarrow> 'w exec \<Rightarrow> 'w exec" where
  "fail_step step last_error st =
     (let st1 = set_status (st_id step) FAILED st;
          st2 = st1\<lparr>ex_errors := dset (st_id step) last_error (ex_errors st1)\<rparr>
      in st2\<lparr>ex_dead_letters := ex_dead_letters st2 @
           [\<lparr>dl_step_id = st_id step, dl_task = st_task step, dl_error = last_error,
             dl_attempts = retry_count st2 (st_id step), dl_params = st_params step\<rparr>]\<rparr>)"

datatype progress = Continue nat string | Finish "exn + bool"

text \<open>
  One iteration of the loop in \<open>_run_with_retry\<close>, at the given attempt and with the last
  error; past the last attempt, the code after the loop.
\<close>

definition worker_step :: "'w engine \<Rightarrow> 'w task_object \<Rightarrow> step_config \<Rightarrow> (string, pyval) dict
    \<Rightarrow> bool \<Rightarrow> nat \<Rightarrow> string \<Rightarrow> 'w exec \<Rightarrow> 'w exec \<times> progress" where
  "worker_step en task_fn step context emit_trace attempt last_error st =
     (if st_retries step + 1 \<le> int attempt
      then (fail_step step last_error st, Finish (Inr False))
      else
        (let st1 = st\<lparr>ex_attempt_counts := dset (st_id step) (attempt + 1) (ex_attempt_counts st)\<rparr>;
             (w', outcome) = run_task en task_fn step context (ex_world st1);
             st2 = st1\<lparr>ex_world := w'\<rparr>
         in case outcome of
              Inr res \<Rightarrow>
                (set_status (st_id step) COMPLETED
                   (st2\<lparr>ex_results := dset (st_id step) res (ex_results st2)\<rparr>),
                 Finish (Inr True))
            | Inl msg \<Rightarrow>
                (let st3 = st2\<lparr>ex_retry_counts := dset (st_id step) (attempt + 1) (ex_retry_counts st2)\<rparr>
                 in if int attempt < st_retries step
                    then (let st4 = (if emit_trace
                                     then trace_event ''step.retry'' (Some step) (Some (attempt + 1)) [] st3
                                     else st3)
                          in case backoff en attempt of
                               Inl e \<Rightarrow> (st4, Finish (Inl e))
                             | Inr delay \<Rightarrow>
                                 (st4\<lparr>ex_sleeps := ex_sleeps st4 @ [delay]\<rparr>, Continue (attempt + 1) msg))
                    else (st3, Continue (attempt + 1) msg))))"

lemma worker_step_Continue:
  "worker_step en t s ctx tr k err st = (st', Continue k' err') \<Longrightarrow>
     k' = Suc k \<and> int k < st_retries s + 1"
  by (auto simp: worker_step_def Let_def split: if_splits sum.splits prod.splits)

function retry_loop :: "'w engine \<Rightarrow> 'w task_object \<Rightarrow> step_config \<Rightarrow> (string, pyval) dict
    \<Rightarrow> bool \<Rightarrow> nat \<Rightarrow> string \<Rightarrow> 'w exec \<Rightarrow> 'w exec \<times> (exn + bool)" where
  "retry_loop en t s ctx tr k err st =
     (case worker_step en t s ctx tr k err st of
        (st', Finish r) \<Rightarrow> (st', r)
      | (st', Continue k' err') \<Rightarrow> retry_loop en t s ctx tr k' err' st')"
  by pat_completeness auto
termination
  by (relation "measure (\<lambda>(en, t, s, ctx, tr, k, err, st). nat (st_retries s + 1) - k)")
     (auto dest!: worker_step_Continue [OF sym])

declare retry_loop.simps [simp del]

definition run_with_retry :: "'w engine \<Rightarrow> 'w task_object \<Rightarrow> step_config \<Rightarrow> (string, pyval) dict
    \<Rightarrow> bool \<Rightarrow> 'w exec \<Rightarrow> 'w exec \<times> (exn + bool)" where
  "run_with_retry en t s ctx tr st = retry_loop en t s ctx tr 0 [] st"

definition or_none :: "nat \<Rightarrow> nat option" where
  "or_none n = (if n = 0 then None else Some n)"

definition finish_events :: "step_config \<Rightarrow> bool \<Rightarrow> 'w exec \<Rightarrow> 'w exec" where
  "finish_events step succeeded st =
     (let st1 = trace_event (if succeeded then ''step.completed'' else ''step.failed'') (Some step)
                  (or_none (attempt_count st (st_id step))) [] st
      in if succeeded then st1
         else trace_event ''dlq.recorded'' (Some step) (Some (attempt_count st1 (st_id step))) [] st1)"

definition run_step :: "'w engine \<Rightarrow> step_config \<Rightarrow> 'w exec \<Rightarrow> 'w exec \<times> exn option" where
  "run_step en step st =
     (let st1 = trace_event ''step.started'' (Some step) None [] (set_status (st_id step) RUNNING st)
      in case dget (en_registry en) (st_task step) of
           None \<Rightarrow> (st1, Some (KeyError (st_task step)))
         | Some task_fn \<Rightarrow>
             (case run_with_retry en task_fn step (ex_results st1) True st1 of
                (st2, Inl e) \<Rightarrow> (st2, Some e)
              | (st2, Inr succeeded) \<Rightarrow>
                  (emit_hook en step (finish_events step succeeded st2), None)))"

section \<open>Sequential passes\<close>

definition is_ready :: "string list \<Rightarrow> step_config \<Rightarrow> bool" where
  "is_ready resolved step =
     (list_all (\<lambda>d. d \<in> set resolved) (depends_on step)
      \<and> (case st_condition step of None \<Rightarrow> True | Some c \<Rightarrow> sc_step c \<in> set resolved))"

definition condition_fails :: "step_config \<Rightarrow> 'w exec \<Rightarrow> bool" where
  "condition_fails step st =
     (case st_condition step of None \<Rightarrow> False | Some c \<Rightarrow> \<not> evaluate c (ex_results st))"

definition skip_step :: "'w engine \<Rightarrow> step_config \<Rightarrow> 'w exec \<Rightarrow> 'w exec" where
  "skip_step en step st =
     emit_hook en step (trace_event ''step.skipped'' (Some step) None []
       (set_status (st_id step) SKIPPED st))"

text \<open>
  The local variables of a pass: the resolved ids, whether something was executed or
  skipped, and (for a parallel layer) the steps to run.
\<close>

record 'w pass =
  ps_resolved :: "string list"
  ps_progress :: bool
  ps_runnable :: "step_config list"
  ps_exec :: "'w exec"

definition resolve_skipped :: "'w engine \<Rightarrow> step_config \<Rightarrow> 'w pass \<Rightarrow> 'w pass" where
  "resolve_skipped en step ps =
     ps\<lparr>ps_resolved := List.insert (st_id step) (ps_resolved ps), ps_progress := True,
        ps_exec := skip_step en step (ps_exec ps)\<rparr>"

definition legacy_body :: "'w engine \<Rightarrow> step_config \<Rightarrow> 'w pass \<Rightarrow> 'w pass \<times> exn option" where
  "legacy_body en step ps =
     (if status_of (ps_exec ps) (st_id step) \<noteq> PENDING then (ps, None)
      else if \<not> is_ready (ps_resolved ps) step then (ps, None)
      else if condition_fails step (ps_exec ps) then (resolve_skipped en step ps, None)
      else case run_step en step (ps_exec ps) of
             (st', Some e) \<Rightarrow> (ps\<lparr>ps_exec := st'\<rparr>, Some e)
           | (st', None) \<Rightarrow>
               (ps\<lparr>ps_resolved := List.insert (st_id step) (ps_resolved ps), ps_progress := True,
                   ps_exec := st'\<rparr>, None))"

fun run_legacy_yaml_order :: "'w engine \<Rightarrow> step_config list \<Rightarrow> 'w pass \<Rightarrow> 'w pass \<times> exn option" where
  "run_legacy_yaml_order en [] ps = (ps, None)"
| "run_legacy_yaml_order en (step # steps) ps =
     (case legacy_body en step ps of
        (ps', Some e) \<Rightarrow> (ps', Some e)
      | (ps', None) \<Rightarrow> run_legacy_yaml_order en steps ps')"

section \<open>Parallel layers\<close>

definition collect_body :: "'w engine \<Rightarrow> step_config \<Rightarrow> 'w pass \<Rightarrow> 'w pass" where
  "collect_body en step ps =
     (if status_of (ps_exec ps) (st_id step) \<noteq> PENDING then ps
      else if \<not> is_ready (ps_resolved ps) step then ps
      else if condition_fails step (ps_exec ps) then resolve_skipped en step ps
      else ps\<lparr>ps_runnable := ps_runnable ps @ [step]\<rparr>)"

fun collect_runnable :: "'w engine \<Rightarrow> step_config list \<Rightarrow> 'w pass \<Rightarrow> 'w pass" where
  "collect_runnable en [] ps = ps"
| "collect_runnable en (step # steps) ps = collect_runnable en steps (collect_body en step ps)"

record 'w job =
  jb_step :: step_config
  jb_task :: "'w task_object"
  jb_context :: "(string, pyval) dict"
  jb_attempt :: nat
  jb_error :: string

record 'w pool =
  po_todo :: "step_config list"
  po_queue :: "'w job list"
  po_running :: "'w job list"
  po_done :: "(string, exn + bool) dict"
  po_fault :: "exn option"
  po_exec :: "'w exec"

datatype choice = Submit | Start | Attempt nat

definition remove_at :: "nat \<Rightarrow> 'a list \<Rightarrow> 'a list" where
  "remove_at i xs = take i xs @ drop (Suc i) xs"

definition pool_submit :: "'w engine \<Rightarrow> 'w pool \<Rightarrow> 'w pool option" where
  "pool_submit en p =
     (case po_todo p of
        [] \<Rightarrow> None
      | step # steps \<Rightarrow>
          (case dget (en_registry en) (st_task step) of
             None \<Rightarrow> Some (p\<lparr>po_todo := [], po_fault := Some (KeyError (st_task step))\<rparr>)
           | Some t \<Rightarrow>
               Some (p\<lparr>po_todo := steps,
                       po_queue := po_queue p @
                         [\<lparr>jb_step = step, jb_task = t, jb_context = ex_results (po_exec p),
                           jb_attempt = 0, jb_error = []\<rparr>]\<rparr>)))"

definition pool_start :: "nat \<Rightarrow> 'w pool \<Rightarrow> 'w pool option" where
  "pool_start limit p =
     (case po_queue p of
        [] \<Rightarrow> None
      | job # jobs \<Rightarrow>
          if length (po_running p) < limit
          then Some (p\<lparr>po_queue := jobs, po_running := po_running p @ [job]\<rparr>)
          else None)"

definition pool_attempt :: "'w engine \<Rightarrow> nat \<Rightarrow> 'w pool \<Rightarrow> 'w pool option" where
  "pool_attempt en i p =
     (if i < length (po_running p)
      then (let job = po_running p ! i
            in case worker_step en (jb_task job) (jb_step job) (jb_context job) False
                      (jb_attempt job) (jb_error job) (po_exec p) of
                 (st', Finish r) \<Rightarrow>
                   Some (p\<lparr>po_running := remove_at i (po_running p),
                           po_done := dset (st_id (jb_step job)) r (po_done p), po_exec := st'\<rparr>)
               | (st', Continue k err) \<Rightarrow>
                   Some (p\<lparr>po_running := (po_running p)[i := job\<lparr>jb_attempt := k, jb_error := err\<rparr>],
                           po_exec := st'\<rparr>))
      else None)"

fun pool_step :: "'w engine \<Rightarrow> nat \<Rightarrow> choice \<Rightarrow> 'w pool \<Rightarrow> 'w pool option" where
  "pool_step en limit Submit p = pool_submit en p"
| "pool_step en limit Start p = pool_start limit p"
| "pool_step en limit (Attempt i) p = pool_attempt en i p"

text \<open>Every step of the pool does a bounded amount of what is left to do.\<close>

definition step_work :: "step_config \<Rightarrow> nat" where
  "step_work s = nat (st_retries s + 1)"

definition pool_work :: "'w pool \<Rightarrow> nat" where
  "pool_work p =
     sum_list (map (\<lambda>s. step_work s + 3) (po_todo p))
     + sum_list (map (\<lambda>j. step_work (jb_step j) - jb_attempt j + 2) (po_queue p))
     + sum_list (map (\<lambda>j. step_work (jb_step j) - jb_attempt j + 1) (po_running p))"

lemma sum_list_remove_at:
  assumes "i < length xs"
  shows "sum_list (map f (remove_at i xs)) + f (xs ! i) = (sum_list (map f xs) :: nat)"
proof -
  have "sum_list (map f xs) = sum_list (map f (take i xs @ xs ! i # drop (Suc i) xs))"
    using assms by (simp only: id_take_nth_drop [symmetric])
  then show ?thesis by (simp add: remove_at_def)
qed

lemma sum_list_update_eq:
  "i < length xs \<Longrightarrow> sum_list (map f (xs[i := y])) + f (xs ! i) = (sum_list (map f xs) :: nat) + f y"
  by (induction xs arbitrary: i) (auto split: nat.splits)

lemma pool_step_work: "pool_step en limit c p = Some p' \<Longrightarrow> pool_work p' < pool_work p"
proof (cases c)
  case Submit
  assume "pool_step en limit c p = Some p'"
  with Submit show ?thesis
    by (auto simp: pool_submit_def pool_work_def split: list.splits option.splits)
next
  case Start
  assume "pool_step en limit c p = Some p'"
  with Start show ?thesis
    by (auto simp: pool_start_def pool_work_def split: list.splits if_splits)
next
  case (Attempt i)
  assume "pool_step en limit c p = Some p'"
  with Attempt have i: "i < length (po_running p)" and st: "pool_attempt en i p = Some p'"
    by (auto simp: pool_attempt_def split: if_splits)
  let ?j = "po_running p ! i" and ?f = "\<lambda>j. step_work (jb_step j) - jb_attempt j + 1"
  show ?thesis
  proof (cases "worker_step en (jb_task ?j) (jb_step ?j) (jb_context ?j) False
                      (jb_attempt ?j) (jb_error ?j) (po_exec p)")
    case (Pair st' r)
    show ?thesis
    proof (cases r)
      case (Finish x)
      with Pair i st sum_list_remove_at [OF i, of ?f] show ?thesis
        by (auto simp: pool_attempt_def pool_work_def Let_def)
    next
      case (Continue k err)
      from worker_step_Continue [OF Pair [unfolded Continue]]
      have "k = Suc (jb_attempt ?j)" "jb_attempt ?j < step_work (jb_step ?j)"
        by (auto simp: step_work_def)
      with Pair Continue i st
        sum_list_update_eq [OF i, of ?f "?j\<lparr>jb_attempt := k, jb_error := err\<rparr>"] show ?thesis
        by (auto simp: pool_attempt_def pool_work_def Let_def)
    qed
  qed
qed

fun run_choices :: "'w engine \<Rightarrow> nat \<Rightarrow> choice list \<Rightarrow> 'w pool \<Rightarrow> 'w pool" where
  "run_choices en limit [] p = p"
| "run_choices en limit (c # cs) p =
     run_choices en limit cs (case pool_step en limit c p of None \<Rightarrow> p | Some p' \<Rightarrow> p')"

definition default_choice :: "nat \<Rightarrow> 'w pool \<Rightarrow> choice" where
  "default_choice limit p =
     (if po_todo p \<noteq> [] then Submit
      else if po_queue p \<noteq> [] \<and> length (po_running p) < limit then Start
      else Attempt 0)"

function drain :: "'w engine \<Rightarrow> nat \<Rightarrow> 'w pool \<Rightarrow> 'w pool" where
  "drain en limit p =
     (case pool_step en limit (default_choice limit p) p of
        None \<Rightarrow> p
      | Some p' \<Rightarrow> drain en limit p')"
  by pat_completeness auto
termination
  by (relation "measure (\<lambda>(en, limit, p). pool_work p)") (auto intro: pool_step_work)

declare drain.simps [simp del]

definition start_pool :: "step_config list \<Rightarrow> 'w exec \<Rightarrow> 'w pool" where
  "start_pool steps st =
     \<lparr>po_todo = steps, po_queue = [], po_running = [], po_done = [], po_fault = None, po_exec = st\<rparr>"

fun mark_running :: "step_config list \<Rightarrow> 'w exec \<Rightarrow> 'w exec" where
  "mark_running [] st = st"
| "mark_running (step # steps) st =
     mark_running steps
       (trace_event ''step.started'' (Some step) None [] (set_status (st_id step) RUNNING st))"

text \<open>\<open>futures[step.id].result()\<close> in order: the first exception is raised.\<close>

fun first_exception :: "step_config list \<Rightarrow> (string, exn + bool) dict \<Rightarrow> exn option" where
  "first_exception [] outcomes = None"
| "first_exception (s # ss) outcomes =
     (case dget outcomes (st_id s) of
        Some (Inl e) \<Rightarrow> Some e
      | _ \<Rightarrow> first_exception ss outcomes)"

fun retry_events :: "step_config \<Rightarrow> nat list \<Rightarrow> 'w exec \<Rightarrow> 'w exec" where
  "retry_events step [] st = st"
| "retry_events step (a # as) st =
     retry_events step as (trace_event ''step.retry'' (Some step) (Some a) [] st)"

fun publish :: "'w engine \<Rightarrow> (string, exn + bool) dict \<Rightarrow> step_config list \<Rightarrow> 'w exec \<Rightarrow> 'w exec" where
  "publish en outcomes [] st = st"
| "publish en outcomes (step # steps) st =
     (let n = nat (min (int (retry_count st (st_id step))) (st_retries step));
          st1 = retry_events step [1..<Suc n] st;
          succeeded = (dget outcomes (st_id step) = Some (Inr True))
      in publish en outcomes steps (emit_hook en step (finish_events step succeeded st1)))"

definition parallel_limit :: "'w engine \<Rightarrow> nat \<Rightarrow> nat" where
  "parallel_limit en n =
     (let c = (case en_concurrency en of None \<Rightarrow> 1 | Some c \<Rightarrow> if c = 0 then 1 else c)
      in nat (min c (int n)))"

definition run_pool :: "'w engine \<Rightarrow> choice list \<Rightarrow> step_config list \<Rightarrow> 'w exec \<Rightarrow> 'w pool" where
  "run_pool en choices steps st =
     (let limit = parallel_limit en (length steps)
      in drain en limit (run_choices en limit choices (start_pool steps (mark_running steps st))))"

definition run_parallel :: "'w engine \<Rightarrow> choice list \<Rightarrow> step_config list \<Rightarrow> 'w exec
    \<Rightarrow> 'w exec \<times> exn option" where
  "run_parallel en choices steps st =
     (let p = run_pool en choices steps st
      in case po_fault p of
           Some e \<Rightarrow> (po_exec p, Some e)
         | None \<Rightarrow>
             (case first_exception steps (po_done p) of
                Some e \<Rightarrow> (po_exec p, Some e)
              | None \<Rightarrow> (publish en (po_done p) steps (po_exec p), None)))"

section \<open>The execution loop\<close>

text \<open>
  The loop ends because a round that makes progress moves a step out of \<open>PENDING\<close> and no
  operation moves one back.
\<close>

definition pending :: "'w engine \<Rightarrow> 'w exec \<Rightarrow> nat" where
  "pending en st = length (filter (\<lambda>s. status_of st (st_id s) = PENDING) (wf_steps (en_config en)))"

named_theorems status_simps \<open>the status a state operation leaves for a step\<close>

lemma status_of_simps [simp, status_simps]:
  "status_of (set_status sid x st) sid' = (if sid = sid' then x else status_of st sid')"
  "status_of (trace_event k so a d st) sid' = status_of st sid'"
  "status_of (emit_hook en s st) sid' = status_of st sid'"
  "status_of (finish_events s b st) sid' = status_of st sid'"
  by (simp_all add: status_of_def set_status_def trace_event_def emit_hook_def finish_events_def
        Let_def split: option.splits)

lemma status_of_retry_events [simp, status_simps]:
  "status_of (retry_events s as st) sid = status_of st sid"
  by (induction s as st rule: retry_events.induct) simp_all

lemma status_of_skip_step [simp, status_simps]:
  "status_of (skip_step en s st) sid = (if st_id s = sid then SKIPPED else status_of st sid)"
  by (simp add: skip_step_def)

lemma status_of_publish [simp, status_simps]:
  "status_of (publish en out ss st) sid = status_of st sid"
  by (induction ss arbitrary: st) (simp_all add: Let_def)

text \<open>A worker writes the status of its own step only, and writes a final one when it ends.\<close>

lemma worker_step_status:
  assumes "worker_step en t s ctx tr k err st = (st', r)"
  shows "sid \<noteq> st_id s \<Longrightarrow> status_of st' sid = status_of st sid"
    and "status_of st' (st_id s) =
      (case r of Continue _ _ \<Rightarrow> status_of st (st_id s)
       | Finish (Inr b) \<Rightarrow> if b then COMPLETED else FAILED
       | Finish (Inl e) \<Rightarrow> status_of st (st_id s))"
  using assms
  by (auto simp: worker_step_def Let_def fail_step_def status_of_def set_status_def trace_event_def
        split: if_splits sum.splits prod.splits)

lemma retry_loop_status:
  assumes "retry_loop en t s ctx tr k err st = (st', r)"
  shows "sid \<noteq> st_id s \<Longrightarrow> status_of st' sid = status_of st sid"
    and "r = Inr b \<Longrightarrow> status_of st' (st_id s) = (if b then COMPLETED else FAILED)"
  using assms
proof (induction en t s ctx tr k err st rule: retry_loop.induct)
  case (1 en t s ctx tr k err st)
  obtain st1 p where w: "worker_step en t s ctx tr k err st = (st1, p)" by force
  note ws = worker_step_status [OF w]
  { case 1
    then show ?case
      using "1.IH"(1) [OF w [symmetric]] w ws
      by (cases p) (simp_all add: retry_loop.simps [of en t s ctx tr k err st])
  next
    case 2
    then show ?case
      using "1.IH"(2) [OF w [symmetric]] w ws
      by (cases p) (auto simp add: retry_loop.simps [of en t s ctx tr k err st])
  }
qed

lemma run_step_status:
  assumes "run_step en s st = (st', r)"
  shows "sid \<noteq> st_id s \<Longrightarrow> status_of st' sid = status_of st sid"
    and "status_of st' (st_id s) \<noteq> PENDING \<or> r \<noteq> None"
proof -
  let ?st1 = "trace_event ''step.started'' (Some s) None [] (set_status (st_id s) RUNNING st)"
  show "sid \<noteq> st_id s \<Longrightarrow> status_of st' sid = status_of st sid"
    using assms retry_loop_status(1) [of en _ s _ True 0 "[]" ?st1]
    by (auto simp: run_step_def run_with_retry_def Let_def split: option.splits prod.splits sum.splits)
  show "status_of st' (st_id s) \<noteq> PENDING \<or> r \<noteq> None"
    using assms
    by (auto simp: run_step_def run_with_retry_def Let_def
          split: option.splits prod.splits sum.splits if_splits
          dest!: retry_loop_status(2) [OF _ refl])
qed

lemma legacy_induct:
  assumes "P ps" and "\<And>s ps. s \<in> set ss \<Longrightarrow> P ps \<Longrightarrow> P (fst (legacy_body en s ps))"
  shows "P (fst (run_legacy_yaml_order en ss ps))"
  using assms
proof (induction ss arbitrary: ps)
  case Nil
  then show ?case by simp
next
  case (Cons s ss)
  obtain ps' r where b: "legacy_body en s ps = (ps', r)" by force
  have "P ps'" using Cons.prems(2) [of s ps] Cons.prems(1) b by simp
  with Cons b show ?case by (cases r) simp_all
qed

lemma collect_induct:
  assumes "P ps" and "\<And>s ps. s \<in> set ss \<Longrightarrow> P ps \<Longrightarrow> P (collect_body en s ps)"
  shows "P (collect_runnable en ss ps)"
  using assms by (induction ss arbitrary: ps) simp_all

lemma run_choices_induct:
  assumes "P p" and "\<And>c p p'. P p \<Longrightarrow> pool_step en limit c p = Some p' \<Longrightarrow> P p'"
  shows "P (run_choices en limit cs p)"
  using assms by (induction cs arbitrary: p) (auto split: option.splits)

lemma drain_induct:
  assumes "P p" and "\<And>c p p'. P p \<Longrightarrow> pool_step en limit c p = Some p' \<Longrightarrow> P p'"
  shows "P (drain en limit p)"
  using assms
proof (induction en limit p rule: drain.induct)
  case (1 en limit p)
  show ?case
  proof (cases "pool_step en limit (default_choice limit p) p")
    case None
    with "1.prems"(1) show ?thesis by (simp add: drain.simps [of en limit p])
  next
    case (Some p')
    have "P p'" by (rule "1.prems"(2) [OF "1.prems"(1) Some])
    with Some "1.IH" [OF Some] "1.prems"(2) show ?thesis by (simp add: drain.simps [of en limit p])
  qed
qed

lemma run_pool_induct:
  assumes "P (start_pool steps (mark_running steps st))"
    and "\<And>limit c p p'. P p \<Longrightarrow> pool_step en limit c p = Some p' \<Longrightarrow> P p'"
  shows "P (run_pool en choices steps st)"
  unfolding run_pool_def Let_def
proof (rule drain_induct)
  show "P (run_choices en limit choices (start_pool steps (mark_running steps st)))" for limit
    by (rule run_choices_induct [where P = P, OF assms(1)]) (rule assms(2))
  show "P p'" if "P p" "pool_step en limit c p = Some p'" for limit c p p'
    using that by (rule assms(2))
qed

text \<open>What a pass has done since it started: no step became pending again, and progress
  means that a pending step of the pass is no longer pending.\<close>

definition advanced :: "step_config list \<Rightarrow> 'w exec \<Rightarrow> 'w pass \<Rightarrow> bool" where
  "advanced ss st ps \<longleftrightarrow>
     (\<forall>sid. status_of (ps_exec ps) sid = PENDING \<longrightarrow> status_of st sid = PENDING)
     \<and> (ps_progress ps \<longrightarrow> (\<exists>s \<in> set ss. status_of st (st_id s) = PENDING
           \<and> status_of (ps_exec ps) (st_id s) \<noteq> PENDING))
     \<and> (\<forall>s \<in> set (ps_runnable ps). s \<in> set ss \<and> status_of st (st_id s) = PENDING)"

definition start_pass :: "string list \<Rightarrow> 'w exec \<Rightarrow> 'w pass" where
  "start_pass resolved st =
     \<lparr>ps_resolved = resolved, ps_progress = False, ps_runnable = [], ps_exec = st\<rparr>"

lemma advanced_start: "advanced ss st (start_pass resolved st)"
  by (simp add: advanced_def start_pass_def)

lemma advanced_skip:
  "s \<in> set ss \<Longrightarrow> advanced ss st ps \<Longrightarrow> status_of (ps_exec ps) (st_id s) = PENDING
     \<Longrightarrow> advanced ss st (resolve_skipped en s ps)"
  by (auto simp: advanced_def resolve_skipped_def)

lemma advanced_legacy_body:
  assumes s: "s \<in> set ss" and adv: "advanced ss st ps"
  shows "advanced ss st (fst (legacy_body en s ps))"
proof (cases "status_of (ps_exec ps) (st_id s) = PENDING \<and> is_ready (ps_resolved ps) s
    \<and> \<not> condition_fails s (ps_exec ps)")
  case True
  obtain st' r where rs: "run_step en s (ps_exec ps) = (st', r)" by force
  have st: "status_of st (st_id s) = PENDING" using True adv by (auto simp: advanced_def)
  have keep: "status_of st' sid = PENDING \<Longrightarrow> status_of (ps_exec ps) sid = PENDING" for sid
    using run_step_status(1) [OF rs, of sid] True by (cases "sid = st_id s") auto
  show ?thesis
  proof (cases r)
    case None
    with rs True adv s st keep run_step_status(2) [OF rs] show ?thesis
      by (auto simp: legacy_body_def advanced_def)
  next
    case (Some e)
    with rs True adv keep show ?thesis by (auto simp: legacy_body_def advanced_def)
  qed
next
  case False
  with adv advanced_skip [OF s adv] show ?thesis by (auto simp: legacy_body_def)
qed

lemma advanced_collect_body:
  "s \<in> set ss \<Longrightarrow> advanced ss st ps \<Longrightarrow> advanced ss st (collect_body en s ps)"
  using advanced_skip [of s ss st ps en] by (auto simp: collect_body_def) (auto simp: advanced_def)

lemma status_of_mark_running [simp, status_simps]:
  "status_of (mark_running ss st) sid = (if sid \<in> st_id ` set ss then RUNNING else status_of st sid)"
  by (induction ss st rule: mark_running.induct) auto

lemma pool_step_pending:
  assumes "pool_step en limit c p = Some p'" and "status_of (po_exec p') sid = PENDING"
  shows "status_of (po_exec p) sid = PENDING"
proof (cases c)
  case (Attempt i)
  let ?j = "po_running p ! i"
  obtain st' r where w: "worker_step en (jb_task ?j) (jb_step ?j) (jb_context ?j) False
      (jb_attempt ?j) (jb_error ?j) (po_exec p) = (st', r)" by force
  have "status_of st' sid = PENDING"
    using assms Attempt w by (auto simp: pool_attempt_def Let_def split: if_splits progress.splits)
  then show ?thesis
    using worker_step_status(1) [OF w, of sid] worker_step_status(2) [OF w]
    by (cases "sid = st_id (jb_step ?j)") (auto split: progress.splits sum.splits if_splits)
qed (use assms in \<open>auto simp: pool_submit_def pool_start_def split: list.splits option.splits if_splits\<close>)

lemma run_pool_pending:
  assumes "status_of (po_exec (run_pool en choices steps st)) sid = PENDING"
  shows "status_of st sid = PENDING \<and> sid \<notin> st_id ` set steps"
proof -
  have "status_of (po_exec (run_pool en choices steps st)) sid = PENDING
      \<longrightarrow> status_of (mark_running steps st) sid = PENDING"
    by (rule run_pool_induct) (auto simp: start_pool_def dest: pool_step_pending)
  with assms show ?thesis by (simp split: if_splits)
qed

lemma run_parallel_pending:
  assumes "run_parallel en choices steps st = (st', r)" and "status_of st' sid = PENDING"
  shows "status_of st sid = PENDING \<and> sid \<notin> st_id ` set steps"
  using assms run_pool_pending [of en choices steps st sid]
  by (auto simp: run_parallel_def Let_def split: option.splits)

definition is_parallel :: "'w engine \<Rightarrow> bool" where
  "is_parallel en = (case en_concurrency en of None \<Rightarrow> False | Some c \<Rightarrow> 1 < c)"

definition add_ids :: "step_config list \<Rightarrow> string list \<Rightarrow> string list" where
  "add_ids ss ids = foldl (\<lambda>r s. List.insert (st_id s) r) ids ss"

definition exec_round :: "'w engine \<Rightarrow> choice list \<Rightarrow> string list \<Rightarrow> 'w exec
    \<Rightarrow> 'w pass \<times> exn option" where
  "exec_round en choices resolved st =
     (let steps = wf_steps (en_config en)
      in if is_parallel en
         then (let ps = collect_runnable en steps (start_pass resolved st)
               in if ps_runnable ps = [] then (ps, None)
                  else case run_parallel en choices (ps_runnable ps) (ps_exec ps) of
                         (st', Some e) \<Rightarrow> (ps\<lparr>ps_exec := st'\<rparr>, Some e)
                       | (st', None) \<Rightarrow>
                           (ps\<lparr>ps_resolved := add_ids (ps_runnable ps) (ps_resolved ps),
                               ps_progress := True, ps_exec := st'\<rparr>, None))
         else run_legacy_yaml_order en steps (start_pass resolved st))"

lemma exec_round_pending:
  assumes "exec_round en choices resolved st = (ps, None)" and "ps_progress ps"
  shows "pending en (ps_exec ps) < pending en st"
proof -
  let ?steps = "wf_steps (en_config en)"
  have "advanced ?steps st (ps\<lparr>ps_runnable := []\<rparr>)"
  proof (cases "is_parallel en")
    case False
    have "advanced ?steps st (fst (run_legacy_yaml_order en ?steps (start_pass resolved st)))"
      by (rule legacy_induct) (simp_all add: advanced_start advanced_legacy_body)
    with False assms(1) show ?thesis by (simp add: exec_round_def advanced_def)
  next
    case True
    let ?c = "collect_runnable en ?steps (start_pass resolved st)"
    have adv: "advanced ?steps st ?c"
      by (rule collect_induct) (simp_all add: advanced_start advanced_collect_body)
    show ?thesis
    proof (cases "ps_runnable ?c")
      case Nil
      with True assms(1) adv show ?thesis by (simp add: exec_round_def advanced_def)
    next
      case (Cons s ss)
      then obtain st' where rp: "run_parallel en choices (ps_runnable ?c) (ps_exec ?c) = (st', None)"
        and ps: "ps_exec ps = st'"
        using True assms(1) by (auto simp: exec_round_def Let_def split: prod.splits option.splits)
      have s: "s \<in> set ?steps" "status_of st (st_id s) = PENDING"
        using adv Cons by (auto simp: advanced_def)
      have "status_of st' (st_id s) \<noteq> PENDING"
        using run_parallel_pending [OF rp, of "st_id s"] Cons by auto
      moreover have "status_of st' sid = PENDING \<Longrightarrow> status_of st sid = PENDING" for sid
        using run_parallel_pending [OF rp, of sid] adv by (auto simp: advanced_def)
      ultimately show ?thesis using s ps by (auto simp: advanced_def)
    qed
  qed
  with assms(2) obtain s where "s \<in> set ?steps" "status_of st (st_id s) = PENDING"
    and "status_of (ps_exec ps) (st_id s) \<noteq> PENDING"
    and "\<forall>sid. status_of (ps_exec ps) sid = PENDING \<longrightarrow> status_of st sid = PENDING"
    by (auto simp: advanced_def)
  then show ?thesis unfolding pending_def by (intro length_filter_less_if) auto
qed

text \<open>
  The \<open>while\<close> loop of \<open>execute\<close>; the \<open>n\<close>-th round uses the \<open>n\<close>-th schedule. A round
  without progress ends the loop (the no-progress guard, or nothing left to do).
\<close>

function exec_loop :: "'w engine \<Rightarrow> (nat \<Rightarrow> choice list) \<Rightarrow> nat \<Rightarrow> string list \<Rightarrow> 'w exec
    \<Rightarrow> 'w exec \<times> exn option" where
  "exec_loop en scheds n resolved st =
     (if length resolved < length (wf_steps (en_config en))
      then (case exec_round en (scheds n) resolved st of
              (ps, Some e) \<Rightarrow> (ps_exec ps, Some e)
            | (ps, None) \<Rightarrow>
                if ps_progress ps then exec_loop en scheds (Suc n) (ps_resolved ps) (ps_exec ps)
                else (ps_exec ps, None))
      else (st, None))"
  by pat_completeness auto
termination
  by (relation "measure (\<lambda>(en, scheds, n, resolved, st). pending en st)")
     (auto intro: exec_round_pending)

declare exec_loop.simps [simp del]

section \<open>The run\<close>

definition validate_registry :: "'w engine \<Rightarrow> exn option" where
  "validate_registry en =
     (let missing = filter (\<lambda>t. dget (en_registry en) t = None) (map st_task (wf_steps (en_config en)))
      in if missing \<noteq> []
         then Some (ValueError (''Tasks not found in registry: ''
                      @ join_str '', '' (sort (remdups missing))))
         else None)"

definition overall_status :: "'w exec \<Rightarrow> string" where
  "overall_status st =
     (let values = dvals (ex_statuses st)
      in if FAILED \<in> set values then ''failed''
         else if list_all (\<lambda>x. x \<in> {COMPLETED, SKIPPED}) values then ''completed''
         else ''partial'')"

definition execute :: "'w engine \<Rightarrow> (nat \<Rightarrow> choice list) \<Rightarrow> 'w exec \<Rightarrow> 'w exec \<times> exn option" where
  "execute en scheds st =
     (case validate_registry en of
        Some e \<Rightarrow> (st, Some e)
      | None \<Rightarrow>
          (case exec_loop en scheds 0 [] (trace_event ''run.started'' None None [] st) of
             (st', Some e) \<Rightarrow> (st', Some e)
           | (st', None) \<Rightarrow>
               (trace_event ''run.finished'' None None [(''status'', PyStr (overall_status st'))] st',
                None)))"

end
