(* ===== verification/Execution.thy ===== *)
theory Execution
  imports Executor "HOL-Library.Multiset"
begin

text \<open>
  Correctness of the executor: what one step's entries in the dictionaries say in each
  status (\<open>accounts\<close>), the invariant of a run (\<open>run_inv\<close>), which sequential passes and
  every interleaving of a parallel layer keep, and its consequences for \<open>execute\<close>: every
  run of a loaded workflow whose tasks are registered ends with every step settled.
\<close>

section \<open>The view of one step\<close>

text \<open>All that an execution holds about one step.\<close>

definition dead_of :: "'w exec \<Rightarrow> string \<Rightarrow> dead_letter list" where
  "dead_of st sid = filter (\<lambda>d. dl_step_id d = sid) (ex_dead_letters st)"

definition result_of :: "'w exec \<Rightarrow> string \<Rightarrow> pyval option" where
  "result_of st sid = dget (ex_results st) sid"

definition error_of :: "'w exec \<Rightarrow> string \<Rightarrow> string option" where
  "error_of st sid = dget (ex_errors st) sid"

definition step_view where
  "step_view st sid =
     (status_of st sid, result_of st sid, retry_count st sid, attempt_count st sid,
      error_of st sid, dead_of st sid)"

lemmas view_defs = step_view_def status_of_def result_of_def retry_count_def attempt_count_def
  error_of_def dead_of_def

named_theorems view_simps \<open>operations that leave the views of the steps alone\<close>

lemma view_trace_event [simp, view_simps]: "step_view (trace_event k so a d st) sid = step_view st sid"
  by (simp add: view_defs trace_event_def)

lemma view_emit_hook [simp, view_simps]: "step_view (emit_hook en s st) sid = step_view st sid"
  by (simp add: view_defs emit_hook_def split: option.splits)

lemma view_finish_events [simp, view_simps]: "step_view (finish_events s b st) sid = step_view st sid"
  by (simp add: finish_events_def Let_def)

lemma view_retry_events [simp, view_simps]: "step_view (retry_events s as st) sid = step_view st sid"
  by (induction s as st rule: retry_events.induct) simp_all

lemma view_publish [simp, view_simps]: "step_view (publish en out ss st) sid = step_view st sid"
  by (induction ss arbitrary: st) (simp_all add: Let_def)

lemma view_set_status [simp]:
  "step_view (set_status x v st) sid =
     (if sid = x then (v, snd (step_view st sid)) else step_view st sid)"
  by (simp add: view_defs set_status_def)

lemma view_skip_step [simp]:
  "sid \<noteq> st_id s \<Longrightarrow> step_view (skip_step en s st) sid = step_view st sid"
  by (simp add: skip_step_def)

lemma view_mark_running [simp]:
  "step_view (mark_running ss st) sid =
     (if sid \<in> st_id ` set ss then (RUNNING, snd (step_view st sid)) else step_view st sid)"
  by (induction ss st rule: mark_running.induct) auto

lemma view_components:
  assumes "step_view st sid = step_view st' sid"
  shows "status_of st sid = status_of st' sid" "result_of st sid = result_of st' sid"
    "retry_count st sid = retry_count st' sid" "attempt_count st sid = attempt_count st' sid"
    "error_of st sid = error_of st' sid" "dead_of st sid = dead_of st' sid"
  using assms by (simp_all add: step_view_def)

text \<open>A worker's iteration touches the view of its own step only.\<close>

lemma worker_step_view:
  assumes "worker_step en t s ctx tr k err st = (st', r)" and "sid \<noteq> st_id s"
  shows "step_view st' sid = step_view st sid"
  using assms
  by (auto simp: worker_step_def Let_def fail_step_def view_defs set_status_def trace_event_def
        split: if_splits sum.splits prod.splits)

lemma retry_loop_view:
  assumes "retry_loop en t s ctx tr k err st = (st', r)" and "sid \<noteq> st_id s"
  shows "step_view st' sid = step_view st sid"
  using assms
proof (induction en t s ctx tr k err st rule: retry_loop.induct)
  case (1 en t s ctx tr k err st)
  obtain st1 p where w: "worker_step en t s ctx tr k err st = (st1, p)" by force
  show ?case
    using "1.IH" [OF w [symmetric]] "1.prems" w worker_step_view [OF w "1.prems"(2)]
    by (cases p) (simp_all add: retry_loop.simps [of en t s ctx tr k err st])
qed

section \<open>The accounting of one step\<close>

definition dead_entry :: "step_config \<Rightarrow> string \<Rightarrow> nat \<Rightarrow> dead_letter" where
  "dead_entry s err n =
     \<lparr>dl_step_id = st_id s, dl_task = st_task s, dl_error = err, dl_attempts = n,
      dl_params = st_params s\<rparr>"

text \<open>
  What the dictionaries say about a step in each status. A step of \<open>retries\<close> retries has
  \<open>nat (retries + 1)\<close> attempts.
\<close>

fun accounts :: "step_config \<Rightarrow> step_status \<times> pyval option \<times> nat \<times> nat \<times> string option \<times> dead_letter list
    \<Rightarrow> bool" where
  "accounts s (PENDING, res, retry, att, err, dead) \<longleftrightarrow>
     res = None \<and> retry = 0 \<and> att = 0 \<and> err = None \<and> dead = []"
| "accounts s (SKIPPED, res, retry, att, err, dead) \<longleftrightarrow>
     res = None \<and> retry = 0 \<and> att = 0 \<and> err = None \<and> dead = []"
| "accounts s (RUNNING, res, retry, att, err, dead) \<longleftrightarrow>
     res = None \<and> retry = att \<and> att \<le> step_work s \<and> err = None \<and> dead = []"
| "accounts s (COMPLETED, res, retry, att, err, dead) \<longleftrightarrow>
     res \<noteq> None \<and> att = Suc retry \<and> att \<le> step_work s \<and> err = None \<and> dead = []"
| "accounts s (FAILED, res, retry, att, err, dead) \<longleftrightarrow>
     res = None \<and> att = step_work s \<and> retry = att
     \<and> (\<exists>e. err = Some e \<and> dead = [dead_entry s e retry])"

definition step_inv :: "step_config \<Rightarrow> 'w exec \<Rightarrow> bool" where
  "step_inv s st \<longleftrightarrow> accounts s (step_view st (st_id s))"

text \<open>A worker of \<open>s\<close> about to make attempt \<open>k\<close>.\<close>

definition worker_at :: "step_config \<Rightarrow> nat \<Rightarrow> 'w exec \<Rightarrow> bool" where
  "worker_at s k st \<longleftrightarrow>
     step_view st (st_id s) = (RUNNING, None, k, k, None, []) \<and> k \<le> step_work s"

lemma worker_at_inv: "worker_at s k st \<Longrightarrow> step_inv s st"
  by (simp add: worker_at_def step_inv_def)

lemma worker_step_accounts:
  assumes w: "worker_step en t s ctx tr k err st = (st', r)" and at: "worker_at s k st"
  shows "case r of Continue k' _ \<Rightarrow> worker_at s k' st'
    | Finish (Inr _) \<Rightarrow> step_inv s st'
    | Finish (Inl _) \<Rightarrow> 1024 < st_retries s"
proof -
  have d: "dead_of st (st_id s) = []" using at by (simp add: worker_at_def step_view_def)
  show ?thesis
    using w at
    by (auto simp: worker_step_def Let_def fail_step_def worker_at_def step_inv_def view_defs
          set_status_def trace_event_def dead_entry_def step_work_def backoff_def
          split: if_splits sum.splits prod.splits option.splits)
qed

lemma retry_loop_accounts:
  assumes "retry_loop en t s ctx tr k err st = (st', r)" and "worker_at s k st"
  shows "case r of Inr _ \<Rightarrow> step_inv s st' | Inl _ \<Rightarrow> 1024 < st_retries s"
  using assms
proof (induction en t s ctx tr k err st rule: retry_loop.induct)
  case (1 en t s ctx tr k err st)
  obtain st1 p where w: "worker_step en t s ctx tr k err st = (st1, p)" by force
  show ?case
    using "1.IH" [OF w [symmetric]] "1.prems" w worker_step_accounts [OF w "1.prems"(2)]
    by (cases p) (auto simp: retry_loop.simps [of en t s ctx tr k err st])
qed


text \<open>A step is settled when it has its final status.\<close>

definition settled :: "'w exec \<Rightarrow> string \<Rightarrow> bool" where
  "settled st sid \<longleftrightarrow> status_of st sid \<in> {COMPLETED, FAILED, SKIPPED}"

lemma view_settled: "step_view st sid = step_view st' sid \<Longrightarrow> settled st sid = settled st' sid"
  by (simp add: settled_def step_view_def)

lemma run_step_view:
  "run_step en s st = (st', r) \<Longrightarrow> sid \<noteq> st_id s \<Longrightarrow> step_view st' sid = step_view st sid"
  by (auto simp: run_step_def run_with_retry_def Let_def dest!: retry_loop_view
      split: option.splits prod.splits sum.splits)

lemma run_step_outcome:
  assumes rs: "run_step en s st = (st', r)" and inv: "step_inv s st"
    and pend: "status_of st (st_id s) = PENDING"
  shows "r = None \<Longrightarrow> step_inv s st' \<and> status_of st' (st_id s) \<in> {COMPLETED, FAILED}"
    and "r = Some e \<Longrightarrow> dget (en_registry en) (st_task s) = None \<or> 1024 < st_retries s"
proof -
  let ?st1 = "trace_event ''step.started'' (Some s) None [] (set_status (st_id s) RUNNING st)"
  have "step_view st (st_id s) = (PENDING, None, 0, 0, None, [])"
    using inv pend by (cases "step_view st (st_id s)") (auto simp: step_inv_def step_view_def)
  then have at: "worker_at s 0 ?st1"
    by (simp add: worker_at_def view_defs trace_event_def set_status_def)
  have step: "r = None \<longrightarrow> step_inv s st' \<and> status_of st' (st_id s) \<in> {COMPLETED, FAILED}"
    "r = Some e \<longrightarrow> 1024 < st_retries s"
    if t: "dget (en_registry en) (st_task s) = Some t" for t
  proof -
    obtain st2 q where rl: "retry_loop en t s (ex_results ?st1) True 0 [] ?st1 = (st2, q)" by force
    note acc = retry_loop_accounts [OF rl at] and fin = retry_loop_status(2) [OF rl]
    show "r = None \<longrightarrow> step_inv s st' \<and> status_of st' (st_id s) \<in> {COMPLETED, FAILED}"
      using rs t rl acc fin
      by (cases q) (auto simp: run_step_def run_with_retry_def step_inv_def split: if_splits)
    show "r = Some e \<longrightarrow> 1024 < st_retries s"
      using rs t rl acc
      by (cases q) (auto simp: run_step_def run_with_retry_def)
  qed
  show "r = None \<Longrightarrow> step_inv s st' \<and> status_of st' (st_id s) \<in> {COMPLETED, FAILED}"
    using step(1) rs by (cases "dget (en_registry en) (st_task s)") (auto simp: run_step_def Let_def)
  show "r = Some e \<Longrightarrow> dget (en_registry en) (st_task s) = None \<or> 1024 < st_retries s"
    using step(2) by (cases "dget (en_registry en) (st_task s)") auto
qed

section \<open>The invariant of a run\<close>

text \<open>
  A step that has left \<open>PENDING\<close> did so after all its dependencies were settled, and it is
  skipped exactly when its condition fails on the results.
\<close>

definition gate :: "step_config \<Rightarrow> 'w exec \<Rightarrow> bool" where
  "gate s st \<longleftrightarrow> status_of st (st_id s) \<noteq> PENDING \<longrightarrow>
     (\<forall>d \<in> set (step_deps s). settled st d)
     \<and> (status_of st (st_id s) = SKIPPED \<longleftrightarrow> condition_fails s st)"

definition run_inv :: "step_config list \<Rightarrow> 'w exec \<Rightarrow> bool" where
  "run_inv steps st \<longleftrightarrow> (\<forall>s \<in> set steps. step_inv s st \<and> gate s st)"

lemma condition_step_dep:
  "st_condition s = Some c \<Longrightarrow> sc_step c \<in> set (step_deps s)"
  by (auto simp: step_deps_def Let_def)

lemma depends_on_subset: "set (depends_on s) \<subseteq> set (step_deps s)"
  by (auto simp: step_deps_def Let_def split: option.splits)

lemma is_ready_iff: "is_ready resolved s \<longleftrightarrow> set (step_deps s) \<subseteq> set resolved"
  by (auto simp: is_ready_def step_deps_def Let_def list_all_iff split: option.splits)

lemma condition_fails_cong:
  assumes "\<And>d. d \<in> set (step_deps s) \<Longrightarrow> result_of st' d = result_of st d"
  shows "condition_fails s st' = condition_fails s st"
  using assms condition_step_dep [of s]
  by (auto simp: condition_fails_def evaluate_def result_of_def split: option.splits)

text \<open>
  An operation that leaves the settled steps alone keeps the gate of every step that stays
  pending or does not leave \<open>PENDING\<close> or \<open>SKIPPED\<close>.
\<close>

lemma gate_frame:
  assumes g: "gate s st"
    and frame: "\<And>d. settled st d \<Longrightarrow> step_view st' d = step_view st d"
    and own: "status_of st (st_id s) = PENDING \<longrightarrow> status_of st' (st_id s) = PENDING"
      "status_of st' (st_id s) = SKIPPED \<longrightarrow> status_of st (st_id s) = SKIPPED"
  shows "gate s st'"
proof (cases "status_of st (st_id s) = PENDING")
  case True
  with own show ?thesis by (simp add: gate_def)
next
  case False
  with g have deps: "\<And>d. d \<in> set (step_deps s) \<Longrightarrow> settled st d"
    and skip: "status_of st (st_id s) = SKIPPED \<longleftrightarrow> condition_fails s st"
    by (simp_all add: gate_def)
  have cf: "condition_fails s st' = condition_fails s st"
    using deps frame by (intro condition_fails_cong view_components(2)) blast
  have st': "settled st' d" if "d \<in> set (step_deps s)" for d
    using deps [OF that] frame view_settled by blast
  have "status_of st' (st_id s) = SKIPPED" if "status_of st (st_id s) = SKIPPED"
    using frame [of "st_id s"] that by (auto simp: settled_def dest: view_components(1))
  with own skip cf st' show ?thesis by (auto simp: gate_def)
qed

text \<open>A ready step that leaves \<open>PENDING\<close>, with a status its condition allows.\<close>

lemma gate_start:
  assumes ready: "is_ready resolved s" and res: "\<forall>d \<in> set resolved. settled st d"
    and frame: "\<And>d. settled st d \<Longrightarrow> step_view st' d = step_view st d"
    and skip: "status_of st' (st_id s) = SKIPPED \<longleftrightarrow> condition_fails s st"
  shows "gate s st'"
proof -
  have deps: "settled st d" if "d \<in> set (step_deps s)" for d
    using ready res that by (auto simp: is_ready_iff)
  have "condition_fails s st' = condition_fails s st"
    using deps frame by (intro condition_fails_cong view_components(2)) blast
  moreover have "settled st' d" if "d \<in> set (step_deps s)" for d
    using deps [OF that] frame view_settled by blast
  ultimately show ?thesis using skip by (simp add: gate_def)
qed


lemma run_inv_change:
  assumes inv: "run_inv steps st" and dist: "distinct (map st_id steps)" and x: "x \<in> set steps"
    and ns: "\<not> settled st (st_id x)"
    and frame: "\<And>sid. sid \<noteq> st_id x \<Longrightarrow> step_view st' sid = step_view st sid"
    and new: "step_inv x st'" "gate x st'"
  shows "run_inv steps st'"
  unfolding run_inv_def
proof
  fix s assume s: "s \<in> set steps"
  show "step_inv s st' \<and> gate s st'"
  proof (cases "st_id s = st_id x")
    case True
    with dist s x have "s = x" by (rule distinct_map_inj)
    with new show ?thesis by simp
  next
    case False
    note v = frame [OF False]
    have "step_inv s st" "gate s st" using inv s by (simp_all add: run_inv_def)
    moreover have "gate s st'"
      using \<open>gate s st\<close>
    proof (rule gate_frame)
      show "step_view st' d = step_view st d" if "settled st d" for d
        using frame ns that by metis
    qed (simp_all add: view_components(1) [OF v])
    ultimately show ?thesis using v by (simp add: step_inv_def)
  qed
qed

text \<open>
  The state of a pass: the resolved ids are the settled steps, nothing runs, and the steps
  collected for a layer are pending and may start.
\<close>

definition pass_inv :: "step_config list \<Rightarrow> 'w pass \<Rightarrow> bool" where
  "pass_inv steps ps \<longleftrightarrow>
     run_inv steps (ps_exec ps)
     \<and> distinct (ps_resolved ps)
     \<and> set (ps_resolved ps) = {sid \<in> st_id ` set steps. settled (ps_exec ps) sid}
     \<and> (\<forall>s \<in> set steps. status_of (ps_exec ps) (st_id s) \<noteq> RUNNING)
     \<and> distinct (map st_id (ps_runnable ps))
     \<and> (\<forall>s \<in> set (ps_runnable ps). s \<in> set steps
          \<and> status_of (ps_exec ps) (st_id s) = PENDING
          \<and> is_ready (ps_resolved ps) s \<and> \<not> condition_fails s (ps_exec ps))"

lemma settled_iff: "settled st sid \<longleftrightarrow> status_of st sid \<noteq> PENDING \<and> status_of st sid \<noteq> RUNNING"
  by (cases "status_of st sid") (simp_all add: settled_def)

text \<open>One step \<open>x\<close> gets settled; the steps collected so far stay startable.\<close>

lemma pass_inv_resolve:
  assumes inv: "pass_inv steps ps" and dist: "distinct (map st_id steps)" and x: "x \<in> set steps"
    and pend: "status_of (ps_exec ps) (st_id x) = PENDING"
    and notin: "st_id x \<notin> st_id ` set (ps_runnable ps)"
    and frame: "\<And>sid. sid \<noteq> st_id x \<Longrightarrow> step_view st' sid = step_view (ps_exec ps) sid"
    and new: "step_inv x st'" "gate x st'" "settled st' (st_id x)"
  shows "pass_inv steps (ps\<lparr>ps_resolved := List.insert (st_id x) (ps_resolved ps),
           ps_progress := b, ps_exec := st'\<rparr>)"
proof -
  have ns: "\<not> settled (ps_exec ps) (st_id x)" using pend by (simp add: settled_def)
  have run: "run_inv steps st'"
    using inv by (intro run_inv_change [OF _ dist x ns frame new(1,2)]) (simp add: pass_inv_def)
  have other: "settled st' sid = settled (ps_exec ps) sid"
      "status_of st' sid = status_of (ps_exec ps) sid" if "sid \<noteq> st_id x" for sid
    using frame [OF that] view_settled view_components(1) by blast+
  have resolved: "set (List.insert (st_id x) (ps_resolved ps)) = {sid \<in> st_id ` set steps. settled st' sid}"
    using inv x new(3) other(1) by (auto simp: pass_inv_def) metis+
  have running: "status_of st' (st_id s) \<noteq> RUNNING" if "s \<in> set steps" for s
    using inv that new(3) other(2) [of "st_id s"]
    by (cases "st_id s = st_id x") (auto simp: pass_inv_def settled_iff)
  have start: "s \<in> set steps \<and> status_of st' (st_id s) = PENDING
      \<and> is_ready (List.insert (st_id x) (ps_resolved ps)) s \<and> \<not> condition_fails s st'"
    if s: "s \<in> set (ps_runnable ps)" for s
  proof -
    have old: "s \<in> set steps" "status_of (ps_exec ps) (st_id s) = PENDING"
      "is_ready (ps_resolved ps) s" "\<not> condition_fails s (ps_exec ps)"
      using inv s by (simp_all add: pass_inv_def)
    have "st_id s \<noteq> st_id x" using notin s by (metis imageI)
    with old(2) other(2) have "status_of st' (st_id s) = PENDING" by simp
    moreover have "condition_fails s st' = condition_fails s (ps_exec ps)"
    proof (rule condition_fails_cong)
      fix d assume "d \<in> set (step_deps s)"
      with old(3) inv have "settled (ps_exec ps) d" by (auto simp: is_ready_iff pass_inv_def)
      with ns have "d \<noteq> st_id x" by auto
      with frame show "result_of st' d = result_of (ps_exec ps) d" by (blast intro: view_components(2))
    qed
    moreover have "is_ready (List.insert (st_id x) (ps_resolved ps)) s"
      using old(3) by (auto simp: is_ready_iff)
    ultimately show ?thesis using old by simp
  qed
  show ?thesis using inv run resolved running start by (simp add: pass_inv_def)
qed

lemma pass_inv_pending_view:
  assumes "pass_inv steps ps" and "s \<in> set steps" and "status_of (ps_exec ps) (st_id s) = PENDING"
  shows "step_inv s (ps_exec ps)" "step_view (ps_exec ps) (st_id s) = (PENDING, None, 0, 0, None, [])"
proof -
  show inv: "step_inv s (ps_exec ps)" using assms by (simp add: pass_inv_def run_inv_def)
  show "step_view (ps_exec ps) (st_id s) = (PENDING, None, 0, 0, None, [])"
    using inv assms(3)
    by (cases "step_view (ps_exec ps) (st_id s)") (auto simp: step_inv_def step_view_def)
qed

lemma pass_inv_resolved: "pass_inv steps ps \<Longrightarrow> \<forall>d \<in> set (ps_resolved ps). settled (ps_exec ps) d"
  by (simp add: pass_inv_def)

lemma pass_inv_skip:
  assumes inv: "pass_inv steps ps" and dist: "distinct (map st_id steps)" and x: "x \<in> set steps"
    and pend: "status_of (ps_exec ps) (st_id x) = PENDING"
    and notin: "st_id x \<notin> st_id ` set (ps_runnable ps)"
    and ready: "is_ready (ps_resolved ps) x" and cond: "condition_fails x (ps_exec ps)"
  shows "pass_inv steps (resolve_skipped en x ps)"
  unfolding resolve_skipped_def
proof (rule pass_inv_resolve [OF inv dist x pend notin])
  let ?st' = "skip_step en x (ps_exec ps)"
  show frame: "step_view ?st' sid = step_view (ps_exec ps) sid" if "sid \<noteq> st_id x" for sid
    using that by simp
  have "step_view ?st' (st_id x) = (SKIPPED, None, 0, 0, None, [])"
    using pass_inv_pending_view(2) [OF inv x pend] by (simp add: skip_step_def)
  then show "step_inv x ?st'" by (simp add: step_inv_def)
  show "settled ?st' (st_id x)" by (simp add: settled_def)
  show "gate x ?st'"
  proof (rule gate_start [OF ready pass_inv_resolved [OF inv]])
    show "step_view ?st' d = step_view (ps_exec ps) d" if "settled (ps_exec ps) d" for d
      using that pend by (intro frame) (auto simp: settled_def)
  qed (simp add: cond)
qed

lemma pass_inv_run_step:
  assumes inv: "pass_inv steps ps" and dist: "distinct (map st_id steps)" and x: "x \<in> set steps"
    and pend: "status_of (ps_exec ps) (st_id x) = PENDING"
    and notin: "st_id x \<notin> st_id ` set (ps_runnable ps)"
    and ready: "is_ready (ps_resolved ps) x" and cond: "\<not> condition_fails x (ps_exec ps)"
    and rs: "run_step en x (ps_exec ps) = (st', None)"
  shows "pass_inv steps (ps\<lparr>ps_resolved := List.insert (st_id x) (ps_resolved ps),
           ps_progress := b, ps_exec := st'\<rparr>)"
proof (rule pass_inv_resolve [OF inv dist x pend notin])
  have out: "step_inv x st'" "status_of st' (st_id x) \<in> {COMPLETED, FAILED}"
    using run_step_outcome(1) [OF rs pass_inv_pending_view(1) [OF inv x pend] pend] by auto
  show frame: "step_view st' sid = step_view (ps_exec ps) sid" if "sid \<noteq> st_id x" for sid
    using rs that by (rule run_step_view)
  show "step_inv x st'" by (rule out(1))
  show "settled st' (st_id x)" using out(2) by (auto simp: settled_def)
  show "gate x st'"
  proof (rule gate_start [OF ready pass_inv_resolved [OF inv]])
    show "step_view st' d = step_view (ps_exec ps) d" if "settled (ps_exec ps) d" for d
      using that pend by (intro frame) (auto simp: settled_def)
  qed (use cond out(2) in auto)
qed

text \<open>The tasks of a set of steps are registered, and no back-off overflows.\<close>

definition runnable_steps :: "'w engine \<Rightarrow> step_config list \<Rightarrow> bool" where
  "runnable_steps en steps \<longleftrightarrow>
     (\<forall>s \<in> set steps. dget (en_registry en) (st_task s) \<noteq> None \<and> st_retries s \<le> 1024)"

lemma legacy_body_inv:
  assumes inv: "pass_inv steps ps" and empty: "ps_runnable ps = []" and dist: "distinct (map st_id steps)"
    and s: "s \<in> set steps" and run: "runnable_steps en steps"
  shows "snd (legacy_body en s ps) = None \<and> ps_runnable (fst (legacy_body en s ps)) = []
    \<and> pass_inv steps (fst (legacy_body en s ps))"
proof (cases "status_of (ps_exec ps) (st_id s) = PENDING \<and> is_ready (ps_resolved ps) s")
  case False
  with inv empty show ?thesis by (auto simp: legacy_body_def)
next
  case True
  then have pend: "status_of (ps_exec ps) (st_id s) = PENDING" and ready: "is_ready (ps_resolved ps) s"
    by simp_all
  have notin: "st_id s \<notin> st_id ` set (ps_runnable ps)" using empty by simp
  show ?thesis
  proof (cases "condition_fails s (ps_exec ps)")
    case cf: True
    from pass_inv_skip [OF inv dist s pend notin ready cf] empty pend ready cf
    show ?thesis by (simp add: legacy_body_def resolve_skipped_def)
  next
    case cf: False
    obtain st' r where rs: "run_step en s (ps_exec ps) = (st', r)" by force
    have r: "r = None"
    proof (cases r)
      case (Some e)
      with run_step_outcome(2) [OF rs pass_inv_pending_view(1) [OF inv s pend] pend Some]
        run s show ?thesis by (auto simp: runnable_steps_def)
    qed simp
    from pass_inv_run_step [OF inv dist s pend notin ready cf rs [unfolded r]] empty pend ready cf rs r
    show ?thesis by (simp add: legacy_body_def)
  qed
qed

lemma legacy_inv:
  assumes "pass_inv steps ps" and "ps_runnable ps = []" and "distinct (map st_id steps)"
    and "set ss \<subseteq> set steps" and "runnable_steps en steps"
  shows "snd (run_legacy_yaml_order en ss ps) = None
    \<and> ps_runnable (fst (run_legacy_yaml_order en ss ps)) = []
    \<and> pass_inv steps (fst (run_legacy_yaml_order en ss ps))"
  using assms
proof (induction ss arbitrary: ps)
  case Nil
  then show ?case by simp
next
  case (Cons s ss)
  have s: "s \<in> set steps" and ss: "set ss \<subseteq> set steps" using Cons.prems(4) by simp_all
  from legacy_body_inv [OF Cons.prems(1-3) s Cons.prems(5)] Cons.IH [OF _ _ Cons.prems(3) ss Cons.prems(5)]
  show ?case by (cases "legacy_body en s ps") auto
qed

lemma subset_insert_disjoint: "A \<subseteq> insert a B \<Longrightarrow> a \<notin> C \<Longrightarrow> B \<inter> C = {} \<Longrightarrow> A \<inter> C = {}"
  by auto

lemma collect_body_inv:
  assumes inv: "pass_inv steps ps" and dist: "distinct (map st_id steps)" and s: "s \<in> set steps"
    and notin: "st_id s \<notin> st_id ` set (ps_runnable ps)"
  shows "pass_inv steps (collect_body en s ps)
    \<and> st_id ` set (ps_runnable (collect_body en s ps)) \<subseteq> insert (st_id s) (st_id ` set (ps_runnable ps))"
proof (cases "status_of (ps_exec ps) (st_id s) = PENDING \<and> is_ready (ps_resolved ps) s")
  case False
  with inv show ?thesis by (auto simp: collect_body_def)
next
  case True
  then have pend: "status_of (ps_exec ps) (st_id s) = PENDING" and ready: "is_ready (ps_resolved ps) s"
    by simp_all
  show ?thesis
  proof (cases "condition_fails s (ps_exec ps)")
    case cf: True
    from pass_inv_skip [OF inv dist s pend notin ready cf] pend ready cf
    show ?thesis by (auto simp: collect_body_def resolve_skipped_def)
  next
    case cf: False
    with inv s notin pend ready show ?thesis by (auto simp: collect_body_def pass_inv_def)
  qed
qed

lemma collect_inv:
  assumes "pass_inv steps ps" and "distinct (map st_id steps)" and "set ss \<subseteq> set steps"
    and "distinct (map st_id ss)" and "st_id ` set (ps_runnable ps) \<inter> st_id ` set ss = {}"
  shows "pass_inv steps (collect_runnable en ss ps)"
  using assms
proof (induction ss arbitrary: ps)
  case Nil
  then show ?case by simp
next
  case (Cons s ss)
  have s: "s \<in> set steps" using Cons.prems(3) by simp
  have notin: "st_id s \<notin> st_id ` set (ps_runnable ps)" using Cons.prems(5) by auto
  note body = collect_body_inv [OF Cons.prems(1,2) s notin, of en]
  from body have "st_id ` set (ps_runnable (collect_body en s ps)) \<inter> st_id ` set ss = {}"
    by (rule subset_insert_disjoint [OF conjunct2]) (use Cons.prems(4,5) in auto)
  with body show ?case
    using Cons.prems(2-4) Cons.IH [of "collect_body en s ps"] by simp
qed

section \<open>The invariant of a parallel layer\<close>

text \<open>The steps of the layer that have no outcome yet, with the number of attempts made.\<close>

definition alive :: "'w pool \<Rightarrow> (step_config \<times> nat) list" where
  "alive p = map (\<lambda>s. (s, 0)) (po_todo p)
     @ map (\<lambda>j. (jb_step j, jb_attempt j)) (po_queue p @ po_running p)"

definition alive_ok :: "step_config list \<Rightarrow> (step_config \<times> nat) list \<Rightarrow> (string, exn + bool) dict
    \<Rightarrow> 'w exec \<Rightarrow> bool" where
  "alive_ok layer al outcomes st \<longleftrightarrow>
     distinct (map (st_id \<circ> fst) al)
     \<and> (\<forall>(s, k) \<in> set al. s \<in> set layer \<and> worker_at s k st \<and> dget outcomes (st_id s) = None)
     \<and> (\<forall>s \<in> set layer. case dget outcomes (st_id s) of
            None \<Rightarrow> st_id s \<in> st_id ` fst ` set al
          | Some (Inr b) \<Rightarrow> status_of st (st_id s) = (if b then COMPLETED else FAILED)
          | Some (Inl e) \<Rightarrow> 1024 < st_retries s)"

definition pool_inv :: "step_config list \<Rightarrow> step_config list \<Rightarrow> 'w exec \<Rightarrow> 'w pool \<Rightarrow> bool" where
  "pool_inv steps layer st0 p \<longleftrightarrow>
     run_inv steps (po_exec p) \<and> po_fault p = None
     \<and> alive_ok layer (alive p) (po_done p) (po_exec p)
     \<and> (\<forall>sid. sid \<notin> st_id ` set layer \<longrightarrow> step_view (po_exec p) sid = step_view st0 sid)"

lemma alive_ok_cong: "mset al = mset al' \<Longrightarrow> alive_ok layer al out st = alive_ok layer al' out st"
proof -
  assume m: "mset al = mset al'"
  then have "set al = set al'" by (rule mset_eq_setD)
  moreover have "distinct (map (st_id \<circ> fst) al) = distinct (map (st_id \<circ> fst) al')"
    using m by (intro mset_eq_imp_distinct_iff) simp
  ultimately show ?thesis unfolding alive_ok_def by (simp only:)
qed

lemma alive_attempt:
  assumes "i < length (po_running p)"
  obtains rest where "mset (alive p) = mset ((jb_step (po_running p ! i), jb_attempt (po_running p ! i)) # rest)"
    and "\<And>q. po_todo q = po_todo p \<Longrightarrow> po_queue q = po_queue p \<Longrightarrow>
      po_running q = remove_at i (po_running p) \<Longrightarrow> mset (alive q) = mset rest"
    and "\<And>q j. po_todo q = po_todo p \<Longrightarrow> po_queue q = po_queue p \<Longrightarrow>
      po_running q = (po_running p)[i := j] \<Longrightarrow> mset (alive q) = mset ((jb_step j, jb_attempt j) # rest)"
proof
  let ?f = "\<lambda>j. (jb_step j, jb_attempt j)"
  let ?rest = "map (\<lambda>s. (s, 0)) (po_todo p) @ map ?f (po_queue p @ remove_at i (po_running p))"
  have split: "po_running p = take i (po_running p) @ po_running p ! i # drop (Suc i) (po_running p)"
    using assms by (rule id_take_nth_drop)
  have "mset (map ?f (po_running p)) = add_mset (?f (po_running p ! i)) (mset (map ?f (remove_at i (po_running p))))"
    by (subst split) (simp add: remove_at_def)
  then show "mset (alive p) = mset (?f (po_running p ! i) # ?rest)"
    by (simp add: alive_def)
  show "mset (alive q) = mset ?rest" if "po_todo q = po_todo p" "po_queue q = po_queue p"
    "po_running q = remove_at i (po_running p)" for q
    using that by (simp add: alive_def)
  show "mset (alive q) = mset (?f j # ?rest)" if "po_todo q = po_todo p" "po_queue q = po_queue p"
    "po_running q = (po_running p)[i := j]" for q j
    using that assms by (simp add: alive_def remove_at_def upd_conv_take_nth_drop)
qed

text \<open>One iteration of a worker at the head of the steps still alive.\<close>

lemma alive_ok_step:
  assumes ok: "alive_ok layer ((s, k) # rest) out st" and dist: "distinct (map st_id layer)"
    and w: "worker_step en t s ctx tr k err st = (st', r)"
  shows "case r of Continue k' _ \<Rightarrow> alive_ok layer ((s, k') # rest) out st'
    | Finish q \<Rightarrow> alive_ok layer rest (dset (st_id s) q out) st'"
proof -
  have at: "worker_at s k st" and sl: "s \<in> set layer" and fresh: "dget out (st_id s) = None"
    and notin: "st_id s \<notin> st_id ` fst ` set rest"
    using ok by (auto simp: alive_ok_def)
  note view = worker_step_view [OF w]
  have rest: "s' \<in> set layer \<and> worker_at s' k' st' \<and> dget out (st_id s') = None \<and> st_id s \<noteq> st_id s'"
    if "(s', k') \<in> set rest" for s' k'
  proof -
    have "st_id s' \<noteq> st_id s" using that notin by (metis fst_conv imageI)
    moreover have "s' \<in> set layer" "worker_at s' k' st" "dget out (st_id s') = None"
      using ok that by (auto simp: alive_ok_def)
    ultimately show ?thesis using view [of "st_id s'"] by (simp add: worker_at_def)
  qed
  have other: "status_of st' (st_id s') = status_of st (st_id s')" if "st_id s' \<noteq> st_id s" for s'
    using view [OF that] by (rule view_components(1))
  have old: "case dget out (st_id s') of
            None \<Rightarrow> st_id s' \<in> st_id ` fst ` set ((s, k) # rest)
          | Some (Inr b) \<Rightarrow> status_of st (st_id s') = (if b then COMPLETED else FAILED)
          | Some (Inl e) \<Rightarrow> 1024 < st_retries s'" if "s' \<in> set layer" for s'
    using ok that by (simp add: alive_ok_def)
  have same: "s' = s" if "s' \<in> set layer" "st_id s' = st_id s" for s'
    using dist that(1) sl that(2) by (rule distinct_map_inj)
  show ?thesis
  proof (cases r)
    case (Continue k' err')
    have "worker_at s k' st'" using worker_step_accounts [OF w at] Continue by simp
    moreover have "case dget out (st_id s') of
            None \<Rightarrow> st_id s' \<in> st_id ` fst ` set ((s, k') # rest)
          | Some (Inr b) \<Rightarrow> status_of st' (st_id s') = (if b then COMPLETED else FAILED)
          | Some (Inl e) \<Rightarrow> 1024 < st_retries s'" if s': "s' \<in> set layer" for s'
    proof (cases "st_id s' = st_id s")
      case True
      with fresh show ?thesis by simp
    next
      case False
      with old [OF s'] other [OF False] show ?thesis by (auto split: option.splits sum.splits)
    qed
    moreover have "distinct (map (st_id \<circ> fst) ((s, k') # rest))" using ok by (simp add: alive_ok_def)
    ultimately show ?thesis using rest sl fresh Continue by (auto simp: alive_ok_def)
  next
    case (Finish q)
    have q: "case q of Inr b \<Rightarrow> status_of st' (st_id s) = (if b then COMPLETED else FAILED)
        | Inl e \<Rightarrow> 1024 < st_retries s"
      using worker_step_accounts [OF w at] worker_step_status(2) [OF w] Finish
      by (auto split: sum.splits)
    have "distinct (map (st_id \<circ> fst) rest)" using ok by (simp add: alive_ok_def)
    moreover have "case dget (dset (st_id s) q out) (st_id s') of
            None \<Rightarrow> st_id s' \<in> st_id ` fst ` set rest
          | Some (Inr b) \<Rightarrow> status_of st' (st_id s') = (if b then COMPLETED else FAILED)
          | Some (Inl e) \<Rightarrow> 1024 < st_retries s'" if s': "s' \<in> set layer" for s'
    proof (cases "st_id s' = st_id s")
      case True
      with same [OF s'] q show ?thesis by (auto split: sum.splits)
    next
      case False
      with old [OF s'] other [OF False] show ?thesis by (auto split: option.splits sum.splits)
    qed
    ultimately show ?thesis using rest Finish by (auto simp: alive_ok_def)
  qed
qed


lemma alive_ok_inv:
  "alive_ok layer ((s, k) # rest) out st \<Longrightarrow> s \<in> set layer \<and> worker_at s k st"
  by (simp add: alive_ok_def)

lemma pool_inv_step:
  assumes inv: "pool_inv steps layer st0 p" and step: "pool_step en limit c p = Some p'"
    and dist: "distinct (map st_id steps)" and layer: "set layer \<subseteq> set steps" "distinct (map st_id layer)"
    and run: "runnable_steps en steps"
  shows "pool_inv steps layer st0 p'"
proof (cases c)
  case Submit
  from step Submit obtain s ss where todo: "po_todo p = s # ss"
    by (auto simp: pool_submit_def split: list.splits)
  then have "(s, 0) \<in> set (alive p)" by (simp add: alive_def)
  with inv have "s \<in> set layer" by (auto simp: pool_inv_def alive_ok_def)
  with layer run obtain t where t: "dget (en_registry en) (st_task s) = Some t"
    by (auto simp: runnable_steps_def)
  have p': "p' = p\<lparr>po_todo := ss, po_queue := po_queue p @ [\<lparr>jb_step = s, jb_task = t,
      jb_context = ex_results (po_exec p), jb_attempt = 0, jb_error = []\<rparr>]\<rparr>"
    using step Submit todo t by (simp add: pool_submit_def)
  then have m: "mset (alive p') = mset (alive p)" by (simp add: alive_def todo)
  have "po_exec p' = po_exec p" "po_done p' = po_done p" "po_fault p' = po_fault p"
    by (simp_all add: p')
  with inv alive_ok_cong [OF m, of layer "po_done p" "po_exec p"] show ?thesis
    by (simp add: pool_inv_def)
next
  case Start
  from step Start obtain j js where q: "po_queue p = j # js"
    and p': "p' = p\<lparr>po_queue := js, po_running := po_running p @ [j]\<rparr>"
    by (auto simp: pool_start_def split: list.splits if_splits)
  then have m: "mset (alive p') = mset (alive p)" by (simp add: alive_def)
  have "po_exec p' = po_exec p" "po_done p' = po_done p" "po_fault p' = po_fault p"
    by (simp_all add: p')
  with inv alive_ok_cong [OF m, of layer "po_done p" "po_exec p"] show ?thesis
    by (simp add: pool_inv_def)
next
  case (Attempt i)
  with step have i: "i < length (po_running p)" by (simp add: pool_attempt_def split: if_splits)
  let ?j = "po_running p ! i"
  let ?s = "jb_step ?j"
  obtain rest where al: "mset (alive p) = mset ((?s, jb_attempt ?j) # rest)"
    and gone: "\<And>q. po_todo q = po_todo p \<Longrightarrow> po_queue q = po_queue p \<Longrightarrow>
      po_running q = remove_at i (po_running p) \<Longrightarrow> mset (alive q) = mset rest"
    and kept: "\<And>q j. po_todo q = po_todo p \<Longrightarrow> po_queue q = po_queue p \<Longrightarrow>
      po_running q = (po_running p)[i := j] \<Longrightarrow> mset (alive q) = mset ((jb_step j, jb_attempt j) # rest)"
    using alive_attempt [OF i] by metis
  obtain st' r where w: "worker_step en (jb_task ?j) ?s (jb_context ?j) False
      (jb_attempt ?j) (jb_error ?j) (po_exec p) = (st', r)" by force
  have ok: "alive_ok layer ((?s, jb_attempt ?j) # rest) (po_done p) (po_exec p)"
    using inv alive_ok_cong [OF al, of layer "po_done p" "po_exec p"] by (simp add: pool_inv_def)
  then have s: "?s \<in> set layer" and at: "worker_at ?s (jb_attempt ?j) (po_exec p)"
    using alive_ok_inv by blast+
  have running: "status_of (po_exec p) (st_id ?s) = RUNNING"
    using at by (simp add: worker_at_def step_view_def)
  note view = worker_step_view [OF w]
  have other: "step_view st' sid = step_view st0 sid" if "sid \<notin> st_id ` set layer" for sid
  proof -
    have "sid \<noteq> st_id ?s" using that s by auto
    with view that inv show ?thesis by (simp add: pool_inv_def)
  qed
  note step_ok = alive_ok_step [OF ok layer(2) w] and acc = worker_step_accounts [OF w at]
  have run': "run_inv steps st'" if new: "step_inv ?s st'" and
      st: "status_of st' (st_id ?s) \<in> {RUNNING, COMPLETED, FAILED}"
  proof (rule run_inv_change [OF _ dist _ _ view new])
    show "run_inv steps (po_exec p)" using inv by (simp add: pool_inv_def)
    show "?s \<in> set steps" using s layer(1) by blast
    show ns: "\<not> settled (po_exec p) (st_id ?s)" using running by (simp add: settled_def)
    show "gate ?s st'"
    proof (rule gate_frame)
      show "gate ?s (po_exec p)" using inv s layer(1) by (auto simp: pool_inv_def run_inv_def)
      show "step_view st' d = step_view (po_exec p) d" if "settled (po_exec p) d" for d
        using view ns that by metis
    qed (use running st in auto)
  qed
  show ?thesis
  proof (cases r)
    case (Continue k err)
    with acc have at': "worker_at ?s k st'" by simp
    then have "status_of st' (st_id ?s) = RUNNING" by (simp add: worker_at_def step_view_def)
    with run' worker_at_inv [OF at'] have run'': "run_inv steps st'" by simp
    have p': "p' = p\<lparr>po_running := (po_running p)[i := ?j\<lparr>jb_attempt := k, jb_error := err\<rparr>],
        po_exec := st'\<rparr>"
      using step Attempt i w Continue by (simp add: pool_attempt_def)
    then have "mset (alive p') = mset ((?s, k) # rest)"
      using kept [of p' "?j\<lparr>jb_attempt := k, jb_error := err\<rparr>"] by simp
    from alive_ok_cong [OF this, of layer "po_done p" st'] step_ok Continue p' inv run'' other show ?thesis
      by (simp add: pool_inv_def)
  next
    case (Finish q)
    have p': "p' = p\<lparr>po_running := remove_at i (po_running p), po_done := dset (st_id ?s) q (po_done p),
        po_exec := st'\<rparr>"
      using step Attempt i w Finish by (simp add: pool_attempt_def)
    then have m: "mset (alive p') = mset rest" using gone [of p'] by simp
    show ?thesis
    proof (cases q)
      case (Inl e)
      with acc Finish run s layer(1) show ?thesis by (force simp: runnable_steps_def)
    next
      case (Inr b)
      with acc Finish worker_step_status(2) [OF w] have "run_inv steps st'"
        by (intro run') (auto split: if_splits)
      with alive_ok_cong [OF m, of layer "dset (st_id ?s) q (po_done p)" st'] step_ok Finish p' inv other show ?thesis by (simp add: pool_inv_def)
    qed
  qed
qed

lemma pool_inv_start:
  assumes inv: "pass_inv steps ps" and dist: "distinct (map st_id steps)"
  shows "pool_inv steps (ps_runnable ps) (ps_exec ps)
           (start_pool (ps_runnable ps) (mark_running (ps_runnable ps) (ps_exec ps)))"
proof -
  let ?st = "mark_running (ps_runnable ps) (ps_exec ps)" and ?l = "ps_runnable ps"
  have frame: "step_view ?st d = step_view (ps_exec ps) d" if "settled (ps_exec ps) d" for d
    using that inv by (auto simp: pass_inv_def settled_def)
  have at: "worker_at s 0 ?st" if s: "s \<in> set ?l" for s
  proof -
    have "step_view (ps_exec ps) (st_id s) = (PENDING, None, 0, 0, None, [])"
      using inv s by (intro pass_inv_pending_view(2) [OF inv]) (simp_all add: pass_inv_def)
    with s show ?thesis by (simp add: worker_at_def)
  qed
  have "step_inv s ?st \<and> gate s ?st" if s: "s \<in> set steps" for s
  proof (cases "s \<in> set ?l")
    case True
    then have "gate s ?st"
      using inv pass_inv_resolved [OF inv] frame at [OF True]
      by (intro gate_start [of "ps_resolved ps" s "ps_exec ps"])
         (auto simp: pass_inv_def worker_at_def step_view_def)
    with at [OF True] show ?thesis by (simp add: worker_at_inv)
  next
    case False
    have "st_id s \<notin> st_id ` set ?l"
      using False inv s distinct_map_inj [OF dist s] by (auto simp: pass_inv_def)
    then have v: "step_view ?st (st_id s) = step_view (ps_exec ps) (st_id s)" by simp
    have "gate s (ps_exec ps)" using inv s by (simp add: pass_inv_def run_inv_def)
    then have "gate s ?st" using frame by (rule gate_frame) (simp_all only: view_components(1) [OF v] simp_thms)
    with v inv s show ?thesis by (simp add: pass_inv_def run_inv_def step_inv_def)
  qed
  then have "run_inv steps ?st" by (simp add: run_inv_def)
  moreover have "alive_ok ?l (alive (start_pool ?l ?st)) [] ?st"
    using inv at by (auto simp: alive_ok_def alive_def start_pool_def pass_inv_def comp_def image_image)
  ultimately show ?thesis by (simp add: pool_inv_def start_pool_def)
qed

text \<open>A pool with at least one worker runs until every step of the layer has an outcome.\<close>

lemma drain_done:
  assumes "1 \<le> limit"
  shows "po_todo (drain en limit p) = [] \<and> po_queue (drain en limit p) = []
    \<and> po_running (drain en limit p) = []"
  using assms(1)
proof (induction en limit p rule: drain.induct)
  case (1 en limit p)
  show ?case
  proof (cases "pool_step en limit (default_choice limit p) p")
    case (Some p')
    with 1 show ?thesis by (simp add: drain.simps [of en limit p])
  next
    case None
    have "po_todo p = []"
      using None by (cases "po_todo p") (auto simp: default_choice_def pool_submit_def split: option.splits)
    moreover have "po_running p = []"
    proof (rule ccontr)
      assume "po_running p \<noteq> []"
      with None \<open>po_todo p = []\<close> "1.prems" show False
        by (auto simp: default_choice_def pool_start_def pool_attempt_def Let_def
              split: list.splits if_splits prod.splits progress.splits)
    qed
    moreover from calculation have "po_queue p = []"
      using None "1.prems" by (auto simp: default_choice_def pool_start_def split: list.splits if_splits)
    ultimately show ?thesis using None by (simp add: drain.simps [of en limit p])
  qed
qed


section \<open>Rounds\<close>

lemma parallel_limit_pos: "is_parallel en \<Longrightarrow> 0 < n \<Longrightarrow> 1 \<le> parallel_limit en n"
  by (auto simp: is_parallel_def parallel_limit_def split: option.splits)

lemma run_pool_done:
  fixes choices
  assumes "is_parallel en" and "pass_inv steps ps" and "distinct (map st_id steps)"
    and "runnable_steps en steps" and "ps_runnable ps \<noteq> []"
  defines "p \<equiv> run_pool en choices (ps_runnable ps) (ps_exec ps)"
  shows "pool_inv steps (ps_runnable ps) (ps_exec ps) p" and "alive p = []"
proof -
  have layer: "set (ps_runnable ps) \<subseteq> set steps" "distinct (map st_id (ps_runnable ps))"
    using assms(2) by (auto simp: pass_inv_def)
  show "pool_inv steps (ps_runnable ps) (ps_exec ps) p"
    unfolding p_def
  proof (rule run_pool_induct)
    show "pool_inv steps (ps_runnable ps) (ps_exec ps)
        (start_pool (ps_runnable ps) (mark_running (ps_runnable ps) (ps_exec ps)))"
      by (rule pool_inv_start [OF assms(2,3)])
  qed (rule pool_inv_step [OF _ _ assms(3) layer assms(4)])
  have "1 \<le> parallel_limit en (length (ps_runnable ps))"
    using assms(1,5) by (intro parallel_limit_pos) simp_all
  from drain_done [OF this] show "alive p = []" by (simp add: p_def run_pool_def Let_def alive_def)
qed

lemma alive_ok_Nil:
  assumes "alive_ok layer [] out st" and "s \<in> set layer" and "st_retries s \<le> 1024"
  shows "\<exists>b. dget out (st_id s) = Some (Inr b)
    \<and> status_of st (st_id s) = (if b then COMPLETED else FAILED)"
proof -
  have "case dget out (st_id s) of None \<Rightarrow> st_id s \<in> st_id ` fst ` set ([] :: (step_config \<times> nat) list)
      | Some (Inr b) \<Rightarrow> status_of st (st_id s) = (if b then COMPLETED else FAILED)
      | Some (Inl e) \<Rightarrow> 1024 < st_retries s"
    using assms(1,2) unfolding alive_ok_def by blast
  with assms(3) show ?thesis by (auto split: option.splits sum.splits)
qed

lemma first_exception_None:
  "\<forall>s \<in> set ss. \<forall>e. dget out (st_id s) \<noteq> Some (Inl e) \<Longrightarrow> first_exception ss out = None"
  by (induction ss) (auto split: option.splits sum.splits)

lemma run_parallel_inv:
  assumes par: "is_parallel en" and inv: "pass_inv steps ps" and dist: "distinct (map st_id steps)"
    and run: "runnable_steps en steps" and ne: "ps_runnable ps \<noteq> []"
  obtains st' where "run_parallel en choices (ps_runnable ps) (ps_exec ps) = (st', None)"
    and "run_inv steps st'"
    and "\<And>s. s \<in> set (ps_runnable ps) \<Longrightarrow> status_of st' (st_id s) \<in> {COMPLETED, FAILED}"
    and "\<And>sid. sid \<notin> st_id ` set (ps_runnable ps) \<Longrightarrow> step_view st' sid = step_view (ps_exec ps) sid"
proof -
  let ?l = "ps_runnable ps"
  let ?p = "run_pool en choices ?l (ps_exec ps)"
  note pool = run_pool_done [OF par inv dist run ne, of choices]
  have sub: "set ?l \<subseteq> set steps" using inv by (auto simp: pass_inv_def)
  have out: "\<exists>b. dget (po_done ?p) (st_id s) = Some (Inr b)
      \<and> status_of (po_exec ?p) (st_id s) = (if b then COMPLETED else FAILED)" if s: "s \<in> set ?l" for s
  proof -
    have "alive_ok ?l [] (po_done ?p) (po_exec ?p)" using pool by (simp add: pool_inv_def)
    moreover have "st_retries s \<le> 1024" using run sub s by (auto simp: runnable_steps_def)
    ultimately show ?thesis using s by (intro alive_ok_Nil)
  qed
  have "first_exception ?l (po_done ?p) = None"
    using out by (intro first_exception_None) fastforce
  with pool have rp: "run_parallel en choices ?l (ps_exec ps) = (publish en (po_done ?p) ?l (po_exec ?p), None)"
    by (simp add: run_parallel_def Let_def pool_inv_def)
  show ?thesis
  proof (rule that [OF rp])
    let ?st' = "publish en (po_done ?p) ?l (po_exec ?p)"
    have v: "step_view ?st' sid = step_view (po_exec ?p) sid" for sid by simp
    have r: "run_inv steps (po_exec ?p)" using pool by (simp add: pool_inv_def)
    have "gate s ?st'" if "s \<in> set steps" for s
      by (rule gate_frame [of s "po_exec ?p"]) (use r that in \<open>simp_all add: run_inv_def\<close>)
    with r show "run_inv steps ?st'" by (simp add: run_inv_def step_inv_def)
    show "status_of ?st' (st_id s) \<in> {COMPLETED, FAILED}" if "s \<in> set ?l" for s
      using out [OF that] by (auto split: if_splits)
    show "step_view ?st' sid = step_view (ps_exec ps) sid" if "sid \<notin> st_id ` set ?l" for sid
      using pool that by (simp add: pool_inv_def)
  qed
qed

lemma set_add_ids: "set (add_ids ss ids) = st_id ` set ss \<union> set ids"
  by (induction ss arbitrary: ids) (auto simp: add_ids_def)

lemma distinct_add_ids: "distinct ids \<Longrightarrow> distinct (add_ids ss ids)"
  by (induction ss arbitrary: ids) (auto simp: add_ids_def)

lemma pass_inv_start:
  "pass_inv steps ps \<Longrightarrow> pass_inv steps (start_pass (ps_resolved ps) (ps_exec ps))"
  by (simp add: pass_inv_def start_pass_def)

lemma exec_round_inv:
  assumes steps: "steps = wf_steps (en_config en)"
    and inv: "pass_inv steps (start_pass resolved st)" and dist: "distinct (map st_id steps)"
    and run: "runnable_steps en steps"
  obtains ps where "exec_round en choices resolved st = (ps, None)"
    and "pass_inv steps (start_pass (ps_resolved ps) (ps_exec ps))"
proof (cases "is_parallel en")
  case False
  obtain ps r where leg: "run_legacy_yaml_order en steps (start_pass resolved st) = (ps, r)" by force
  from legacy_inv [OF inv _ dist subset_refl run, of] leg have "r = None" "pass_inv steps ps"
    by (simp_all add: start_pass_def)
  with leg False steps show ?thesis
    by (intro that [of ps] pass_inv_start) (simp_all add: exec_round_def)
next
  case True
  define ps where "ps = collect_runnable en steps (start_pass resolved st)"
  have pinv: "pass_inv steps ps"
    unfolding ps_def using inv dist by (intro collect_inv) (simp_all add: start_pass_def)
  show ?thesis
  proof (cases "ps_runnable ps = []")
    case Nil: True
    with True steps show ?thesis
      by (intro that [of ps] pass_inv_start pinv) (simp add: exec_round_def ps_def Let_def)
  next
    case False
    obtain st' where rp: "run_parallel en choices (ps_runnable ps) (ps_exec ps) = (st', None)"
      and r: "run_inv steps st'"
      and fin: "\<And>s. s \<in> set (ps_runnable ps) \<Longrightarrow> status_of st' (st_id s) \<in> {COMPLETED, FAILED}"
      and frame: "\<And>sid. sid \<notin> st_id ` set (ps_runnable ps) \<Longrightarrow> step_view st' sid = step_view (ps_exec ps) sid"
      using run_parallel_inv [OF True pinv dist run False] by blast
    let ?ps = "ps\<lparr>ps_resolved := add_ids (ps_runnable ps) (ps_resolved ps), ps_progress := True, ps_exec := st'\<rparr>"
    have settled: "settled st' sid \<longleftrightarrow> sid \<in> st_id ` set (ps_runnable ps) \<or> settled (ps_exec ps) sid" for sid
      using fin frame [of sid] view_settled [of st' sid "ps_exec ps"]
      by (cases "sid \<in> st_id ` set (ps_runnable ps)") (auto simp: settled_def)
    have sub: "st_id ` set (ps_runnable ps) \<subseteq> st_id ` set steps"
      using pinv by (auto simp: pass_inv_def)
    have fin': "status_of st' sid \<in> {COMPLETED, FAILED}" if "sid \<in> st_id ` set (ps_runnable ps)" for sid
      using fin that by blast
    have running: "status_of st' (st_id s) \<noteq> RUNNING" if "s \<in> set steps" for s
      using pinv that fin' [of "st_id s"] frame [of "st_id s"] view_components(1) [of st' "st_id s" "ps_exec ps"]
      by (cases "st_id s \<in> st_id ` set (ps_runnable ps)") (auto simp: pass_inv_def)
    have "set (add_ids (ps_runnable ps) (ps_resolved ps)) = {sid \<in> st_id ` set steps. settled st' sid}"
      using pinv sub by (auto simp: set_add_ids settled pass_inv_def)
    with pinv r running have "pass_inv steps (start_pass (ps_resolved ?ps) (ps_exec ?ps))"
      by (simp add: pass_inv_def start_pass_def distinct_add_ids)
    moreover have "exec_round en choices resolved st = (?ps, None)"
      using True steps False rp by (simp add: exec_round_def ps_def Let_def)
    ultimately show ?thesis by (intro that)
  qed
qed

text \<open>A round without progress had no step to start.\<close>

definition startable :: "step_config list \<Rightarrow> 'w pass \<Rightarrow> bool" where
  "startable ss ps \<longleftrightarrow>
     (\<exists>s \<in> set ss. status_of (ps_exec ps) (st_id s) = PENDING \<and> is_ready (ps_resolved ps) s)"

lemma legacy_progress_mono:
  "ps_progress ps \<Longrightarrow> ps_progress (fst (run_legacy_yaml_order en ss ps))"
  by (rule legacy_induct [where P = ps_progress])
     (auto simp: legacy_body_def resolve_skipped_def split: prod.splits option.splits)

lemma legacy_progress:
  assumes "run_legacy_yaml_order en ss ps = (ps', None)" and "startable ss ps"
  shows "ps_progress ps'"
  using assms
proof (induction ss arbitrary: ps)
  case Nil
  then show ?case by (simp add: startable_def)
next
  case (Cons s ss)
  then obtain ps1 where b: "legacy_body en s ps = (ps1, None)"
    and rest: "run_legacy_yaml_order en ss ps1 = (ps', None)"
    by (auto split: prod.splits option.splits)
  show ?case
  proof (cases "status_of (ps_exec ps) (st_id s) = PENDING \<and> is_ready (ps_resolved ps) s")
    case True
    with b have "ps_progress ps1"
      by (auto simp: legacy_body_def resolve_skipped_def split: if_splits prod.splits option.splits)
    from legacy_progress_mono [OF this, of en ss] rest show ?thesis by simp
  next
    case False
    with b have "ps1 = ps" by (auto simp: legacy_body_def split: if_splits)
    moreover have "startable ss ps" using False Cons.prems(2) by (auto simp: startable_def)
    ultimately show ?thesis using Cons.IH rest by simp
  qed
qed

lemma collect_progress_mono:
  "ps_progress ps \<or> ps_runnable ps \<noteq> [] \<Longrightarrow>
     ps_progress (collect_runnable en ss ps) \<or> ps_runnable (collect_runnable en ss ps) \<noteq> []"
  by (rule collect_induct [where P = "\<lambda>ps. ps_progress ps \<or> ps_runnable ps \<noteq> []"])
     (auto simp: collect_body_def resolve_skipped_def)

lemma collect_progress:
  "startable ss ps \<Longrightarrow>
     ps_progress (collect_runnable en ss ps) \<or> ps_runnable (collect_runnable en ss ps) \<noteq> []"
proof (induction ss arbitrary: ps)
  case Nil
  then show ?case by (simp add: startable_def)
next
  case (Cons s ss)
  show ?case
  proof (cases "status_of (ps_exec ps) (st_id s) = PENDING \<and> is_ready (ps_resolved ps) s")
    case True
    then have "ps_progress (collect_body en s ps) \<or> ps_runnable (collect_body en s ps) \<noteq> []"
      by (auto simp: collect_body_def resolve_skipped_def)
    from collect_progress_mono [OF this, of en ss] show ?thesis by simp
  next
    case False
    then have "collect_body en s ps = ps" by (auto simp: collect_body_def)
    moreover have "startable ss ps" using False Cons.prems by (auto simp: startable_def)
    ultimately show ?thesis using Cons.IH by simp
  qed
qed

lemma exec_round_progress:
  assumes "exec_round en choices resolved st = (ps, None)"
    and "startable (wf_steps (en_config en)) (start_pass resolved st)"
  shows "ps_progress ps"
proof (cases "is_parallel en")
  case False
  with assms show ?thesis by (auto simp: exec_round_def intro: legacy_progress)
next
  case True
  with assms(1) collect_progress [OF assms(2), of en] show ?thesis
    by (auto simp: exec_round_def Let_def split: if_splits prod.splits option.splits)
qed


section \<open>The whole run\<close>

lemma wf_dep_rel: "acyclic (dep_rel steps) \<Longrightarrow> wf (dep_rel steps)"
  by (simp add: finite_acyclic_wf finite_dep_rel)

text \<open>As long as a step is pending, some pending step has all its dependencies settled.\<close>

lemma pending_startable:
  assumes inv: "pass_inv steps (start_pass resolved st)" and known: "known_deps steps"
    and acyc: "acyclic (dep_rel steps)"
    and s: "s \<in> set steps" "status_of st (st_id s) = PENDING"
  shows "startable steps (start_pass resolved st)"
proof -
  let ?Q = "{sid \<in> st_id ` set steps. status_of st sid = PENDING}"
  have "st_id s \<in> ?Q" using s by simp
  with wf_dep_rel [OF acyc] obtain z where z: "z \<in> ?Q"
    and min: "\<And>y. (y, z) \<in> dep_rel steps \<Longrightarrow> y \<notin> ?Q"
    by (metis (no_types, lifting) wfE_min)
  from z obtain x where x: "x \<in> set steps" "st_id x = z" "status_of st z = PENDING" by auto
  have "d \<in> set resolved" if d: "d \<in> set (step_deps x)" for d
  proof -
    have ids: "d \<in> st_id ` set steps"
      using known d x(1) by (auto simp: known_deps_def step_ids_def)
    have "(d, z) \<in> dep_rel steps" using d x by (auto simp: dep_rel_def)
    with min ids have "status_of st d \<noteq> PENDING" by blast
    moreover have "status_of st d \<noteq> RUNNING"
      using inv ids by (auto simp: pass_inv_def start_pass_def)
    ultimately show ?thesis
      using inv ids by (simp add: pass_inv_def start_pass_def settled_iff)
  qed
  then have "is_ready resolved x" by (auto simp: is_ready_iff)
  with x show ?thesis by (auto simp: startable_def start_pass_def)
qed

lemma all_resolved_settled:
  assumes inv: "pass_inv steps (start_pass resolved st)" and dist: "distinct (map st_id steps)"
    and len: "length steps \<le> length resolved" and s: "s \<in> set steps"
  shows "settled st (st_id s)"
proof -
  have res: "distinct resolved" "set resolved = {sid \<in> st_id ` set steps. settled st sid}"
    using inv by (simp_all add: pass_inv_def start_pass_def)
  have "card (st_id ` set steps) = length steps"
    using dist distinct_card [of "map st_id steps"] by simp
  moreover have "card (set resolved) = length resolved" using res(1) by (rule distinct_card)
  moreover have "set resolved \<subseteq> st_id ` set steps" using res(2) by auto
  ultimately have "set resolved = st_id ` set steps"
    using len by (intro card_seteq) auto
  with res(2) s show ?thesis by auto
qed

lemma exec_loop_done:
  assumes "pass_inv (wf_steps (en_config en)) (start_pass resolved st)"
    and "wf_workflow (en_config en)" and "runnable_steps en (wf_steps (en_config en))"
  shows "\<exists>st'. exec_loop en scheds n resolved st = (st', None)
    \<and> run_inv (wf_steps (en_config en)) st'
    \<and> (\<forall>s \<in> set (wf_steps (en_config en)). settled st' (st_id s))"
  using assms
proof (induction en scheds n resolved st rule: exec_loop.induct)
  case (1 en scheds n resolved st)
  let ?steps = "wf_steps (en_config en)"
  have wf: "distinct (map st_id ?steps)" "known_deps ?steps" "acyclic (dep_rel ?steps)"
    using "1.prems"(2) by (simp_all add: wf_workflow_def step_ids_def)
  have run: "run_inv ?steps st" using "1.prems"(1) by (simp add: pass_inv_def start_pass_def)
  show ?case
  proof (cases "length resolved < length ?steps")
    case False
    with all_resolved_settled [OF "1.prems"(1) wf(1)] run show ?thesis
      by (simp add: exec_loop.simps [of en scheds n resolved st])
  next
    case True
    obtain ps where round: "exec_round en (scheds n) resolved st = (ps, None)"
      and inv: "pass_inv ?steps (start_pass (ps_resolved ps) (ps_exec ps))"
      using exec_round_inv [OF refl "1.prems"(1) wf(1) "1.prems"(3)] by blast
    show ?thesis
    proof (cases "ps_progress ps")
      case prog: True
      from "1.IH" [OF True round [symmetric] refl prog inv "1.prems"(2,3)] True round prog
      show ?thesis by (simp add: exec_loop.simps [of en scheds n resolved st])
    next
      case False
      have pend: "status_of st (st_id s) \<noteq> PENDING" if "s \<in> set ?steps" for s
        using False exec_round_progress [OF round] pending_startable [OF "1.prems"(1) wf(2,3) that]
        by blast
      then have "filter (\<lambda>s. status_of st (st_id s) = PENDING) ?steps = []"
        by (auto simp: filter_empty_conv)
      have "settled st (st_id s)" if "s \<in> set ?steps" for s
        using pend [OF that] that "1.prems"(1) by (simp add: pass_inv_def start_pass_def settled_iff)
      then have "set resolved = st_id ` set ?steps"
        using "1.prems"(1) by (auto simp: pass_inv_def start_pass_def)
      moreover have "distinct resolved" using "1.prems"(1) by (simp add: pass_inv_def start_pass_def)
      ultimately have "length resolved = length ?steps"
        using wf(1) by (metis distinct_card length_map set_map)
      with True show ?thesis by simp
    qed
  qed
qed

lemma init_views: "step_view (init_exec config tr w) sid = (PENDING, None, 0, 0, None, [])"
  by (simp add: init_exec_def view_defs get_default_def dget_dict_of_const split: option.splits)

lemma init_pass_inv: "pass_inv steps (start_pass [] (init_exec config tr w))"
proof -
  have "status_of (init_exec config tr w) sid = PENDING" for sid
    using init_views [of config tr w sid] by (simp add: step_view_def)
  then show ?thesis
    by (simp add: pass_inv_def start_pass_def run_inv_def step_inv_def init_views gate_def settled_def)
qed

lemma pass_inv_view_cong:
  assumes inv: "pass_inv steps (start_pass resolved st)" and v: "\<And>sid. step_view st' sid = step_view st sid"
  shows "pass_inv steps (start_pass resolved st')"
proof -
  have s: "status_of st' sid = status_of st sid" "settled st' sid = settled st sid" for sid
    using view_components(1) [OF v] view_settled [OF v] by blast+
  have "gate s st'" if "s \<in> set steps" for s
  proof (rule gate_frame)
    show "gate s st" using inv that by (simp add: pass_inv_def start_pass_def run_inv_def)
  qed (simp_all add: v s)
  with inv show ?thesis by (simp add: pass_inv_def start_pass_def run_inv_def step_inv_def v s)
qed

lemma validate_registry_None_iff:
  "validate_registry en = None \<longleftrightarrow>
     (\<forall>s \<in> set (wf_steps (en_config en)). dget (en_registry en) (st_task s) \<noteq> None)"
  by (auto simp: validate_registry_def Let_def filter_empty_conv)

lemma execute_done:
  assumes "wf_workflow (en_config en)" and "runnable_steps en (wf_steps (en_config en))"
  obtains st' where "execute en scheds (init_exec (en_config en) tr w) =
      (trace_event ''run.finished'' None None [(''status'', PyStr (overall_status st'))] st', None)"
    and "exec_loop en scheds 0 [] (trace_event ''run.started'' None None []
           (init_exec (en_config en) tr w)) = (st', None)"
    and "run_inv (wf_steps (en_config en)) st'"
    and "\<forall>s \<in> set (wf_steps (en_config en)). settled st' (st_id s)"
proof -
  let ?st = "trace_event ''run.started'' None None [] (init_exec (en_config en) tr w)"
  have "pass_inv (wf_steps (en_config en)) (start_pass [] ?st)"
    by (rule pass_inv_view_cong [OF init_pass_inv]) simp
  from exec_loop_done [OF this assms] obtain st' where
    "exec_loop en scheds 0 [] ?st = (st', None)" "run_inv (wf_steps (en_config en)) st'"
    "\<forall>s \<in> set (wf_steps (en_config en)). settled st' (st_id s)" by blast
  moreover have "validate_registry en = None"
    using assms(2) by (simp add: validate_registry_None_iff runnable_steps_def)
  ultimately show ?thesis by (intro that [of st']) (simp_all add: execute_def)
qed


section \<open>Elementary state changes\<close>

text \<open>
  Every state \<open>execute\<close> passes through is reached by these changes alone, so that what
  they keep holds throughout, for every mode and every schedule.
\<close>

inductive change :: "'w engine \<Rightarrow> 'w exec \<Rightarrow> 'w exec \<Rightarrow> bool" for en where
  change_status: "s \<in> set (wf_steps (en_config en)) \<Longrightarrow> change en st (set_status (st_id s) x st)"
| change_trace: "change en st (trace_event k so a d st)"
| change_hook: "change en st (emit_hook en s st)"
| change_worker: "s \<in> set (wf_steps (en_config en)) \<Longrightarrow>
    worker_step en t s ctx tr k err st = (st', r) \<Longrightarrow> change en st st'"

abbreviation changes :: "'w engine \<Rightarrow> 'w exec \<Rightarrow> 'w exec \<Rightarrow> bool" where
  "changes en \<equiv> (change en)\<^sup>*\<^sup>*"

lemma changes_trace: "changes en st st' \<Longrightarrow> changes en st (trace_event k so a d st')"
  by (meson change_trace rtranclp.rtrancl_into_rtrancl)

lemma changes_hook: "changes en st st' \<Longrightarrow> changes en st (emit_hook en s st')"
  by (meson change_hook rtranclp.rtrancl_into_rtrancl)

lemma changes_status:
  "changes en st st' \<Longrightarrow> s \<in> set (wf_steps (en_config en)) \<Longrightarrow> changes en st (set_status (st_id s) x st')"
  by (meson change_status rtranclp.rtrancl_into_rtrancl)

lemma changes_worker:
  "changes en st st' \<Longrightarrow> s \<in> set (wf_steps (en_config en)) \<Longrightarrow>
     worker_step en t s ctx tr k err st' = (st'', r) \<Longrightarrow> changes en st st''"
  by (meson change_worker rtranclp.rtrancl_into_rtrancl)

lemmas changes_intros = changes_trace changes_hook changes_status

lemma changes_finish_events: "changes en st st' \<Longrightarrow> changes en st (finish_events s b st')"
  by (simp add: finish_events_def Let_def changes_trace)

lemma changes_retry_events: "changes en st st' \<Longrightarrow> changes en st (retry_events s as st')"
  by (induction as arbitrary: st') (simp_all add: changes_trace)

lemma changes_retry_loop:
  "retry_loop en t s ctx tr k err st' = (st'', r) \<Longrightarrow> changes en st st' \<Longrightarrow>
     s \<in> set (wf_steps (en_config en)) \<Longrightarrow> changes en st st''"
proof (induction en t s ctx tr k err st' rule: retry_loop.induct)
  case (1 en t s ctx tr k err st')
  obtain st1 p where w: "worker_step en t s ctx tr k err st' = (st1, p)" by force
  show ?case
    using "1.IH" [OF w [symmetric]] "1.prems" w changes_worker [OF "1.prems"(2,3) w]
    by (cases p) (simp_all add: retry_loop.simps [of en t s ctx tr k err st'])
qed

lemma changes_run_step:
  assumes "run_step en s st' = (st'', r)" and "changes en st st'" and "s \<in> set (wf_steps (en_config en))"
  shows "changes en st st''"
proof -
  let ?st1 = "trace_event ''step.started'' (Some s) None [] (set_status (st_id s) RUNNING st')"
  have "changes en st ?st1" using assms(2,3) by (intro changes_intros)
  show ?thesis
  proof (cases "dget (en_registry en) (st_task s)")
    case None
    with assms(1) \<open>changes en st ?st1\<close> show ?thesis by (simp add: run_step_def Let_def)
  next
    case (Some t)
    obtain st2 q where rl: "retry_loop en t s (ex_results ?st1) True 0 [] ?st1 = (st2, q)" by force
    have "changes en st st2" by (rule changes_retry_loop [OF rl]) fact+
    with assms(1) Some rl show ?thesis
      by (cases q) (auto simp: run_step_def run_with_retry_def intro: changes_hook changes_finish_events)
  qed
qed

lemma changes_skip:
  "changes en st st' \<Longrightarrow> s \<in> set (wf_steps (en_config en)) \<Longrightarrow> changes en st (skip_step en s st')"
  unfolding skip_step_def by (intro changes_intros)

lemma changes_legacy:
  assumes "changes en st (ps_exec ps)" and "set ss \<subseteq> set (wf_steps (en_config en))"
  shows "changes en st (ps_exec (fst (run_legacy_yaml_order en ss ps)))"
proof (rule legacy_induct [where P = "\<lambda>ps. changes en st (ps_exec ps)", OF assms(1)])
  fix s and ps :: "'a pass" assume s: "s \<in> set ss" and ps: "changes en st (ps_exec ps)"
  with assms(2) have "s \<in> set (wf_steps (en_config en))" by blast
  with ps show "changes en st (ps_exec (fst (legacy_body en s ps)))"
    by (auto simp: legacy_body_def resolve_skipped_def intro: changes_skip changes_run_step
          split: prod.splits option.splits)
qed

lemma changes_collect:
  assumes "changes en st (ps_exec ps)" and "set ss \<subseteq> set (wf_steps (en_config en))"
  shows "changes en st (ps_exec (collect_runnable en ss ps))"
proof (rule collect_induct [where P = "\<lambda>ps. changes en st (ps_exec ps)", OF assms(1)])
  fix s and ps :: "'a pass" assume s: "s \<in> set ss" and ps: "changes en st (ps_exec ps)"
  with assms(2) have "s \<in> set (wf_steps (en_config en))" by blast
  with ps show "changes en st (ps_exec (collect_body en s ps))"
    by (auto simp: collect_body_def resolve_skipped_def intro: changes_skip)
qed

lemma changes_mark_running:
  "changes en st st' \<Longrightarrow> set ss \<subseteq> set (wf_steps (en_config en)) \<Longrightarrow> changes en st (mark_running ss st')"
  by (induction ss arbitrary: st') (simp_all add: changes_trace changes_status)

definition pool_steps :: "'w pool \<Rightarrow> step_config list" where
  "pool_steps p = po_todo p @ map jb_step (po_queue p) @ map jb_step (po_running p)"

lemma changes_pool_step:
  assumes "changes en st (po_exec p) \<and> set (pool_steps p) \<subseteq> set (wf_steps (en_config en))"
    and "pool_step en limit c p = Some p'"
  shows "changes en st (po_exec p') \<and> set (pool_steps p') \<subseteq> set (wf_steps (en_config en))"
proof (cases c)
  case Submit
  with assms show ?thesis
    by (auto simp: pool_submit_def pool_steps_def image_subset_iff split: list.splits option.splits)
next
  case Start
  with assms show ?thesis
    by (auto simp: pool_start_def pool_steps_def image_subset_iff split: list.splits if_splits)
next
  case (Attempt i)
  with assms have i: "i < length (po_running p)" by (simp add: pool_attempt_def split: if_splits)
  let ?j = "po_running p ! i"
  obtain st' r where w: "worker_step en (jb_task ?j) (jb_step ?j) (jb_context ?j) False
      (jb_attempt ?j) (jb_error ?j) (po_exec p) = (st', r)" by force
  have s: "jb_step ?j \<in> set (wf_steps (en_config en))"
    using assms(1) i by (auto simp: pool_steps_def)
  have ch: "changes en st st'" using assms(1) s w by (blast intro: changes_worker)
  have old: "set (po_todo p) \<subseteq> set (wf_steps (en_config en))"
    "set (map jb_step (po_queue p)) \<subseteq> set (wf_steps (en_config en))"
    "set (map jb_step (po_running p)) \<subseteq> set (wf_steps (en_config en))"
    using assms(1) by (simp_all add: pool_steps_def)
  have rm: "set (map jb_step (remove_at i (po_running p))) \<subseteq> set (wf_steps (en_config en))"
    using old(3) by (auto simp: remove_at_def dest: in_set_takeD in_set_dropD)
  have up: "set (map jb_step ((po_running p)[i := j])) \<subseteq> set (wf_steps (en_config en))"
    if "jb_step j = jb_step ?j" for j
  proof -
    have "map jb_step ((po_running p)[i := j]) = map jb_step (po_running p)"
      using i that by (simp add: map_update list_update_same_conv)
    with old(3) show ?thesis by (simp only:)
  qed
  show ?thesis
  proof (cases r)
    case (Continue k e)
    have "p' = p\<lparr>po_running := (po_running p)[i := ?j\<lparr>jb_attempt := k, jb_error := e\<rparr>], po_exec := st'\<rparr>"
      using assms(2) Attempt i w Continue by (simp add: pool_attempt_def)
    with ch old(1,2) up [of "?j\<lparr>jb_attempt := k, jb_error := e\<rparr>"] show ?thesis
      by (simp add: pool_steps_def)
  next
    case (Finish q)
    have "p' = p\<lparr>po_running := remove_at i (po_running p),
        po_done := dset (st_id (jb_step ?j)) q (po_done p), po_exec := st'\<rparr>"
      using assms(2) Attempt i w Finish by (simp add: pool_attempt_def)
    with ch old(1,2) rm show ?thesis by (simp add: pool_steps_def)
  qed
qed

lemma changes_publish: "changes en st st' \<Longrightarrow> changes en st (publish en out ss st')"
  by (induction ss arbitrary: st')
     (simp_all add: Let_def changes_hook changes_finish_events changes_retry_events)

lemma changes_run_parallel:
  assumes "run_parallel en choices ss st' = (st'', r)" and "changes en st st'"
    and "set ss \<subseteq> set (wf_steps (en_config en))"
  shows "changes en st st''"
proof -
  let ?p = "run_pool en choices ss st'"
  have "changes en st (po_exec ?p) \<and> set (pool_steps ?p) \<subseteq> set (wf_steps (en_config en))"
  proof (rule run_pool_induct [where P =
      "\<lambda>p. changes en st (po_exec p) \<and> set (pool_steps p) \<subseteq> set (wf_steps (en_config en))"])
    show "changes en st (po_exec (start_pool ss (mark_running ss st')))
      \<and> set (pool_steps (start_pool ss (mark_running ss st'))) \<subseteq> set (wf_steps (en_config en))"
      using assms(2,3) by (simp add: start_pool_def pool_steps_def changes_mark_running)
  qed (rule changes_pool_step)
  then have "changes en st (po_exec ?p)" by simp
  with assms(1) show ?thesis
    by (auto simp: run_parallel_def Let_def intro: changes_publish split: option.splits)
qed

lemma changes_round:
  assumes "exec_round en choices resolved st' = (ps, r)" and "changes en st st'"
  shows "changes en st (ps_exec ps)"
proof (cases "is_parallel en")
  case False
  with assms changes_legacy [of en st "start_pass resolved st'" "wf_steps (en_config en)"] show ?thesis
    by (simp add: exec_round_def start_pass_def)
next
  case True
  define c where "c = collect_runnable en (wf_steps (en_config en)) (start_pass resolved st')"
  have ch: "changes en st (ps_exec c)"
    unfolding c_def using assms(2) by (intro changes_collect) (simp_all add: start_pass_def)
  have "advanced (wf_steps (en_config en)) st' c"
    unfolding c_def by (rule collect_induct) (simp_all add: advanced_start advanced_collect_body)
  then have sub: "set (ps_runnable c) \<subseteq> set (wf_steps (en_config en))" by (auto simp: advanced_def)
  from assms(1) True ch changes_run_parallel [OF _ ch sub] show ?thesis
    by (auto simp: exec_round_def Let_def c_def [symmetric] split: if_splits prod.splits option.splits)
qed

lemma changes_exec_loop:
  "exec_loop en scheds n resolved st' = (st'', r) \<Longrightarrow> changes en st st' \<Longrightarrow> changes en st st''"
proof (induction en scheds n resolved st' rule: exec_loop.induct)
  case (1 en scheds n resolved st')
  obtain ps q where round: "exec_round en (scheds n) resolved st' = (ps, q)" by force
  note ch = changes_round [OF round "1.prems"(2)]
  show ?case
    using "1.prems" ch round "1.IH" [OF _ round [symmetric] _ _ _ ch]
    by (auto simp: exec_loop.simps [of en scheds n resolved st'] split: if_splits option.splits)
qed

lemma changes_execute:
  assumes "execute en scheds st = (st', r)"
  shows "changes en st st'"
proof -
  have "changes en st (trace_event ''run.started'' None None [] st)" by (intro changes_trace) simp
  with assms show ?thesis
    by (auto simp: execute_def intro: changes_trace changes_exec_loop split: option.splits prod.splits)
qed

text \<open>Rule induction for whole runs: what every elementary change keeps holds at the end.\<close>

lemma execute_induct:
  assumes "execute en scheds st = (st', r)" and "P st"
    and "\<And>st st'. P st \<Longrightarrow> change en st st' \<Longrightarrow> P st'"
  shows "P st'"
  using changes_execute [OF assms(1)] assms(2,3) by (rule rtranclp_induct)


section \<open>What every run keeps\<close>

lemma exec_field_simps [simp]:
  "ex_statuses (trace_event k so a d st) = ex_statuses st"
  "ex_statuses (emit_hook en s st) = ex_statuses st"
  "ex_sleeps (trace_event k so a d st) = ex_sleeps st"
  "ex_sleeps (emit_hook en s st) = ex_sleeps st"
  "ex_sleeps (set_status sid x st) = ex_sleeps st"
  "ex_trace (emit_hook en s st) = ex_trace st"
  "ex_trace (set_status sid x st) = ex_trace st"
  by (simp_all add: trace_event_def emit_hook_def set_status_def split: option.splits)

text \<open>The status dictionary has the workflow's step ids as its keys, in order.\<close>

definition status_keys :: "'w engine \<Rightarrow> 'w exec \<Rightarrow> bool" where
  "status_keys en st \<longleftrightarrow> dkeys (ex_statuses st) = map st_id (wf_steps (en_config en))"

lemma dkeys_dset_present: "k \<in> set (dkeys d) \<Longrightarrow> dkeys (dset k v d) = dkeys d"
  by (simp add: dkeys_dset)

lemma status_keys_set:
  "status_keys en st \<Longrightarrow> s \<in> set (wf_steps (en_config en)) \<Longrightarrow> status_keys en (set_status (st_id s) x st)"
  unfolding status_keys_def set_status_def by (simp add: dkeys_dset_present del: set_map) (simp add: dkeys_dset)

lemma status_keys_change: "status_keys en st \<Longrightarrow> change en st st' \<Longrightarrow> status_keys en st'"
proof (erule change.cases)
  fix s st1 t ctx tr k err st2 r
  assume "st = st1" "st' = st2" "s \<in> set (wf_steps (en_config en))"
    and w: "worker_step en t s ctx tr k err st1 = (st2, r)" and keys: "status_keys en st"
  then show "status_keys en st'"
    using status_keys_set [of en st1 s]
    by (auto simp: worker_step_def Let_def fail_step_def status_keys_def set_status_def trace_event_def
          split: if_splits sum.splits prod.splits)
qed (simp_all add: status_keys_set, simp_all add: status_keys_def)

lemma status_keys_init:
  "distinct (map st_id (wf_steps (en_config en))) \<Longrightarrow> status_keys en (init_exec (en_config en) tr w)"
  unfolding status_keys_def init_exec_def by (simp add: dict_of_distinct comp_def)

lemma overall_status_settled:
  assumes "status_keys en st" and "distinct (map st_id (wf_steps (en_config en)))"
    and "\<forall>s \<in> set (wf_steps (en_config en)). settled st (st_id s)"
  shows "overall_status st =
    (if \<exists>s \<in> set (wf_steps (en_config en)). status_of st (st_id s) = FAILED then ''failed'' else ''completed'')"
proof -
  have d: "distinct (dkeys (ex_statuses st))" using assms(1,2) by (simp only: status_keys_def)
  have "set (dvals (ex_statuses st)) = (\<lambda>sid. status_of st sid) ` set (dkeys (ex_statuses st))"
    using d by (force simp: status_of_def get_default_def image_iff)
  also have "\<dots> = (\<lambda>s. status_of st (st_id s)) ` set (wf_steps (en_config en))"
    using assms(1) by (simp only: status_keys_def set_map image_image)
  finally have v: "set (dvals (ex_statuses st)) = (\<lambda>s. status_of st (st_id s)) ` set (wf_steps (en_config en))" .
  then show ?thesis
    unfolding overall_status_def Let_def v list_all_iff
    using assms(3) by (auto simp: settled_def image_iff)
qed

text \<open>The trace numbers its events from 1 without gaps.\<close>

definition numbered_exec :: "'w exec \<Rightarrow> bool" where
  "numbered_exec st \<longleftrightarrow> (case ex_trace st of None \<Rightarrow> True | Some t \<Rightarrow> numbered t)"

lemma numbered_trace_event: "numbered_exec st \<Longrightarrow> numbered_exec (trace_event k so a d st)"
  by (simp add: numbered_exec_def trace_event_def split: option.splits)

lemma numbered_change: "numbered_exec st \<Longrightarrow> change en st st' \<Longrightarrow> numbered_exec st'"
proof (erule change.cases)
  fix s st1 t ctx tr k err st2 r
  assume "st = st1" "st' = st2" and w: "worker_step en t s ctx tr k err st1 = (st2, r)"
    and n: "numbered_exec st"
  then show "numbered_exec st'"
    by (auto simp: worker_step_def Let_def fail_step_def numbered_exec_def set_status_def trace_event_def
          split: if_splits sum.splits prod.splits option.splits)
qed (simp_all add: numbered_trace_event, simp_all add: numbered_exec_def)

text \<open>Every delay is at most the engine's maximum, and positive when the maximum is.\<close>

definition sleeps_ok :: "'w engine \<Rightarrow> 'w exec \<Rightarrow> bool" where
  "sleeps_ok en st \<longleftrightarrow> (\<forall>d \<in> set (ex_sleeps st). d \<le> en_max_backoff en \<and> min (1 / 2) (en_max_backoff en) \<le> d)"

lemma backoff_bounds:
  "backoff en k = Inr d \<Longrightarrow> d \<le> en_max_backoff en \<and> min (1 / 2) (en_max_backoff en) \<le> d"
proof -
  assume b: "backoff en k = Inr d"
  then have d: "d = min (1 / 2 * 2 ^ k) (en_max_backoff en)" by (simp add: backoff_def split: if_splits)
  have "(1 / 2 :: rat) \<le> 1 / 2 * 2 ^ k" by simp
  then have "min (1 / 2) (en_max_backoff en) \<le> d" unfolding d by (rule min.mono) simp
  with d show "d \<le> en_max_backoff en \<and> min (1 / 2) (en_max_backoff en) \<le> d" by simp
qed

lemma sleeps_change: "sleeps_ok en st \<Longrightarrow> change en st st' \<Longrightarrow> sleeps_ok en st'"
proof (erule change.cases)
  fix s st1 t ctx tr k err st2 r
  assume "st = st1" "st' = st2" and w: "worker_step en t s ctx tr k err st1 = (st2, r)"
    and n: "sleeps_ok en st"
  then show "sleeps_ok en st'"
    by (auto simp: worker_step_def Let_def fail_step_def sleeps_ok_def set_status_def trace_event_def
          dest: backoff_bounds split: if_splits sum.splits prod.splits)
qed (simp_all add: sleeps_ok_def)


section \<open>Tasks that only depend on their dependencies\<close>

definition outcome :: "'w engine \<Rightarrow> step_config \<Rightarrow> (string, pyval) dict \<Rightarrow> 'w \<Rightarrow> string + pyval" where
  "outcome en s context w =
     (case dget (en_registry en) (st_task s) of
        None \<Rightarrow> Inl []
      | Some t \<Rightarrow> snd (run_task en t s context w))"

text \<open>
  The outcome of a step's task is a function of its parameters and of the results of the
  steps it depends on: it does not look at other results or at the world (which it may
  still change).
\<close>

definition local_tasks :: "'w engine \<Rightarrow> bool" where
  "local_tasks en \<longleftrightarrow>
     (\<forall>s \<in> set (wf_steps (en_config en)). \<forall>ctx ctx' w w'.
        (\<forall>d \<in> set (step_deps s). dget ctx d = dget ctx' d)
        \<longrightarrow> outcome en s ctx w = outcome en s ctx' w')"

fun worker_view :: "step_config \<Rightarrow> string + pyval
    \<Rightarrow> step_status \<times> pyval option \<times> nat \<times> nat \<times> string option \<times> dead_letter list" where
  "worker_view s (Inr v) = (COMPLETED, Some v, 0, 1, None, [])"
| "worker_view s (Inl m) =
     (FAILED, None, step_work s, step_work s, Some m, [dead_entry s m (step_work s)])"

text \<open>What the results of its dependencies determine about a step.\<close>

definition final_view where
  "final_view en w s st =
     (if condition_fails s st then (SKIPPED, None, 0, 0, None, [])
      else worker_view s (outcome en s (ex_results st) w))"

definition denoted :: "'w engine \<Rightarrow> 'w \<Rightarrow> 'w exec \<Rightarrow> bool" where
  "denoted en w st \<longleftrightarrow>
     (\<forall>s \<in> set (wf_steps (en_config en)). settled st (st_id s)
        \<longrightarrow> step_view st (st_id s) = final_view en w s st)"

lemma local_outcome:
  assumes "local_tasks en" and "s \<in> set (wf_steps (en_config en))"
    and "\<And>d. d \<in> set (step_deps s) \<Longrightarrow> dget ctx d = dget ctx' d"
  shows "outcome en s ctx w = outcome en s ctx' w'"
  using assms unfolding local_tasks_def by blast

lemma final_view_cong:
  assumes "local_tasks en" and "s \<in> set (wf_steps (en_config en))"
    and "\<And>d. d \<in> set (step_deps s) \<Longrightarrow> result_of st d = result_of st' d"
  shows "final_view en w s st = final_view en w' s st'"
proof -
  have "condition_fails s st = condition_fails s st'" using assms(3) by (rule condition_fails_cong)
  moreover have "outcome en s (ex_results st) w = outcome en s (ex_results st') w'"
    using assms(3) by (intro local_outcome [OF assms(1,2)]) (simp add: result_of_def)
  ultimately show ?thesis by (simp add: final_view_def)
qed

lemma denoted_change:
  assumes loc: "local_tasks en" and inv: "run_inv (wf_steps (en_config en)) st"
    and den: "denoted en w st"
    and frame: "\<And>d. settled st d \<Longrightarrow> step_view st' d = step_view st d"
    and new: "\<And>s. s \<in> set (wf_steps (en_config en)) \<Longrightarrow> settled st' (st_id s) \<Longrightarrow> \<not> settled st (st_id s)
      \<Longrightarrow> step_view st' (st_id s) = final_view en w s st'"
  shows "denoted en w st'"
  unfolding denoted_def
proof (intro ballI impI)
  fix s assume s: "s \<in> set (wf_steps (en_config en))" and set': "settled st' (st_id s)"
  show "step_view st' (st_id s) = final_view en w s st'"
  proof (cases "settled st (st_id s)")
    case True
    then have "status_of st (st_id s) \<noteq> PENDING" by (auto simp: settled_def)
    with inv s have deps: "\<And>d. d \<in> set (step_deps s) \<Longrightarrow> settled st d"
      by (auto simp: run_inv_def gate_def)
    have "final_view en w s st' = final_view en w s st"
      using frame [OF deps] by (intro final_view_cong [OF loc s]) (blast intro: view_components(2))
    with den s True frame [OF True] show ?thesis by (simp add: denoted_def)
  next
    case False
    with new s set' show ?thesis by blast
  qed
qed

text \<open>A skipped step is denoted by the gate and the accounts.\<close>

lemma skipped_final_view:
  assumes "step_inv s st" and "gate s st" and "status_of st (st_id s) = SKIPPED"
  shows "step_view st (st_id s) = final_view en w s st"
proof -
  have "condition_fails s st" using assms(2,3) by (simp add: gate_def)
  moreover have "step_view st (st_id s) = (SKIPPED, None, 0, 0, None, [])"
    using assms(1,3) by (cases "step_view st (st_id s)") (auto simp: step_inv_def step_view_def)
  ultimately show ?thesis by (simp add: final_view_def)
qed

text \<open>A worker whose task always has the same outcome.\<close>

lemma worker_step_denotes:
  assumes w: "worker_step en t s ctx tr k err st = (st', r)" and at: "worker_at s k st"
    and const: "\<And>w. snd (run_task en t s ctx w) = out"
    and err: "0 < k \<Longrightarrow> out = Inl err" and nn: "0 \<le> st_retries s"
  shows "case r of Continue k' err' \<Rightarrow> out = Inl err'
    | Finish (Inr _) \<Rightarrow> step_view st' (st_id s) = worker_view s out
    | Finish (Inl _) \<Rightarrow> True"
proof -
  have v: "status_of st (st_id s) = RUNNING" "result_of st (st_id s) = None" "retry_count st (st_id s) = k"
    "attempt_count st (st_id s) = k" "error_of st (st_id s) = None" "dead_of st (st_id s) = []"
    "k \<le> step_work s"
    using at by (simp_all add: worker_at_def step_view_def)
  show ?thesis
  proof (cases "st_retries s + 1 \<le> int k")
    case True
    then have k: "0 < k" "k = step_work s" using nn v(7) by (auto simp: step_work_def)
    have "r = Finish (Inr False)" "st' = fail_step s err st"
      using w True by (simp_all add: worker_step_def)
    with v err k show ?thesis
      by (simp add: fail_step_def Let_def set_status_def view_defs dead_entry_def)
  next
    case False
    obtain w' oc where rt: "run_task en t s ctx (ex_world st) = (w', oc)" by force
    then have oc: "oc = out" using const [of "ex_world st"] by simp
    show ?thesis
    proof (cases out)
      case (Inl m)
      with w False rt oc show ?thesis
        by (auto simp: worker_step_def Let_def split: if_splits sum.splits)
    next
      case (Inr v')
      with err have "k = 0" by auto
      with w False rt oc Inr v show ?thesis
        by (auto simp: worker_step_def Let_def set_status_def view_defs)
    qed
  qed
qed

lemma retry_loop_denotes:
  assumes "retry_loop en t s ctx tr k err st = (st', Inr b)" and "worker_at s k st"
    and "\<And>w. snd (run_task en t s ctx w) = out"
    and "0 < k \<Longrightarrow> out = Inl err" and "0 \<le> st_retries s"
  shows "step_view st' (st_id s) = worker_view s out"
  using assms
proof (induction en t s ctx tr k err st rule: retry_loop.induct)
  case (1 en t s ctx tr k err st)
  obtain st1 p where w: "worker_step en t s ctx tr k err st = (st1, p)" by force
  note den = worker_step_denotes [OF w "1.prems"(2-5)] and acc = worker_step_accounts [OF w "1.prems"(2)]
  show ?case
  proof (cases p)
    case (Finish r)
    with "1.prems"(1) w den show ?thesis by (simp add: retry_loop.simps [of en t s ctx tr k err st])
  next
    case (Continue k' err')
    with "1.prems"(1) w have rl: "retry_loop en t s ctx tr k' err' st1 = (st', Inr b)"
      by (simp add: retry_loop.simps [of en t s ctx tr k err st])
    show ?thesis
      by (rule "1.IH" [OF w [symmetric] Continue rl]) (use acc den Continue "1.prems" in auto)
  qed
qed

lemma outcome_const:
  assumes "local_tasks en" and "s \<in> set (wf_steps (en_config en))"
    and "dget (en_registry en) (st_task s) = Some t"
    and "\<And>d. d \<in> set (step_deps s) \<Longrightarrow> dget ctx d = dget ctx' d"
  shows "snd (run_task en t s ctx w) = outcome en s ctx' w'"
  using local_outcome [OF assms(1,2,4), of w w'] assms(3) by (simp add: outcome_def)

lemma run_step_denotes:
  assumes rs: "run_step en s st = (st', None)" and loc: "local_tasks en"
    and s: "s \<in> set (wf_steps (en_config en))" and nn: "0 \<le> st_retries s"
    and pend: "step_view st (st_id s) = (PENDING, None, 0, 0, None, [])"
  shows "step_view st' (st_id s) = worker_view s (outcome en s (ex_results st) w)"
proof -
  let ?st1 = "trace_event ''step.started'' (Some s) None [] (set_status (st_id s) RUNNING st)"
  have at: "worker_at s 0 ?st1" using pend by (simp add: worker_at_def)
  from rs obtain t where t: "dget (en_registry en) (st_task s) = Some t"
    by (auto simp: run_step_def Let_def split: option.splits)
  obtain st2 q where rl: "retry_loop en t s (ex_results ?st1) True 0 [] ?st1 = (st2, q)" by force
  with rs t obtain b where q: "q = Inr b" and st': "st' = emit_hook en s (finish_events s b st2)"
    by (cases q) (auto simp: run_step_def run_with_retry_def)
  have "ex_results ?st1 = ex_results st" by (simp add: trace_event_def set_status_def)
  then have "snd (run_task en t s (ex_results ?st1) w'') = outcome en s (ex_results st) w" for w''
    by (intro outcome_const [OF loc s t]) simp
  from retry_loop_denotes [OF rl [unfolded q] at this _ nn] st' show ?thesis by simp
qed


lemma denoted_settle:
  assumes loc: "local_tasks en" and inv: "run_inv (wf_steps (en_config en)) st" and den: "denoted en w st"
    and dist: "distinct (map st_id (wf_steps (en_config en)))"
    and x: "x \<in> set (wf_steps (en_config en))" "\<not> settled st (st_id x)"
    and frame: "\<And>sid. sid \<noteq> st_id x \<Longrightarrow> step_view st' sid = step_view st sid"
    and new: "settled st' (st_id x) \<Longrightarrow> step_view st' (st_id x) = final_view en w x st'"
  shows "denoted en w st'"
proof (rule denoted_change [OF loc inv den])
  show "step_view st' d = step_view st d" if "settled st d" for d
    using that x(2) frame by metis
  show "step_view st' (st_id s) = final_view en w s st'"
    if s: "s \<in> set (wf_steps (en_config en))" "settled st' (st_id s)" "\<not> settled st (st_id s)" for s
  proof (cases "st_id s = st_id x")
    case True
    with dist s(1) x(1) have "s = x" by (rule distinct_map_inj)
    with s(2) new show ?thesis by simp
  next
    case False
    from view_settled [OF frame [OF False]] s(2,3) show ?thesis by simp
  qed
qed

lemma legacy_body_denoted:
  assumes inv: "pass_inv (wf_steps (en_config en)) ps" and empty: "ps_runnable ps = []"
    and wf: "wf_workflow (en_config en)" and s: "s \<in> set (wf_steps (en_config en))"
    and run: "runnable_steps en (wf_steps (en_config en))" and loc: "local_tasks en"
    and den: "denoted en w (ps_exec ps)"
  shows "denoted en w (ps_exec (fst (legacy_body en s ps)))"
proof (cases "status_of (ps_exec ps) (st_id s) = PENDING \<and> is_ready (ps_resolved ps) s")
  case False
  with den show ?thesis by (auto simp: legacy_body_def)
next
  case True
  then have pend: "status_of (ps_exec ps) (st_id s) = PENDING" and ready: "is_ready (ps_resolved ps) s"
    by simp_all
  let ?st' = "ps_exec (fst (legacy_body en s ps))"
  have dist: "distinct (map st_id (wf_steps (en_config en)))" and nn: "0 \<le> st_retries s"
    using wf s by (simp_all add: wf_workflow_def step_ids_def)
  have inv': "pass_inv (wf_steps (en_config en)) (fst (legacy_body en s ps))"
    and ok: "snd (legacy_body en s ps) = None"
    using legacy_body_inv [OF inv empty dist s run] by simp_all
  have rinv: "run_inv (wf_steps (en_config en)) (ps_exec ps)" using inv by (simp add: pass_inv_def)
  have new: "step_inv s ?st'" "gate s ?st'" using inv' s by (simp_all add: pass_inv_def run_inv_def)
  have ns: "\<not> settled (ps_exec ps) (st_id s)" using pend by (simp add: settled_def)
  show ?thesis
  proof (cases "condition_fails s (ps_exec ps)")
    case cf: True
    then have st': "?st' = skip_step en s (ps_exec ps)"
      using pend ready by (simp add: legacy_body_def resolve_skipped_def)
    show ?thesis
    proof (rule denoted_settle [OF loc rinv den dist s ns])
      show "step_view ?st' sid = step_view (ps_exec ps) sid" if "sid \<noteq> st_id s" for sid
        using that by (simp add: st')
      show "step_view ?st' (st_id s) = final_view en w s ?st'"
        by (rule skipped_final_view [OF new]) (simp add: st')
    qed
  next
    case cf: False
    obtain st1 where rs: "run_step en s (ps_exec ps) = (st1, None)" and st': "?st' = st1"
      using ok pend ready cf by (cases "run_step en s (ps_exec ps)") (auto simp: legacy_body_def split: option.splits)
    have frame: "step_view ?st' sid = step_view (ps_exec ps) sid" if "sid \<noteq> st_id s" for sid
      unfolding st' using rs that by (rule run_step_view)
    have status: "status_of ?st' (st_id s) \<in> {COMPLETED, FAILED}"
      using run_step_outcome(1) [OF rs pass_inv_pending_view(1) [OF inv s pend] pend] st' by simp
    show ?thesis
    proof (rule denoted_settle [OF loc rinv den dist s ns frame])
      have "\<not> condition_fails s ?st'" using new(2) status by (auto simp: gate_def)
      moreover have "outcome en s (ex_results (ps_exec ps)) w = outcome en s (ex_results ?st') w"
      proof (rule local_outcome [OF loc s])
        fix d assume "d \<in> set (step_deps s)"
        with ready inv have "settled (ps_exec ps) d" by (auto simp: is_ready_iff pass_inv_def)
        with ns frame [of d] show "dget (ex_results (ps_exec ps)) d = dget (ex_results ?st') d"
          using view_components(2) [of ?st' d "ps_exec ps"]
          by (cases "d = st_id s") (auto simp: result_of_def)
      qed
      ultimately show "step_view ?st' (st_id s) = final_view en w s ?st'"
        using run_step_denotes [OF rs loc s nn pass_inv_pending_view(2) [OF inv s pend], of w] st'
        by (simp add: final_view_def)
    qed
  qed
qed

lemma legacy_denoted:
  assumes "pass_inv (wf_steps (en_config en)) ps" and "ps_runnable ps = []" and "wf_workflow (en_config en)"
    and "set ss \<subseteq> set (wf_steps (en_config en))" and "runnable_steps en (wf_steps (en_config en))"
    and "local_tasks en" and "denoted en w (ps_exec ps)"
  shows "denoted en w (ps_exec (fst (run_legacy_yaml_order en ss ps)))"
  using assms
proof (induction ss arbitrary: ps)
  case Nil
  then show ?case by simp
next
  case (Cons s ss)
  have s: "s \<in> set (wf_steps (en_config en))" and ss: "set ss \<subseteq> set (wf_steps (en_config en))"
    using Cons.prems(4) by simp_all
  have dist: "distinct (map st_id (wf_steps (en_config en)))"
    using Cons.prems(3) by (simp add: wf_workflow_def step_ids_def)
  from legacy_body_denoted [OF Cons.prems(1-3) s Cons.prems(5-7)]
    legacy_body_inv [OF Cons.prems(1,2) dist s Cons.prems(5)]
    Cons.IH [OF _ _ Cons.prems(3) ss Cons.prems(5,6)]
  show ?case by (cases "legacy_body en s ps") auto
qed

lemma collect_denoted:
  assumes "pass_inv (wf_steps (en_config en)) ps" and "distinct (map st_id (wf_steps (en_config en)))"
    and "set ss \<subseteq> set (wf_steps (en_config en))" and "distinct (map st_id ss)"
    and "st_id ` set (ps_runnable ps) \<inter> st_id ` set ss = {}"
    and "local_tasks en" and "denoted en w (ps_exec ps)"
  shows "denoted en w (ps_exec (collect_runnable en ss ps))"
  using assms
proof (induction ss arbitrary: ps)
  case Nil
  then show ?case by simp
next
  case (Cons s ss)
  let ?ps' = "collect_body en s ps"
  have s: "s \<in> set (wf_steps (en_config en))" using Cons.prems(3) by simp
  have notin: "st_id s \<notin> st_id ` set (ps_runnable ps)" using Cons.prems(5) by auto
  note body = collect_body_inv [OF Cons.prems(1,2) s notin, of en]
  from body have disj: "st_id ` set (ps_runnable ?ps') \<inter> st_id ` set ss = {}"
    by (rule subset_insert_disjoint [OF conjunct2]) (use Cons.prems(4,5) in auto)
  have "denoted en w (ps_exec ?ps')"
  proof (cases "ps_exec ?ps' = ps_exec ps")
    case True
    with Cons.prems(7) show ?thesis by simp
  next
    case False
    then have pend: "status_of (ps_exec ps) (st_id s) = PENDING"
      and st': "ps_exec ?ps' = skip_step en s (ps_exec ps)"
      by (auto simp: collect_body_def resolve_skipped_def split: if_splits)
    have rinv: "run_inv (wf_steps (en_config en)) (ps_exec ps)"
      using Cons.prems(1) by (simp add: pass_inv_def)
    have new: "step_inv s (ps_exec ?ps')" "gate s (ps_exec ?ps')"
      using body s by (simp_all add: pass_inv_def run_inv_def)
    show ?thesis
    proof (rule denoted_settle [OF Cons.prems(6) rinv Cons.prems(7,2) s])
      show "\<not> settled (ps_exec ps) (st_id s)" using pend by (simp add: settled_def)
      show "step_view (ps_exec ?ps') sid = step_view (ps_exec ps) sid" if "sid \<noteq> st_id s" for sid
        using that by (simp add: st')
      show "step_view (ps_exec ?ps') (st_id s) = final_view en w s (ps_exec ?ps')"
        by (rule skipped_final_view [OF new]) (simp add: st')
    qed
  qed
  with body disj Cons.prems(2-4,6) Cons.IH [of ?ps'] show ?case by simp
qed

lemma denoted_view_cong:
  assumes "local_tasks en" and "denoted en w st" and v: "\<And>sid. step_view st' sid = step_view st sid"
  shows "denoted en w st'"
  unfolding denoted_def
proof (intro ballI impI)
  fix s assume s: "s \<in> set (wf_steps (en_config en))" "settled st' (st_id s)"
  have "final_view en w s st' = final_view en w s st"
    using v by (intro final_view_cong [OF assms(1) s(1)]) (blast intro: view_components(2))
  with s assms(2) view_settled [OF v] v show "step_view st' (st_id s) = final_view en w s st'"
    by (simp add: denoted_def)
qed


text \<open>
  The jobs of a layer: each works on its step's task, its context has the final results of
  the step's dependencies, and the last error of a job on its way is its task's outcome.
\<close>

definition job_ok :: "'w engine \<Rightarrow> 'w \<Rightarrow> 'w exec \<Rightarrow> 'w job \<Rightarrow> bool" where
  "job_ok en w st j \<longleftrightarrow>
     dget (en_registry en) (st_task (jb_step j)) = Some (jb_task j)
     \<and> (\<forall>d \<in> set (step_deps (jb_step j)). settled st d \<and> dget (jb_context j) d = result_of st d)
     \<and> (0 < jb_attempt j \<longrightarrow> outcome en (jb_step j) (jb_context j) w = Inl (jb_error j))"

definition jobs_ok :: "'w engine \<Rightarrow> 'w \<Rightarrow> 'w pool \<Rightarrow> bool" where
  "jobs_ok en w p \<longleftrightarrow> (\<forall>j \<in> set (po_queue p) \<union> set (po_running p). job_ok en w (po_exec p) j)"

lemma job_ok_frame:
  assumes "job_ok en w st j" and frame: "\<And>d. settled st d \<Longrightarrow> step_view st' d = step_view st d"
  shows "job_ok en w st' j"
proof -
  have "settled st' d \<and> result_of st' d = result_of st d" if "settled st d" for d
    using view_settled [OF frame [OF that]] view_components(2) [OF frame [OF that]] that by simp
  with assms(1) show ?thesis by (auto simp: job_ok_def)
qed

lemma pool_denoted_step:
  assumes inv: "pool_inv (wf_steps (en_config en)) layer st0 p" and step: "pool_step en limit c p = Some p'"
    and wf: "wf_workflow (en_config en)"
    and layer: "set layer \<subseteq> set (wf_steps (en_config en))" "distinct (map st_id layer)"
    and run: "runnable_steps en (wf_steps (en_config en))" and loc: "local_tasks en"
    and jobs: "jobs_ok en w p" and den: "denoted en w (po_exec p)"
  shows "jobs_ok en w p' \<and> denoted en w (po_exec p')"
proof -
  have dist: "distinct (map st_id (wf_steps (en_config en)))"
    using wf by (simp add: wf_workflow_def step_ids_def)
  have inv': "pool_inv (wf_steps (en_config en)) layer st0 p'"
    by (rule pool_inv_step [OF inv step dist layer run])
  have rinv: "run_inv (wf_steps (en_config en)) (po_exec p)" using inv by (simp add: pool_inv_def)
  have alive_job: "s \<in> set (wf_steps (en_config en)) \<and> worker_at s k (po_exec p)
      \<and> (\<forall>d \<in> set (step_deps s). settled (po_exec p) d) \<and> \<not> condition_fails s (po_exec p)"
    if "(s, k) \<in> set (alive p)" for s k
  proof -
    have s: "s \<in> set (wf_steps (en_config en))" and at: "worker_at s k (po_exec p)"
      using inv that layer(1) by (auto simp: pool_inv_def alive_ok_def)
    then have "status_of (po_exec p) (st_id s) = RUNNING" by (simp add: worker_at_def step_view_def)
    with s at rinv show ?thesis by (auto simp: run_inv_def gate_def)
  qed
  show ?thesis
  proof (cases c)
    case Submit
    with step obtain s ss where todo: "po_todo p = s # ss" by (auto simp: pool_submit_def split: list.splits)
    have fine: "po_fault p' = None" using inv' by (simp add: pool_inv_def)
    with step Submit todo obtain t where t: "dget (en_registry en) (st_task s) = Some t"
      and p': "p' = p\<lparr>po_todo := ss, po_queue := po_queue p @ [\<lparr>jb_step = s, jb_task = t,
        jb_context = ex_results (po_exec p), jb_attempt = 0, jb_error = []\<rparr>]\<rparr>"
      by (auto simp: pool_submit_def split: option.splits)
    have "(s, 0) \<in> set (alive p)" by (simp add: alive_def todo)
    with alive_job have "\<forall>d \<in> set (step_deps s). settled (po_exec p) d" by blast
    with t p' jobs den show ?thesis by (auto simp: jobs_ok_def job_ok_def result_of_def)
  next
    case Start
    with step jobs den show ?thesis
      by (auto simp: pool_start_def jobs_ok_def split: list.splits if_splits)
  next
    case (Attempt i)
    with step have i: "i < length (po_running p)" by (simp add: pool_attempt_def split: if_splits)
    let ?j = "po_running p ! i"
    let ?s = "jb_step ?j"
    have j: "?j \<in> set (po_running p)" using i by simp
    obtain st' r where wk: "worker_step en (jb_task ?j) ?s (jb_context ?j) False
        (jb_attempt ?j) (jb_error ?j) (po_exec p) = (st', r)" by force
    have "(?s, jb_attempt ?j) \<in> set (alive p)" using j by (auto simp: alive_def)
    with alive_job have s: "?s \<in> set (wf_steps (en_config en))"
      and at: "worker_at ?s (jb_attempt ?j) (po_exec p)"
      and deps: "\<forall>d \<in> set (step_deps ?s). settled (po_exec p) d" by blast+
    have ns: "\<not> settled (po_exec p) (st_id ?s)" using at by (simp add: worker_at_def step_view_def settled_def)
    have jok: "job_ok en w (po_exec p) ?j" using jobs j by (simp add: jobs_ok_def)
    note view = worker_step_view [OF wk]
    have frame: "step_view st' d = step_view (po_exec p) d" if "settled (po_exec p) d" for d
      using view ns that by metis
    have const: "snd (run_task en (jb_task ?j) ?s (jb_context ?j) w') = outcome en ?s (jb_context ?j) w" for w'
      using jok by (intro outcome_const [OF loc s]) (simp_all add: job_ok_def)
    have nn: "0 \<le> st_retries ?s" using wf s by (simp add: wf_workflow_def)
    have wd: "case r of Continue k' err' \<Rightarrow> outcome en ?s (jb_context ?j) w = Inl err'
        | Finish (Inr _) \<Rightarrow> step_view st' (st_id ?s) = worker_view ?s (outcome en ?s (jb_context ?j) w)
        | Finish (Inl _) \<Rightarrow> True"
      using jok by (intro worker_step_denotes [OF wk at const _ nn]) (simp add: job_ok_def)
    have old: "job_ok en w st' j'" if "j' \<in> set (po_queue p) \<union> set (po_running p)" for j'
      using jobs that by (intro job_ok_frame [OF _ frame]) (auto simp: jobs_ok_def)
    have exec': "po_exec p' = st'"
      using step Attempt i wk by (auto simp: pool_attempt_def Let_def split: progress.splits)
    have rinv': "run_inv (wf_steps (en_config en)) st'" using inv' exec' by (simp add: pool_inv_def)
    have den': "denoted en w st'"
    proof (rule denoted_settle [OF loc rinv den dist s ns view])
      assume set': "settled st' (st_id ?s)"
      have g: "gate ?s st'" using rinv' s by (simp add: run_inv_def)
      obtain b where r: "r = Finish (Inr b)" and nsk: "status_of st' (st_id ?s) \<noteq> SKIPPED"
        using set' worker_step_status(2) [OF wk] at
        by (auto simp: settled_def worker_at_def step_view_def split: progress.splits sum.splits if_splits)
      have "outcome en ?s (jb_context ?j) w = outcome en ?s (ex_results st') w"
        using jok view_components(2) [OF frame]
        by (intro local_outcome [OF loc s]) (auto simp: job_ok_def result_of_def)
      with wd r g nsk set' show "step_view st' (st_id ?s) = final_view en w ?s st'"
        by (auto simp: final_view_def gate_def settled_def)
    qed
    have "jobs_ok en w p'"
    proof (cases r)
      case (Continue k err)
      let ?j' = "?j\<lparr>jb_attempt := k, jb_error := err\<rparr>"
      have p': "p' = p\<lparr>po_running := (po_running p)[i := ?j'], po_exec := st'\<rparr>"
        using step Attempt i wk Continue by (simp add: pool_attempt_def)
      have "job_ok en w st' ?j" using old j by blast
      with wd Continue have "job_ok en w st' ?j'" by (simp add: job_ok_def)
      with old p' set_update_subset_insert [of "po_running p" i ?j'] show ?thesis
        by (auto simp: jobs_ok_def)
    next
      case (Finish q)
      have p': "p' = p\<lparr>po_running := remove_at i (po_running p),
          po_done := dset (st_id ?s) q (po_done p), po_exec := st'\<rparr>"
        using step Attempt i wk Finish by (simp add: pool_attempt_def)
      with old show ?thesis
        by (auto simp: jobs_ok_def remove_at_def dest: in_set_takeD in_set_dropD)
    qed
    with den' exec' show ?thesis by simp
  qed
qed

lemma run_parallel_denoted:
  assumes par: "is_parallel en" and inv: "pass_inv (wf_steps (en_config en)) ps"
    and wf: "wf_workflow (en_config en)" and run: "runnable_steps en (wf_steps (en_config en))"
    and loc: "local_tasks en" and den: "denoted en w (ps_exec ps)" and ne: "ps_runnable ps \<noteq> []"
    and rp: "run_parallel en choices (ps_runnable ps) (ps_exec ps) = (st', None)"
  shows "denoted en w st'"
proof -
  let ?l = "ps_runnable ps" and ?steps = "wf_steps (en_config en)"
  let ?st1 = "mark_running ?l (ps_exec ps)"
  have dist: "distinct (map st_id ?steps)" using wf by (simp add: wf_workflow_def step_ids_def)
  have layer: "set ?l \<subseteq> set ?steps" "distinct (map st_id ?l)" using inv by (auto simp: pass_inv_def)
  have start: "pool_inv ?steps ?l (ps_exec ps) (start_pool ?l ?st1)"
    by (rule pool_inv_start [OF inv dist])
  have st1: "denoted en w ?st1"
  proof (rule denoted_change [OF loc _ den])
    show "run_inv ?steps (ps_exec ps)" using inv by (simp add: pass_inv_def)
    show "step_view ?st1 d = step_view (ps_exec ps) d" if "settled (ps_exec ps) d" for d
      using that inv by (auto simp: pass_inv_def settled_def)
    show "step_view ?st1 (st_id s) = final_view en w s ?st1"
      if "settled ?st1 (st_id s)" "\<not> settled (ps_exec ps) (st_id s)" for s
      using that by (auto simp: settled_def split: if_splits)
  qed
  have "pool_inv ?steps ?l (ps_exec ps) (run_pool en choices ?l (ps_exec ps))
      \<and> jobs_ok en w (run_pool en choices ?l (ps_exec ps))
      \<and> denoted en w (po_exec (run_pool en choices ?l (ps_exec ps)))"
  proof (rule run_pool_induct [where P = "\<lambda>p. pool_inv ?steps ?l (ps_exec ps) p \<and> jobs_ok en w p
      \<and> denoted en w (po_exec p)"])
    show "pool_inv ?steps ?l (ps_exec ps) (start_pool ?l ?st1) \<and> jobs_ok en w (start_pool ?l ?st1)
        \<and> denoted en w (po_exec (start_pool ?l ?st1))"
      using start st1 by (simp add: jobs_ok_def start_pool_def)
  next
    fix limit c and p p' :: "'a pool"
    assume p: "pool_inv ?steps ?l (ps_exec ps) p \<and> jobs_ok en w p \<and> denoted en w (po_exec p)"
      and step: "pool_step en limit c p = Some p'"
    from p have i: "pool_inv ?steps ?l (ps_exec ps) p" and j: "jobs_ok en w p"
      and d: "denoted en w (po_exec p)" by simp_all
    from pool_inv_step [OF i step dist layer run] pool_denoted_step [OF i step wf layer run loc j d]
    show "pool_inv ?steps ?l (ps_exec ps) p' \<and> jobs_ok en w p' \<and> denoted en w (po_exec p')" by simp
  qed
  then have pool: "denoted en w (po_exec (run_pool en choices ?l (ps_exec ps)))" by simp
  have "st' = publish en (po_done (run_pool en choices ?l (ps_exec ps))) ?l
      (po_exec (run_pool en choices ?l (ps_exec ps)))"
    using rp by (simp add: run_parallel_def Let_def split: option.splits)
  with denoted_view_cong [OF loc pool] show ?thesis by simp
qed


lemma exec_round_denoted:
  assumes inv: "pass_inv (wf_steps (en_config en)) (start_pass resolved st)"
    and wf: "wf_workflow (en_config en)" and run: "runnable_steps en (wf_steps (en_config en))"
    and loc: "local_tasks en" and den: "denoted en w st"
    and round: "exec_round en choices resolved st = (ps, None)"
  shows "denoted en w (ps_exec ps)"
proof -
  let ?steps = "wf_steps (en_config en)"
  have dist: "distinct (map st_id ?steps)" using wf by (simp add: wf_workflow_def step_ids_def)
  show ?thesis
  proof (cases "is_parallel en")
    case False
    with round legacy_denoted [OF inv _ wf subset_refl run loc, of w] den show ?thesis
      by (simp add: exec_round_def start_pass_def)
  next
    case True
    define c where "c = collect_runnable en ?steps (start_pass resolved st)"
    have cinv: "pass_inv ?steps c"
      unfolding c_def using inv dist by (intro collect_inv) (simp_all add: start_pass_def)
    have cden: "denoted en w (ps_exec c)"
      unfolding c_def using inv dist loc den
      by (intro collect_denoted) (simp_all add: start_pass_def)
    show ?thesis
    proof (cases "ps_runnable c = []")
      case Nil: True
      with True round cden show ?thesis by (simp add: exec_round_def c_def [symmetric])
    next
      case False
      with True round obtain st' where rp: "run_parallel en choices (ps_runnable c) (ps_exec c) = (st', None)"
        and ps: "ps_exec ps = st'"
        by (auto simp: exec_round_def c_def [symmetric] Let_def split: prod.splits option.splits)
      from run_parallel_denoted [OF True cinv wf run loc cden False rp] ps show ?thesis by simp
    qed
  qed
qed

lemma exec_loop_denoted:
  assumes "pass_inv (wf_steps (en_config en)) (start_pass resolved st)"
    and "wf_workflow (en_config en)" and "runnable_steps en (wf_steps (en_config en))"
    and "local_tasks en" and "denoted en w st"
    and "exec_loop en scheds n resolved st = (st', None)"
  shows "denoted en w st'"
  using assms
proof (induction en scheds n resolved st rule: exec_loop.induct)
  case (1 en scheds n resolved st)
  let ?steps = "wf_steps (en_config en)"
  have dist: "distinct (map st_id ?steps)" using "1.prems"(2) by (simp add: wf_workflow_def step_ids_def)
  obtain ps where round: "exec_round en (scheds n) resolved st = (ps, None)"
    and inv: "pass_inv ?steps (start_pass (ps_resolved ps) (ps_exec ps))"
    using exec_round_inv [OF refl "1.prems"(1) dist "1.prems"(3)] by blast
  note den = exec_round_denoted [OF "1.prems"(1-5) round]
  from "1.prems"(5,6) round den "1.IH" [OF _ round [symmetric] refl _ inv "1.prems"(2-4) den] show ?case
    by (simp add: exec_loop.simps [of en scheds n resolved st] split: if_splits)
qed

lemma execute_denoted:
  assumes "wf_workflow (en_config en)" and "runnable_steps en (wf_steps (en_config en))"
    and "local_tasks en"
  obtains st' where "execute en scheds (init_exec (en_config en) tr w) = (st', None)"
    and "run_inv (wf_steps (en_config en)) st'"
    and "\<And>s. s \<in> set (wf_steps (en_config en)) \<Longrightarrow> settled st' (st_id s)"
    and "denoted en w0 st'"
proof -
  let ?st = "trace_event ''run.started'' None None [] (init_exec (en_config en) tr w)"
  obtain st' where ex: "execute en scheds (init_exec (en_config en) tr w) =
      (trace_event ''run.finished'' None None [(''status'', PyStr (overall_status st'))] st', None)"
    and loop: "exec_loop en scheds 0 [] ?st = (st', None)"
    and inv: "run_inv (wf_steps (en_config en)) st'"
    and fin: "\<forall>s \<in> set (wf_steps (en_config en)). settled st' (st_id s)"
    using execute_done [OF assms(1,2)] by blast
  have pinv: "pass_inv (wf_steps (en_config en)) (start_pass [] ?st)"
    by (rule pass_inv_view_cong [OF init_pass_inv]) simp
  have "denoted en w0 ?st"
    using init_views [of "en_config en" tr w]
    by (simp add: denoted_def settled_def step_view_def)
  from exec_loop_denoted [OF pinv assms this loop] have den: "denoted en w0 st'" .
  let ?last = "trace_event ''run.finished'' None None [(''status'', PyStr (overall_status st'))] st'"
  have v: "step_view ?last sid = step_view st' sid" for sid by simp
  have "gate s ?last" if "s \<in> set (wf_steps (en_config en))" for s
  proof (rule gate_frame)
    show "gate s st'" using inv that by (simp add: run_inv_def)
  qed simp_all
  with inv have "run_inv (wf_steps (en_config en)) ?last" by (simp add: run_inv_def step_inv_def)
  with ex fin denoted_view_cong [OF assms(3) den v] view_settled [OF v] show ?thesis
    by (intro that [of ?last]) simp_all
qed

text \<open>
  Two executions whose steps are all settled and denoted agree on every step: by induction
  along the dependency relation.
\<close>

lemma denoted_unique:
  assumes loc: "local_tasks en" and known: "known_deps (wf_steps (en_config en))"
    and acyc: "acyclic (dep_rel (wf_steps (en_config en)))"
    and den: "denoted en w st" "denoted en w st'"
    and fin: "\<And>s. s \<in> set (wf_steps (en_config en)) \<Longrightarrow> settled st (st_id s)"
      "\<And>s. s \<in> set (wf_steps (en_config en)) \<Longrightarrow> settled st' (st_id s)"
    and sid: "sid \<in> st_id ` set (wf_steps (en_config en))"
  shows "step_view st sid = step_view st' sid"
  using wf_dep_rel [OF acyc] sid
proof (induction sid)
  case (less sid)
  then obtain s where s: "s \<in> set (wf_steps (en_config en))" "sid = st_id s" by blast
  have deps: "step_view st d = step_view st' d" if d: "d \<in> set (step_deps s)" for d
  proof (rule less.IH)
    show "(d, sid) \<in> dep_rel (wf_steps (en_config en))" using s d by (auto simp: dep_rel_def)
    show "d \<in> st_id ` set (wf_steps (en_config en))"
      using known s(1) d by (auto simp: known_deps_def step_ids_def)
  qed
  have "final_view en w s st = final_view en w s st'"
    by (rule final_view_cong [OF loc s(1)]) (rule view_components(2) [OF deps])
  with den fin s show ?case by (simp add: denoted_def)
qed


section \<open>The order of the trace\<close>

text \<open>
  The steps that have ended in a list of events, and the causal order: a step starts (or is
  skipped) only after all the steps it depends on have ended.
\<close>

definition start_kind :: "string \<Rightarrow> bool" where
  "start_kind k \<longleftrightarrow> k = ''step.started'' \<or> k = ''step.skipped''"

definition end_kind :: "string \<Rightarrow> bool" where
  "end_kind k \<longleftrightarrow> k = ''step.completed'' \<or> k = ''step.failed'' \<or> k = ''step.skipped''"

lemma kind_simps [simp]:
  "\<not> start_kind ''run.started''" "\<not> start_kind ''run.finished''" "\<not> start_kind ''step.retry''"
  "\<not> start_kind ''step.completed''" "\<not> start_kind ''step.failed''" "\<not> start_kind ''dlq.recorded''"
  "end_kind ''step.completed''" "end_kind ''step.failed''" "end_kind ''step.skipped''"
  by (simp_all add: start_kind_def end_kind_def)

definition ended :: "execution_event list \<Rightarrow> string set" where
  "ended evs = {sid. \<exists>e \<in> set evs. ev_step_id e = Some sid \<and> end_kind (ev_kind e)}"

definition causal :: "step_config list \<Rightarrow> execution_event list \<Rightarrow> bool" where
  "causal steps evs \<longleftrightarrow>
     (\<forall>i < length evs. start_kind (ev_kind (evs ! i)) \<longrightarrow>
        (\<forall>s \<in> set steps. ev_step_id (evs ! i) = Some (st_id s)
           \<longrightarrow> set (step_deps s) \<subseteq> ended (take i evs)))"

definition traced :: "step_config list \<Rightarrow> string set \<Rightarrow> 'w exec \<Rightarrow> bool" where
  "traced steps R st \<longleftrightarrow>
     (case ex_trace st of
        None \<Rightarrow> True
      | Some t \<Rightarrow> causal steps (tc_events t) \<and> R \<subseteq> ended (tc_events t))"

lemma causal_snoc:
  "causal steps (evs @ [e]) \<longleftrightarrow> causal steps evs
     \<and> (start_kind (ev_kind e) \<longrightarrow>
          (\<forall>s \<in> set steps. ev_step_id e = Some (st_id s) \<longrightarrow> set (step_deps s) \<subseteq> ended evs))"
  unfolding causal_def by (simp add: All_less_Suc nth_append) (rule conj_commute)

lemma ended_snoc:
  "ended (evs @ [e]) = ended evs \<union> (if end_kind (ev_kind e) then set_option (ev_step_id e) else {})"
  by (auto simp: ended_def)

lemma ex_trace_event:
  "ex_trace (trace_event k so a d st) = map_option (emit k (map_option st_id so) a d) (ex_trace st)"
  by (simp add: trace_event_def)

lemma traced_mono: "traced steps R st \<Longrightarrow> R' \<subseteq> R \<Longrightarrow> traced steps R' st"
  by (auto simp: traced_def split: option.splits)

lemma traced_cong: "ex_trace st' = ex_trace st \<Longrightarrow> traced steps R st' = traced steps R st"
  by (simp add: traced_def)

lemma traced_other:
  "traced steps R st \<Longrightarrow> \<not> start_kind k \<Longrightarrow>
     traced steps R (trace_event k so a d st)"
  by (auto simp: traced_def ex_trace_event emit_def causal_snoc ended_snoc split: option.splits)

lemma traced_start:
  assumes "traced steps R st" and "distinct (map st_id steps)" and "s \<in> set steps"
    and "set (step_deps s) \<subseteq> R"
  shows "traced steps R (trace_event k (Some s) a d st)"
proof (cases "ex_trace st")
  case None
  then show ?thesis by (simp add: traced_def ex_trace_event)
next
  case (Some t)
  have same: "step_deps s' = step_deps s" if "s' \<in> set steps" "st_id s = st_id s'" for s'
    using distinct_map_inj [OF assms(2) that(1) assms(3) that(2) [symmetric]] by simp
  have "causal steps (tc_events t)" "R \<subseteq> ended (tc_events t)"
    using assms(1) Some by (simp_all add: traced_def)
  with assms(4) same have "causal steps (tc_events (emit k (Some (st_id s)) a d t))"
    by (auto simp: emit_def causal_snoc)
  with Some \<open>R \<subseteq> ended (tc_events t)\<close> show ?thesis
    by (auto simp: traced_def ex_trace_event emit_def ended_snoc)
qed

lemma traced_end:
  "traced steps R (trace_event k (Some s) a d st) \<Longrightarrow>
     end_kind k \<Longrightarrow>
     traced steps (insert (st_id s) R) (trace_event k (Some s) a d st)"
  by (auto simp: traced_def ex_trace_event emit_def ended_snoc split: option.splits)

lemma traced_set_status [simp]: "traced steps R (set_status sid x st) = traced steps R st"
  by (rule traced_cong) simp

lemma traced_emit_hook [simp]: "traced steps R (emit_hook en s st) = traced steps R st"
  by (rule traced_cong) simp

lemma traced_worker_step:
  assumes "worker_step en t s ctx tr k err st = (st', r)" and "traced steps R st"
  shows "traced steps R st'"
proof -
  have "ex_trace st' = ex_trace st \<or> ex_trace st' = ex_trace (trace_event ''step.retry'' (Some s) (Some (k + 1)) [] st)"
    using assms(1)
    by (auto simp: worker_step_def Let_def fail_step_def set_status_def trace_event_def
          split: if_splits sum.splits prod.splits)
  moreover have "traced steps R (trace_event ''step.retry'' (Some s) (Some (k + 1)) [] st)"
    using assms(2) by (rule traced_other) simp
  ultimately show ?thesis
    using assms(2) traced_cong [of st' st]
      traced_cong [of st' "trace_event ''step.retry'' (Some s) (Some (k + 1)) [] st"] by blast
qed

lemma traced_retry_loop:
  "retry_loop en t s ctx tr k err st = (st', r) \<Longrightarrow> traced steps R st \<Longrightarrow> traced steps R st'"
proof (induction en t s ctx tr k err st rule: retry_loop.induct)
  case (1 en t s ctx tr k err st)
  obtain st1 p where w: "worker_step en t s ctx tr k err st = (st1, p)" by force
  show ?case
    using "1.IH" [OF w [symmetric]] "1.prems" w traced_worker_step [OF w "1.prems"(2)]
    by (cases p) (simp_all add: retry_loop.simps [of en t s ctx tr k err st])
qed

lemma traced_finish_events:
  assumes "traced steps R st"
  shows "traced steps (insert (st_id s) R) (finish_events s b st)"
proof -
  let ?k = "if b then ''step.completed'' else ''step.failed''"
  have "traced steps (insert (st_id s) R) (trace_event ?k (Some s) a [] st)" for a
    by (rule traced_end, rule traced_other [OF assms]) simp_all
  then show ?thesis by (cases b) (simp_all add: finish_events_def Let_def traced_other)
qed

lemma traced_retry_events: "traced steps R st \<Longrightarrow> traced steps R (retry_events s as st)"
  by (induction as arbitrary: st) (simp_all add: traced_other)

lemma traced_run_step:
  assumes rs: "run_step en s st = (st', r)" and tr: "traced steps R st"
    and dist: "distinct (map st_id steps)" and s: "s \<in> set steps" and deps: "set (step_deps s) \<subseteq> R"
  shows "traced steps R st'" and "r = None \<Longrightarrow> traced steps (insert (st_id s) R) st'"
proof -
  let ?st1 = "trace_event ''step.started'' (Some s) None [] (set_status (st_id s) RUNNING st)"
  have st1: "traced steps R ?st1" using tr by (intro traced_start [OF _ dist s deps]) simp
  have "traced steps R st' \<and> (r = None \<longrightarrow> traced steps (insert (st_id s) R) st')"
  proof (cases "dget (en_registry en) (st_task s)")
    case None
    with rs st1 show ?thesis by (auto simp: run_step_def Let_def)
  next
    case (Some t)
    obtain st2 q where rl: "retry_loop en t s (ex_results ?st1) True 0 [] ?st1 = (st2, q)" by force
    note st2 = traced_retry_loop [OF rl st1]
    show ?thesis
    proof (cases q)
      case (Inl e)
      with rs Some rl st2 show ?thesis by (auto simp: run_step_def run_with_retry_def)
    next
      case (Inr b)
      with rs Some rl have "st' = emit_hook en s (finish_events s b st2)" "r = None"
        by (simp_all add: run_step_def run_with_retry_def)
      with traced_finish_events [OF st2, of s b] show ?thesis
        by (auto intro: traced_mono)
    qed
  qed
  then show "traced steps R st'" "r = None \<Longrightarrow> traced steps (insert (st_id s) R) st'" by simp_all
qed

lemma traced_skip:
  assumes "traced steps R st" and "distinct (map st_id steps)" and "s \<in> set steps"
    and "set (step_deps s) \<subseteq> R"
  shows "traced steps (insert (st_id s) R) (skip_step en s st)"
  unfolding skip_step_def traced_emit_hook
  using assms by (intro traced_end traced_start) simp_all

definition pass_traced :: "step_config list \<Rightarrow> 'w pass \<Rightarrow> bool" where
  "pass_traced steps ps \<longleftrightarrow>
     traced steps (set (ps_resolved ps)) (ps_exec ps)
     \<and> (\<forall>s \<in> set (ps_runnable ps). s \<in> set steps \<and> is_ready (ps_resolved ps) s)"

lemma is_ready_insert: "is_ready R s \<Longrightarrow> is_ready (List.insert x R) s"
  by (auto simp: is_ready_iff)

lemma pass_traced_skip:
  assumes "pass_traced steps ps" and "distinct (map st_id steps)" and "s \<in> set steps"
    and "is_ready (ps_resolved ps) s"
  shows "pass_traced steps (resolve_skipped en s ps)"
  using assms traced_skip [of steps "set (ps_resolved ps)" "ps_exec ps" s en]
  by (auto simp: pass_traced_def resolve_skipped_def is_ready_insert is_ready_iff)

lemma pass_traced_legacy_body:
  assumes "pass_traced steps ps" and "distinct (map st_id steps)" and "s \<in> set steps"
  shows "pass_traced steps (fst (legacy_body en s ps))"
proof (cases "status_of (ps_exec ps) (st_id s) = PENDING \<and> is_ready (ps_resolved ps) s
    \<and> \<not> condition_fails s (ps_exec ps)")
  case False
  with assms pass_traced_skip [OF assms] show ?thesis by (auto simp: legacy_body_def)
next
  case True
  then have deps: "set (step_deps s) \<subseteq> set (ps_resolved ps)" by (simp add: is_ready_iff)
  obtain st' r where rs: "run_step en s (ps_exec ps) = (st', r)" by force
  have tr: "traced steps (set (ps_resolved ps)) (ps_exec ps)" using assms(1) by (simp add: pass_traced_def)
  note out = traced_run_step [OF rs tr assms(2,3) deps]
  show ?thesis
    using True rs out assms(1)
    by (cases r) (auto simp: legacy_body_def pass_traced_def is_ready_insert)
qed

lemma pass_traced_collect_body:
  assumes "pass_traced steps ps" and "distinct (map st_id steps)" and "s \<in> set steps"
  shows "pass_traced steps (collect_body en s ps)"
  using assms pass_traced_skip [OF assms] by (auto simp: collect_body_def) (auto simp: pass_traced_def)

lemma traced_mark_running:
  assumes "traced steps R st" and "distinct (map st_id steps)"
    and "\<forall>s \<in> set ss. s \<in> set steps \<and> set (step_deps s) \<subseteq> R"
  shows "traced steps R (mark_running ss st)"
  using assms(1,3) by (induction ss arbitrary: st) (simp_all add: traced_start assms(2))

lemma traced_pool_step:
  assumes "pool_step en limit c p = Some p'" and "traced steps R (po_exec p)"
  shows "traced steps R (po_exec p')"
proof (cases c)
  case (Attempt i)
  let ?j = "po_running p ! i"
  obtain st' r where w: "worker_step en (jb_task ?j) (jb_step ?j) (jb_context ?j) False
      (jb_attempt ?j) (jb_error ?j) (po_exec p) = (st', r)" by force
  then have "po_exec p' = st'"
    using assms(1) Attempt by (auto simp: pool_attempt_def Let_def split: if_splits progress.splits)
  with traced_worker_step [OF w assms(2)] show ?thesis by simp
qed (use assms in \<open>auto simp: pool_submit_def pool_start_def split: list.splits option.splits if_splits\<close>)

lemma traced_publish:
  "traced steps R st \<Longrightarrow> traced steps (st_id ` set ss \<union> R) (publish en out ss st)"
proof (induction ss arbitrary: st R)
  case Nil
  then show ?case by simp
next
  case (Cons s ss)
  let ?st' = "\<lambda>n b. emit_hook en s (finish_events s b (retry_events s [1..<Suc n] st))"
  have "traced steps (insert (st_id s) R) (?st' n b)" for n b
    using Cons.prems by (simp add: traced_finish_events traced_retry_events del: upt_Suc)
  from Cons.IH [OF this] show ?case by (simp add: Let_def del: upt_Suc)
qed

lemma traced_run_parallel:
  assumes rp: "run_parallel en choices ss st = (st', r)" and tr: "traced steps R st"
    and dist: "distinct (map st_id steps)" and ss: "\<forall>s \<in> set ss. s \<in> set steps \<and> set (step_deps s) \<subseteq> R"
  shows "traced steps R st'" and "r = None \<Longrightarrow> traced steps (st_id ` set ss \<union> R) st'"
proof -
  have pool: "traced steps R (po_exec (run_pool en choices ss st))"
    by (rule run_pool_induct [where P = "\<lambda>p. traced steps R (po_exec p)"])
       (simp_all add: start_pool_def traced_mark_running [OF tr dist ss] traced_pool_step)
  note pub = traced_publish [OF pool, of ss en]
  have "traced steps R st' \<and> (r = None \<longrightarrow> traced steps (st_id ` set ss \<union> R) st')"
    using rp pool pub [of "po_done (run_pool en choices ss st)"]
    by (auto simp: run_parallel_def Let_def split: option.splits intro: traced_mono)
  then show "traced steps R st'" "r = None \<Longrightarrow> traced steps (st_id ` set ss \<union> R) st'" by simp_all
qed

lemma pass_traced_round:
  assumes round: "exec_round en choices resolved st = (ps, r)"
    and tr: "traced (wf_steps (en_config en)) (set resolved) st"
    and dist: "distinct (map st_id (wf_steps (en_config en)))"
  shows "traced (wf_steps (en_config en)) (set (ps_resolved ps)) (ps_exec ps)"
proof -
  let ?steps = "wf_steps (en_config en)"
  have start: "pass_traced ?steps (start_pass resolved st)"
    using tr by (simp add: pass_traced_def start_pass_def)
  show ?thesis
  proof (cases "is_parallel en")
    case False
    have "pass_traced ?steps (fst (run_legacy_yaml_order en ?steps (start_pass resolved st)))"
      by (rule legacy_induct [where P = "pass_traced ?steps", OF start]) (rule pass_traced_legacy_body [OF _ dist])
    with False round show ?thesis by (simp add: exec_round_def pass_traced_def)
  next
    case True
    define c where "c = collect_runnable en ?steps (start_pass resolved st)"
    have c: "pass_traced ?steps c"
      unfolding c_def by (rule collect_induct [where P = "pass_traced ?steps", OF start]) (rule pass_traced_collect_body [OF _ dist])
    then have ready: "\<forall>s \<in> set (ps_runnable c). s \<in> set ?steps \<and> set (step_deps s) \<subseteq> set (ps_resolved c)"
      and trc: "traced ?steps (set (ps_resolved c)) (ps_exec c)"
      by (simp_all add: pass_traced_def is_ready_iff)
    obtain st' q where rp: "run_parallel en choices (ps_runnable c) (ps_exec c) = (st', q)" by force
    note out = traced_run_parallel [OF rp trc dist ready]
    from round True rp out trc show ?thesis
      by (cases q) (auto simp: exec_round_def c_def [symmetric] Let_def set_add_ids split: if_splits)
  qed
qed

lemma traced_exec_loop:
  "exec_loop en scheds n resolved st = (st', r) \<Longrightarrow>
     traced (wf_steps (en_config en)) (set resolved) st \<Longrightarrow>
     distinct (map st_id (wf_steps (en_config en))) \<Longrightarrow> traced (wf_steps (en_config en)) {} st'"
proof (induction en scheds n resolved st rule: exec_loop.induct)
  case (1 en scheds n resolved st)
  obtain ps q where round: "exec_round en (scheds n) resolved st = (ps, q)" by force
  note tr = pass_traced_round [OF round "1.prems"(2,3)]
  from "1.prems" round tr "1.IH" [OF _ round [symmetric] _ _ _ tr "1.prems"(3)] show ?case
    by (auto simp: exec_loop.simps [of en scheds n resolved st] intro: traced_mono
          split: if_splits option.splits)
qed

lemma traced_execute:
  assumes "execute en scheds (init_exec (en_config en) (Some (new_trace trigger run)) w) = (st, r)"
    and "distinct (map st_id (wf_steps (en_config en)))"
  shows "traced (wf_steps (en_config en)) {} st"
proof -
  let ?init = "init_exec (en_config en) (Some (new_trace trigger run)) w"
  have init: "traced (wf_steps (en_config en)) {} ?init"
    by (simp add: traced_def init_exec_def new_trace_def causal_def)
  have start: "traced (wf_steps (en_config en)) (set []) (trace_event ''run.started'' None None [] ?init)"
    using init by (simp add: traced_other)
  show ?thesis
  proof (cases "validate_registry en")
    case (Some e)
    with assms(1) init show ?thesis by (simp add: execute_def)
  next
    case None
    obtain st' q where loop: "exec_loop en scheds 0 [] (trace_event ''run.started'' None None [] ?init) = (st', q)"
      by force
    from assms(1) None loop traced_exec_loop [OF loop start assms(2)] show ?thesis
      by (cases q) (auto simp: execute_def intro: traced_other)
  qed
qed


section \<open>The retry loop against its reference\<close>

text \<open>
  The reference: call the task at most \<open>n\<close> times, collecting the errors, until it succeeds.
\<close>

fun tries :: "'w engine \<Rightarrow> 'w task_object \<Rightarrow> step_config \<Rightarrow> (string, pyval) dict \<Rightarrow> nat \<Rightarrow> 'w
    \<Rightarrow> string list \<times> pyval option \<times> 'w" where
  "tries en t s ctx 0 w = ([], None, w)"
| "tries en t s ctx (Suc n) w =
     (case run_task en t s ctx w of
        (w', Inr v) \<Rightarrow> ([], Some v, w')
      | (w', Inl m) \<Rightarrow> (case tries en t s ctx n w' of (ms, r, w'') \<Rightarrow> (m # ms, r, w'')))"

definition delays :: "'w engine \<Rightarrow> nat \<Rightarrow> nat \<Rightarrow> rat list" where
  "delays en a b = map (\<lambda>k. min (1 / 2 * 2 ^ k) (en_max_backoff en)) [a..<b]"

lemma delays_Cons: "a < b \<Longrightarrow> delays en a b = min (1 / 2 * 2 ^ a) (en_max_backoff en) # delays en (Suc a) b"
  by (simp add: delays_def upt_conv_Cons)

lemma delays_Nil [simp]: "b \<le> a \<Longrightarrow> delays en a b = []"
  by (simp add: delays_def)

text \<open>What the reference says about the step's entries after \<open>k\<close> failed attempts.\<close>

fun tries_view :: "step_config \<Rightarrow> nat \<Rightarrow> string \<Rightarrow> string list \<times> pyval option
    \<Rightarrow> step_status \<times> pyval option \<times> nat \<times> nat \<times> string option \<times> dead_letter list" where
  "tries_view s k err (ms, Some v) = (COMPLETED, Some v, k + length ms, Suc (k + length ms), None, [])"
| "tries_view s k err (ms, None) =
     (FAILED, None, k + length ms, k + length ms, Some (last (err # ms)),
      [dead_entry s (last (err # ms)) (k + length ms)])"

lemma worker_at_view:
  "worker_at s k st \<Longrightarrow> status_of st (st_id s) = RUNNING \<and> result_of st (st_id s) = None
     \<and> retry_count st (st_id s) = k \<and> attempt_count st (st_id s) = k
     \<and> error_of st (st_id s) = None \<and> dead_of st (st_id s) = [] \<and> k \<le> step_work s"
  by (simp add: worker_at_def step_view_def)

lemma worker_step_exhausted:
  assumes "st_retries s + 1 \<le> int k" and "worker_at s k st"
    and "worker_step en t s ctx tr k err st = (st', p)"
  shows "p = Finish (Inr False) \<and> ex_world st' = ex_world st \<and> ex_sleeps st' = ex_sleeps st
    \<and> step_view st' (st_id s) = tries_view s k err ([], None)"
  using assms(1,3) worker_at_view [OF assms(2)]
  by (auto simp: worker_step_def fail_step_def Let_def set_status_def view_defs dead_entry_def)

lemma worker_step_success:
  assumes "int k < st_retries s + 1" and "worker_at s k st"
    and "run_task en t s ctx (ex_world st) = (w', Inr v)"
    and "worker_step en t s ctx tr k err st = (st', p)"
  shows "p = Finish (Inr True) \<and> ex_world st' = w' \<and> ex_sleeps st' = ex_sleeps st
    \<and> step_view st' (st_id s) = tries_view s k err ([], Some v)"
  using assms(1,3,4) worker_at_view [OF assms(2)]
  by (auto simp: worker_step_def Let_def set_status_def view_defs)

lemma worker_step_failure:
  assumes "int k < st_retries s + 1" and "k < 1024 \<or> st_retries s \<le> int k"
    and "run_task en t s ctx (ex_world st) = (w', Inl m)"
    and "worker_step en t s ctx tr k err st = (st', p)"
  shows "p = Continue (Suc k) m \<and> ex_world st' = w'
    \<and> ex_sleeps st' = ex_sleeps st @ delays en k (min (Suc k) (nat (st_retries s)))"
proof (cases "int k < st_retries s")
  case True
  then have "min (Suc k) (nat (st_retries s)) = Suc k" by linarith
  with assms True show ?thesis
    by (auto simp: worker_step_def Let_def backoff_def delays_Cons trace_event_def split: if_splits)
next
  case False
  then have "min (Suc k) (nat (st_retries s)) \<le> k" by linarith
  with assms False show ?thesis by (auto simp: worker_step_def Let_def)
qed

lemma retry_loop_reference:
  assumes "retry_loop en t s ctx tr k err st = (st', r)" and "worker_at s k st"
    and "0 \<le> st_retries s" and "st_retries s \<le> 1024"
    and "tries en t s ctx (step_work s - k) (ex_world st) = (ms, res, w')"
  shows "r = Inr (res \<noteq> None) \<and> ex_world st' = w'
    \<and> ex_sleeps st' = ex_sleeps st @ delays en k (min (k + length ms) (nat (st_retries s)))
    \<and> step_view st' (st_id s) = tries_view s k err (ms, res)"
  using assms
proof (induction en t s ctx tr k err st arbitrary: ms rule: retry_loop.induct)
  case (1 en t s ctx tr k err st)
  obtain st1 p where w: "worker_step en t s ctx tr k err st = (st1, p)" by force
  note loop = retry_loop.simps [of en t s ctx tr k err st]
  show ?case
  proof (cases "st_retries s + 1 \<le> int k")
    case True
    then have "step_work s - k = 0" by (simp add: step_work_def)
    with "1.prems"(5) have "ms = []" "res = None" "w' = ex_world st" by simp_all
    with worker_step_exhausted [OF True "1.prems"(2) w] "1.prems"(1) w loop show ?thesis by simp
  next
    case False
    then have k: "int k < st_retries s + 1" by simp
    then obtain n where n: "step_work s - k = Suc n" "step_work s - Suc k = n"
      by (metis Suc_diff_Suc int_nat_eq less_nat_zero_code linorder_neqE_linordered_idom nat_int
            of_nat_less_0_iff step_work_def zless_nat_conj zless_nat_eq_int_zless)
    obtain w1 oc where rt: "run_task en t s ctx (ex_world st) = (w1, oc)" by force
    show ?thesis
    proof (cases oc)
      case (Inr v)
      with "1.prems"(5) n rt have "ms = []" "res = Some v" "w' = w1" by auto
      with worker_step_success [OF k "1.prems"(2) rt [unfolded Inr] w] "1.prems"(1) w loop
      show ?thesis by simp
    next
      case (Inl m)
      have ov: "k < 1024 \<or> st_retries s \<le> int k" using "1.prems"(4) by linarith
      note fl = worker_step_failure [OF k ov rt [unfolded Inl] w]
      then have p: "p = Continue (Suc k) m" by simp
      have at: "worker_at s (Suc k) st1" using worker_step_accounts [OF w "1.prems"(2)] p by simp
      obtain ms' where ms: "ms = m # ms'" and tr': "tries en t s ctx n w1 = (ms', res, w')"
        using "1.prems"(5) n(1) rt Inl by (auto split: prod.splits)
      have rl: "retry_loop en t s ctx tr (Suc k) m st1 = (st', r)" using "1.prems"(1) w p loop by simp
      have "tries en t s ctx (step_work s - Suc k) (ex_world st1) = (ms', res, w')"
        using tr' n(2) fl by simp
      note ih = "1.IH" [OF w [symmetric] p rl at "1.prems"(3,4) this]
      have "delays en k (min (Suc k) (nat (st_retries s)))
            @ delays en (Suc k) (min (Suc k + length ms') (nat (st_retries s)))
          = delays en k (min (k + length ms) (nat (st_retries s)))"
      proof (cases "k < nat (st_retries s)")
        case True
        then show ?thesis using delays_Cons [of k "min (k + length ms) (nat (st_retries s))" en]
          delays_Cons [of k "Suc k" en] by (simp add: ms min_absorb1)
      qed simp
      with ih fl ms show ?thesis by (cases res) auto
    qed
  qed
qed

text \<open>With 1025 retries or more, the 1025th failure raises instead of failing the step.\<close>

lemma retry_loop_overflow:
  assumes "\<And>w. \<exists>w' m. run_task en t s ctx w = (w', Inl m)" and "1025 \<le> st_retries s"
    and "worker_at s k st" and "k \<le> 1024"
  shows "\<exists>st'. retry_loop en t s ctx tr k err st
      = (st', Inl (OverflowError ''int too large to convert to float''))
    \<and> status_of st' (st_id s) = RUNNING \<and> dead_of st' (st_id s) = []
    \<and> error_of st' (st_id s) = None \<and> attempt_count st' (st_id s) = 1025"
  using assms(3,4)
proof (induction "1024 - k" arbitrary: k err st)
  case 0
  then have k: "k = 1024" by simp
  obtain w' m where rt: "run_task en t s ctx (ex_world st) = (w', Inl m)" using assms(1) by blast
  obtain st1 p where w: "worker_step en t s ctx tr k err st = (st1, p)" by force
  have "p = Finish (Inl (OverflowError ''int too large to convert to float''))
      \<and> status_of st1 (st_id s) = RUNNING \<and> dead_of st1 (st_id s) = []
      \<and> error_of st1 (st_id s) = None \<and> attempt_count st1 (st_id s) = 1025"
    using w rt assms(2) worker_at_view [OF 0(2)] k
    by (auto simp: worker_step_def Let_def backoff_def view_defs trace_event_def split: if_splits)
  with w show ?case by (simp add: retry_loop.simps [of en t s ctx tr k err st])
next
  case (Suc d)
  then have k: "k < 1024" by simp
  obtain w' m where rt: "run_task en t s ctx (ex_world st) = (w', Inl m)" using assms(1) by blast
  obtain st1 p where w: "worker_step en t s ctx tr k err st = (st1, p)" by force
  have p: "p = Continue (Suc k) m"
    using worker_step_failure [OF _ _ rt w] k assms(2) by simp
  have at: "worker_at s (Suc k) st1" using worker_step_accounts [OF w Suc.prems(1)] p by simp
  from Suc.hyps(1) [of "Suc k" st1 m] Suc.hyps(2) at k w p show ?case
    by (simp add: retry_loop.simps [of en t s ctx tr k err st])
qed


section \<open>An example workflow\<close>

text \<open>
  A world that counts calls; a task that succeeds, one that fails and one that fails on
  its first call only; four steps with retries, dependencies and conditions.
\<close>

definition task_of :: "nat callable \<Rightarrow> nat task_object" where
  "task_of f = \<lparr>to_class = ''function'', to_call = Some f, to_run = None\<rparr>"

definition ex_registry :: "nat registry" where
  "ex_registry =
     [(''echo'', task_of (\<lambda>w ctx ps. (Suc w, Inr (PyStr ''ok'')))),
      (''boom'', task_of (\<lambda>w ctx ps. (Suc w, Inl ''boom'')))]"

definition ex_steps :: "step_config list" where
  "ex_steps =
     [\<lparr>st_id = ''c'', st_task = ''echo'', st_depends_on = Some [''b''], st_retries = 3, st_params = [],
       st_condition = Some \<lparr>sc_step = ''a'', sc_equals = Some ''ok'', sc_not_equals = None, sc_contains = None\<rparr>\<rparr>,
      \<lparr>st_id = ''a'', st_task = ''echo'', st_depends_on = None, st_retries = 0, st_params = [],
       st_condition = None\<rparr>,
      \<lparr>st_id = ''b'', st_task = ''boom'', st_depends_on = Some [''a''], st_retries = 1, st_params = [],
       st_condition = None\<rparr>,
      \<lparr>st_id = ''d'', st_task = ''echo'', st_depends_on = Some [], st_retries = 3, st_params = [],
       st_condition = Some \<lparr>sc_step = ''a'', sc_equals = None, sc_not_equals = Some ''ok'', sc_contains = None\<rparr>\<rparr>]"

definition ex_engine :: "int option \<Rightarrow> nat engine" where
  "ex_engine concurrency =
     \<lparr>en_config = \<lparr>wf_name = ''demo'', wf_steps = ex_steps, wf_schedule = None, wf_typed_io = False\<rparr>,
      en_registry = ex_registry, en_on_step = None, en_max_backoff = 8,
      en_concurrency = concurrency, en_typed_io = False\<rparr>"

lemma ex_engine_simps [simp]:
  "wf_steps (en_config (ex_engine c)) = ex_steps"
  "en_registry (ex_engine c) = ex_registry"
  "en_typed_io (ex_engine c) = False"
  "en_max_backoff (ex_engine c) = 8"
  "(ex_engine c)\<lparr>en_concurrency := c'\<rparr> = ex_engine c'"
  by (simp_all add: ex_engine_def)

lemma ex_wf: "wf_workflow (en_config (ex_engine c))"
proof -
  have d: "distinct (step_ids ex_steps)" by (simp add: step_ids_def ex_steps_def)
  have "detect_cycles ex_steps = Inr ()" by code_simp
  with d have "known_deps ex_steps \<and> acyclic (dep_rel ex_steps)" by (simp add: detect_cycles_ok_iff)
  moreover have "\<forall>s \<in> set ex_steps. 0 \<le> st_retries s" by (simp add: ex_steps_def)
  ultimately show ?thesis using d by (simp add: wf_workflow_def)
qed

lemma ex_runnable: "runnable_steps (ex_engine c) (wf_steps (en_config (ex_engine c)))"
  by (simp add: runnable_steps_def ex_steps_def ex_registry_def)

lemma ex_local: "local_tasks (ex_engine c)"
  by (simp add: local_tasks_def outcome_def ex_steps_def ex_registry_def run_task_def call_object_def
        task_of_def)

definition ex_run :: "int option \<Rightarrow> choice list \<Rightarrow> nat exec" where
  "ex_run c sched = fst (execute (ex_engine c) (\<lambda>_. sched) (init_exec (en_config (ex_engine c)) None 0))"

lemma ex_run_execute:
  "\<exists>r. execute (ex_engine c) (\<lambda>_. sched) (init_exec (en_config (ex_engine c)) None 0) = (ex_run c sched, r)"
  by (cases "execute (ex_engine c) (\<lambda>_. sched) (init_exec (en_config (ex_engine c)) None 0)")
     (simp add: ex_run_def)

lemma ex_run_statuses:
  "status_of (ex_run None []) ''b'' = FAILED" "status_of (ex_run (Some 2) [Attempt 1]) ''d'' = SKIPPED"
  by code_simp+

section \<open>Properties\<close>

lemma execute_end:
  assumes "wf_workflow (en_config en)" and "runnable_steps en (wf_steps (en_config en))"
    and "execute en scheds (init_exec (en_config en) tr w) = (st, r)"
  shows "r = None" and "run_inv (wf_steps (en_config en)) st"
    and "\<And>s. s \<in> set (wf_steps (en_config en)) \<Longrightarrow> settled st (st_id s)"
    and "status_keys en st" and "distinct (map st_id (wf_steps (en_config en)))"
proof -
  obtain st' where ex: "execute en scheds (init_exec (en_config en) tr w) =
      (trace_event ''run.finished'' None None [(''status'', PyStr (overall_status st'))] st', None)"
    and inv: "run_inv (wf_steps (en_config en)) st'"
    and fin: "\<forall>s \<in> set (wf_steps (en_config en)). settled st' (st_id s)"
    using execute_done [OF assms(1,2)] by metis
  let ?last = "trace_event ''run.finished'' None None [(''status'', PyStr (overall_status st'))] st'"
  have st: "st = ?last" and r: "r = None" using ex assms(3) by simp_all
  show "r = None" by (rule r)
  have "gate s ?last" if "s \<in> set (wf_steps (en_config en))" for s
  proof (rule gate_frame)
    show "gate s st'" using inv that by (simp add: run_inv_def)
  qed simp_all
  with inv st show "run_inv (wf_steps (en_config en)) st" by (simp add: run_inv_def step_inv_def)
  show "settled st (st_id s)" if "s \<in> set (wf_steps (en_config en))" for s
    using fin that st by (simp add: settled_def)
  show d: "distinct (map st_id (wf_steps (en_config en)))"
    using assms(1) by (simp add: wf_workflow_def step_ids_def)
  show "status_keys en st"
    by (rule execute_induct [OF assms(3)]) (rule status_keys_init [OF d], rule status_keys_change)
qed



text \<open>
  C5: the books of a finished run. A completed step has its result, one more attempt than
  retries counted, and no error or dead letter; a failed one made all its \<open>retries + 1\<close>
  attempts and has no result, its last error and exactly one dead letter that records it; a
  skipped one was never attempted.
\<close>

theorem execute_accounts:
  assumes "wf_workflow (en_config en)" and "runnable_steps en (wf_steps (en_config en))"
    and "execute en scheds (init_exec (en_config en) tr w) = (st, r)"
    and "s \<in> set (wf_steps (en_config en))"
  shows "case status_of st (st_id s) of
      COMPLETED \<Rightarrow> result_of st (st_id s) \<noteq> None
        \<and> attempt_count st (st_id s) = retry_count st (st_id s) + 1
        \<and> int (attempt_count st (st_id s)) \<le> st_retries s + 1
        \<and> error_of st (st_id s) = None \<and> dead_of st (st_id s) = []
    | FAILED \<Rightarrow> result_of st (st_id s) = None
        \<and> int (attempt_count st (st_id s)) = st_retries s + 1
        \<and> retry_count st (st_id s) = attempt_count st (st_id s)
        \<and> (\<exists>e. error_of st (st_id s) = Some e
             \<and> dead_of st (st_id s) = [\<lparr>dl_step_id = st_id s, dl_task = st_task s, dl_error = e,
                  dl_attempts = retry_count st (st_id s), dl_params = st_params s\<rparr>])
    | SKIPPED \<Rightarrow> result_of st (st_id s) = None \<and> attempt_count st (st_id s) = 0
        \<and> retry_count st (st_id s) = 0 \<and> error_of st (st_id s) = None \<and> dead_of st (st_id s) = []
    | _ \<Rightarrow> False"
proof -
  note fin = execute_end [OF assms(1-3)]
  have "accounts s (step_view st (st_id s))" using fin(2) assms(4) by (simp add: run_inv_def step_inv_def)
  moreover have "settled st (st_id s)" by (rule fin(3) [OF assms(4)])
  moreover have "int (step_work s) = st_retries s + 1"
    using assms(1,4) by (simp add: wf_workflow_def step_work_def)
  ultimately show ?thesis
    by (cases "status_of st (st_id s)") (auto simp: step_view_def settled_def dead_entry_def)
qed

theorem execute_accounts_witness:
  "attempt_count (ex_run None []) ''b'' = 2 \<and> length (dead_of (ex_run None []) ''b'') = 1"
proof -
  obtain r where ex: "execute (ex_engine None) (\<lambda>_. []) (init_exec (en_config (ex_engine None)) None 0) = (ex_run None [], r)"
    using ex_run_execute by blast
  have "ex_steps ! 2 \<in> set (wf_steps (en_config (ex_engine None)))" by (simp add: ex_steps_def)
  from execute_accounts [OF ex_wf ex_runnable ex this] ex_run_statuses(1) show ?thesis
    by (auto simp: ex_steps_def)
qed

text \<open>
  C6: in a finished run a step is \<open>SKIPPED\<close> exactly when it has a condition that the final
  results do not satisfy.
\<close>

theorem execute_skips:
  assumes "wf_workflow (en_config en)" and "runnable_steps en (wf_steps (en_config en))"
    and "execute en scheds (init_exec (en_config en) tr w) = (st, r)"
    and "s \<in> set (wf_steps (en_config en))"
  shows "status_of st (st_id s) = SKIPPED \<longleftrightarrow>
    (\<exists>c. st_condition s = Some c \<and> \<not> evaluate c (ex_results st))"
proof -
  note fin = execute_end [OF assms(1-3)]
  have "gate s st" using fin(2) assms(4) by (simp add: run_inv_def)
  moreover have "status_of st (st_id s) \<noteq> PENDING" using fin(3) [OF assms(4)] by (auto simp: settled_def)
  ultimately show ?thesis by (auto simp: gate_def condition_fails_def split: option.splits)
qed

theorem execute_skips_witness:
  "\<not> evaluate \<lparr>sc_step = ''a'', sc_equals = None, sc_not_equals = Some ''ok'', sc_contains = None\<rparr>
     (ex_results (ex_run (Some 2) [Attempt 1]))"
proof -
  let ?en = "ex_engine (Some 2)"
  obtain r where ex: "execute ?en (\<lambda>_. [Attempt 1]) (init_exec (en_config ?en) None 0) = (ex_run (Some 2) [Attempt 1], r)"
    using ex_run_execute by blast
  have "ex_steps ! 3 \<in> set (wf_steps (en_config ?en))" by (simp add: ex_steps_def)
  from execute_skips [OF ex_wf ex_runnable ex this] ex_run_statuses(2) show ?thesis
    by (simp add: ex_steps_def)
qed

lemma denoted_concurrency [simp]:
  "denoted (en\<lparr>en_concurrency := c\<rparr>) w st = denoted en w st"
proof -
  have "outcome (en\<lparr>en_concurrency := c\<rparr>) s ctx w = outcome en s ctx w" for s ctx w
    by (simp add: outcome_def run_task_def split: option.splits)
  then have "final_view (en\<lparr>en_concurrency := c\<rparr>) w s st = final_view en w s st" for s
    by (simp add: final_view_def)
  then show ?thesis by (simp add: denoted_def)
qed

text \<open>
  C7: when each task's outcome is a function of its parameters and of the results of the
  steps it depends on, every run of a workflow ends with the same status, result, counts,
  error and dead letter for every step: sequential and parallel runs agree, whatever the
  schedule, the number of workers and the state of the world.
\<close>

theorem execute_schedule_independent:
  assumes "wf_workflow (en_config en)" and "runnable_steps en (wf_steps (en_config en))"
    and "local_tasks en"
    and "execute en scheds (init_exec (en_config en) tr w) = (st, r)"
    and "execute (en\<lparr>en_concurrency := c\<rparr>) scheds' (init_exec (en_config en) tr' w') = (st', r')"
    and "s \<in> set (wf_steps (en_config en))"
  shows "step_view st (st_id s) = step_view st' (st_id s)"
proof -
  let ?en' = "en\<lparr>en_concurrency := c\<rparr>"
  have config: "en_config ?en' = en_config en" by simp
  have run': "runnable_steps ?en' (wf_steps (en_config ?en'))"
    using assms(2) by (simp add: runnable_steps_def)
  have "outcome ?en' s ctx w = outcome en s ctx w" for s ctx w
    by (simp add: outcome_def run_task_def split: option.splits)
  with assms(3) have loc': "local_tasks ?en'" by (simp add: local_tasks_def)
  have wf': "wf_workflow (en_config ?en')" using assms(1) by simp
  obtain w0 :: 'a where True by blast
  obtain st1 where st1: "execute en scheds (init_exec (en_config en) tr w) = (st1, None)"
    and fin1: "\<And>s. s \<in> set (wf_steps (en_config en)) \<Longrightarrow> settled st1 (st_id s)" and den1: "denoted en w0 st1"
    using execute_denoted [OF assms(1-3)] by metis
  obtain st2 where st2: "execute ?en' scheds' (init_exec (en_config ?en') tr' w') = (st2, None)"
    and fin2: "\<And>s. s \<in> set (wf_steps (en_config ?en')) \<Longrightarrow> settled st2 (st_id s)"
    and den2: "denoted ?en' w0 st2"
    using execute_denoted [OF wf' run' loc'] by metis
  have same: "st1 = st" "st2 = st'" using st1 st2 assms(4,5) config by simp_all
  have known: "known_deps (wf_steps (en_config en))" and acyc: "acyclic (dep_rel (wf_steps (en_config en)))"
    using assms(1) by (simp_all add: wf_workflow_def)
  have "denoted en w0 st" "denoted en w0 st'" using den1 den2 same by simp_all
  then show ?thesis
  proof (rule denoted_unique [OF assms(3) known acyc])
    show "st_id s \<in> st_id ` set (wf_steps (en_config en))" using assms(6) by simp
  qed (use fin1 fin2 same in auto)
qed

theorem execute_schedule_independent_witness:
  "step_view (ex_run None []) ''b'' = step_view (ex_run (Some 3) [Submit, Submit, Start, Start, Attempt 1]) ''b''"
proof -
  let ?en = "ex_engine None" and ?en' = "ex_engine (Some 3)"
  let ?sched = "[Submit, Submit, Start, Start, Attempt 1]"
  obtain r where ex: "execute ?en (\<lambda>_. []) (init_exec (en_config ?en) None 0) = (ex_run None [], r)"
    using ex_run_execute by blast
  obtain r' where ex': "execute ?en' (\<lambda>_. ?sched) (init_exec (en_config ?en') None 0) = (ex_run (Some 3) ?sched, r')"
    using ex_run_execute by blast
  have "(?en\<lparr>en_concurrency := Some 3\<rparr>) = ?en'" "en_config ?en' = en_config ?en" by (simp_all add: ex_engine_def)
  with ex' have ex'': "execute (?en\<lparr>en_concurrency := Some 3\<rparr>) (\<lambda>_. ?sched) (init_exec (en_config ?en) None 0)
      = (ex_run (Some 3) ?sched, r')" by simp
  have "ex_steps ! 2 \<in> set (wf_steps (en_config ?en))" by (simp add: ex_steps_def)
  from execute_schedule_independent [OF ex_wf ex_runnable ex_local ex ex'' this] show ?thesis
    by (simp add: ex_steps_def)
qed

text \<open>Two independent steps, of which \<open>y\<close> looks for the result of \<open>x\<close> in its context.\<close>

definition peek_engine :: "nat engine" where
  "peek_engine =
     \<lparr>en_config = \<lparr>wf_name = ''race'',
        wf_steps =
          [\<lparr>st_id = ''x'', st_task = ''echo'', st_depends_on = None, st_retries = 0,
            st_params = [], st_condition = None\<rparr>,
           \<lparr>st_id = ''y'', st_task = ''peek'', st_depends_on = None, st_retries = 0,
            st_params = [], st_condition = None\<rparr>],
        wf_schedule = None, wf_typed_io = False\<rparr>,
      en_registry = [(''echo'', task_of (\<lambda>w ctx ps. (w, Inr (PyStr ''ok'')))),
                     (''peek'', task_of (\<lambda>w ctx ps. (w, Inr (PyBool (dget ctx ''x'' \<noteq> None)))))],
      en_on_step = None, en_max_backoff = 8, en_concurrency = Some 2, en_typed_io = False\<rparr>"

definition peek_run :: "choice list \<Rightarrow> nat exec" where
  "peek_run sched = fst (execute peek_engine (\<lambda>_. sched) (init_exec (en_config peek_engine) None 0))"


text \<open>
  C9: the trace of any run, failing or not, numbers its events 1, 2, ... without gaps, and
  a step starts or is skipped only after every step it depends on (its condition's source
  included) has a \<open>step.completed\<close>, \<open>step.failed\<close> or \<open>step.skipped\<close> event.
\<close>

theorem execute_trace_order:
  assumes "distinct (step_ids (wf_steps (en_config en)))"
    and "execute en scheds (init_exec (en_config en) (Some (new_trace trigger run)) w) = (st, r)"
    and "ex_trace st = Some t"
  shows "map ev_sequence (tc_events t) = [1..<Suc (length (tc_events t))]
    \<and> (\<forall>i < length (tc_events t). \<forall>s \<in> set (wf_steps (en_config en)). \<forall>d \<in> set (step_deps s).
         ev_kind (tc_events t ! i) \<in> {''step.started'', ''step.skipped''}
         \<and> ev_step_id (tc_events t ! i) = Some (st_id s) \<longrightarrow>
         (\<exists>j < i. ev_step_id (tc_events t ! j) = Some d
            \<and> ev_kind (tc_events t ! j) \<in> {''step.completed'', ''step.failed'', ''step.skipped''}))"
proof (intro conjI allI ballI impI)
  have "numbered_exec st"
    by (rule execute_induct [where P = numbered_exec, OF assms(2)])
       (simp add: numbered_exec_def init_exec_def, rule numbered_change)
  with assms(3) show "map ev_sequence (tc_events t) = [1..<Suc (length (tc_events t))]"
    by (simp add: numbered_exec_def numbered_def)
  have causal: "causal (wf_steps (en_config en)) (tc_events t)"
    using traced_execute [OF assms(2)] assms(1,3) by (simp add: traced_def step_ids_def)
  fix i s d
  assume i: "i < length (tc_events t)" and s: "s \<in> set (wf_steps (en_config en))"
    and d: "d \<in> set (step_deps s)"
    and k: "ev_kind (tc_events t ! i) \<in> {''step.started'', ''step.skipped''}
      \<and> ev_step_id (tc_events t ! i) = Some (st_id s)"
  from k have "start_kind (ev_kind (tc_events t ! i))"
    by (simp only: start_kind_def insert_iff empty_iff simp_thms)
  with causal i s d k have "d \<in> ended (take i (tc_events t))" unfolding causal_def by blast
  then obtain e where e: "e \<in> set (take i (tc_events t))" "ev_step_id e = Some d" "end_kind (ev_kind e)"
    by (auto simp: ended_def)
  then obtain j where "j < i" "tc_events t ! j = e" using i by (auto simp: in_set_conv_nth)
  with e show "\<exists>j < i. ev_step_id (tc_events t ! j) = Some d
        \<and> ev_kind (tc_events t ! j) \<in> {''step.completed'', ''step.failed'', ''step.skipped''}"
    by (auto simp only: end_kind_def insert_iff)
qed

definition traced_run :: "int option \<Rightarrow> nat exec" where
  "traced_run c = fst (execute (ex_engine c) (\<lambda>_. [])
     (init_exec (en_config (ex_engine c)) (Some (new_trace None (Some ''r1''))) 0))"

theorem execute_trace_order_witness:
  "\<exists>t. ex_trace (traced_run (Some 2)) = Some t \<and> map ev_sequence (tc_events t) = [1..<Suc (length (tc_events t))]"
proof -
  let ?en = "ex_engine (Some 2)"
  obtain r where ex: "execute ?en (\<lambda>_. []) (init_exec (en_config ?en) (Some (new_trace None (Some ''r1''))) 0)
      = (traced_run (Some 2), r)"
    by (cases "execute ?en (\<lambda>_. []) (init_exec (en_config ?en) (Some (new_trace None (Some ''r1''))) 0)")
       (simp add: traced_run_def)
  have "ex_trace (traced_run (Some 2)) \<noteq> None" by code_simp
  then obtain t where t: "ex_trace (traced_run (Some 2)) = Some t" by blast
  have "distinct (step_ids (wf_steps (en_config ?en)))" by (simp add: step_ids_def ex_steps_def)
  from execute_trace_order [OF this ex t] t show ?thesis by blast
qed

text \<open>
  C10: the retry loop calls the task until its first success, at most \<open>retries + 1\<close> times,
  sleeping \<open>min (0.5 * 2 ** n) max_backoff\<close> after the \<open>n\<close>-th failure if an attempt is left;
  it leaves the step with the first success as its result, or \<open>FAILED\<close> with the last error
  and a dead letter.
\<close>

theorem run_with_retry_reference:
  assumes "worker_at s 0 st" and "0 \<le> st_retries s" and "st_retries s \<le> 1024"
    and "run_with_retry en t s ctx tr st = (st', r)"
    and "tries en t s ctx (nat (st_retries s + 1)) (ex_world st) = (errors, result, w')"
  shows "r = Inr (result \<noteq> None) \<and> ex_world st' = w'
    \<and> ex_sleeps st' = ex_sleeps st
        @ map (\<lambda>n. min (1 / 2 * 2 ^ n) (en_max_backoff en)) [0..<min (length errors) (nat (st_retries s))]
    \<and> step_view st' (st_id s) =
        (case result of
           Some v \<Rightarrow> (COMPLETED, Some v, length errors, length errors + 1, None, [])
         | None \<Rightarrow> (FAILED, None, length errors, length errors, Some (last errors),
             [\<lparr>dl_step_id = st_id s, dl_task = st_task s, dl_error = last errors,
               dl_attempts = length errors, dl_params = st_params s\<rparr>]))"
proof -
  have n: "step_work s - 0 = nat (st_retries s + 1)" by (simp add: step_work_def)
  have "errors \<noteq> []" if "result = None"
  proof -
    obtain k where "nat (st_retries s + 1) = Suc k" using assms(2) by (metis Suc_nat_eq_nat_zadd1 add.commute)
    with assms(5) that show ?thesis by (auto split: prod.splits sum.splits)
  qed
  with retry_loop_reference [OF assms(4) [unfolded run_with_retry_def] assms(1-3) assms(5) [folded n]]
  show ?thesis by (cases result) (simp_all add: delays_def dead_entry_def)
qed

theorem run_with_retry_reference_witness:
  "ex_sleeps (fst (run_with_retry (ex_engine None) (task_of (\<lambda>w ctx ps. (Suc w, if w < 2 then Inl ''boom'' else Inr PyNone)))
      (ex_step ''p'' []) [] False (mark_running [ex_step ''p'' []] (init_exec
        \<lparr>wf_name = ''demo'', wf_steps = [ex_step ''p'' []], wf_schedule = None, wf_typed_io = False\<rparr> None 0))))
    = [1 / 2, 1]"
proof -
  let ?s = "ex_step ''p'' []"
  let ?t = "task_of (\<lambda>w ctx ps. (Suc w, if w < 2 then Inl ''boom'' else Inr PyNone))"
  let ?st = "mark_running [?s] (init_exec
    \<lparr>wf_name = ''demo'', wf_steps = [?s], wf_schedule = None, wf_typed_io = False\<rparr> None 0) :: nat exec"
  have at: "worker_at ?s 0 ?st"
    unfolding worker_at_def by (simp only: view_mark_running init_views) (simp add: step_work_def ex_step_def)
  have ret: "st_retries ?s = 3" by (simp add: ex_step_def)
  have world: "ex_world ?st = 0" "ex_sleeps ?st = []"
    by (simp_all add: init_exec_def trace_event_def set_status_def)
  have tr: "tries (ex_engine None) ?t ?s [] (nat (st_retries ?s + 1)) (ex_world ?st)
      = ([''boom'', ''boom''], Some PyNone, 3)"
    unfolding ret world by (simp add: numeral_eq_Suc run_task_def call_object_def task_of_def)
  obtain st' r where "run_with_retry (ex_engine None) ?t ?s [] False ?st = (st', r)" by force
  from run_with_retry_reference [OF at _ _ this tr] this world show ?thesis
    by (simp add: ret upt_rec numeral_eq_Suc)
qed

text \<open>
  C11: with more than 1024 retries, a task that always fails does not end as a failed step:
  the 1025th back-off does not convert to a float, the \<open>OverflowError\<close> leaves
  \<open>_run_with_retry\<close>, and the step stays \<open>RUNNING\<close> with neither an error nor a dead letter.
\<close>

theorem run_with_retry_overflow:
  assumes "\<And>w. \<exists>w' m. run_task en t s ctx w = (w', Inl m)" and "1025 \<le> st_retries s"
    and "worker_at s 0 st"
  shows "\<exists>st'. run_with_retry en t s ctx tr st
      = (st', Inl (OverflowError ''int too large to convert to float''))
    \<and> status_of st' (st_id s) = RUNNING \<and> dead_of st' (st_id s) = []
    \<and> error_of st' (st_id s) = None \<and> attempt_count st' (st_id s) = 1025"
  using retry_loop_overflow [OF assms] by (simp add: run_with_retry_def)

theorem run_with_retry_overflow_witness:
  "snd (run_with_retry (ex_engine None) (task_of (\<lambda>w ctx ps. (w, Inl ''boom'')))
      (ex_step ''p'' []\<lparr>st_retries := 2000\<rparr>) [] False (mark_running [ex_step ''p'' []\<lparr>st_retries := 2000\<rparr>]
        (init_exec \<lparr>wf_name = ''demo'', wf_steps = [ex_step ''p'' []\<lparr>st_retries := 2000\<rparr>], wf_schedule = None,
           wf_typed_io = False\<rparr> None 0)))
    = Inl (OverflowError ''int too large to convert to float'')"
proof -
  let ?s = "ex_step ''p'' []\<lparr>st_retries := 2000\<rparr>"
  let ?st = "mark_running [?s] (init_exec
    \<lparr>wf_name = ''demo'', wf_steps = [?s], wf_schedule = None, wf_typed_io = False\<rparr> None 0) :: nat exec"
  have at: "worker_at ?s 0 ?st"
    unfolding worker_at_def by (simp only: view_mark_running init_views) (simp add: step_work_def ex_step_def)
  have fails: "\<exists>w' m. run_task (ex_engine None) (task_of (\<lambda>w ctx ps. (w, Inl ''boom''))) ?s [] w = (w', Inl m)" for w
    by (simp add: run_task_def call_object_def task_of_def)
  have "1025 \<le> st_retries ?s" by simp
  from run_with_retry_overflow [OF fails this at, of False] show ?thesis by auto
qed

text \<open>
  A workflow with an unregistered task is refused before anything happens: no step
  runs, no event is traced, and the error lists the missing tasks once each, sorted.
\<close>

theorem execute_missing_tasks:
  assumes "s \<in> set (wf_steps (en_config en))" and "dget (en_registry en) (st_task s) = None"
  shows "\<exists>missing. execute en scheds st
      = (st, Some (ValueError (''Tasks not found in registry: '' @ join_str '', '' missing)))
    \<and> sorted missing \<and> distinct missing
    \<and> set missing = {t. dget (en_registry en) t = None \<and> t \<in> st_task ` set (wf_steps (en_config en))}"
proof -
  let ?m = "filter (\<lambda>t. dget (en_registry en) t = None) (map st_task (wf_steps (en_config en)))"
  have "st_task s \<in> set ?m" using assms by simp
  then have "?m \<noteq> []" by (metis empty_iff list.set(1))
  then show ?thesis
    by (intro exI [of _ "sort (remdups ?m)"]) (auto simp: execute_def validate_registry_def Let_def)
qed

theorem execute_missing_tasks_witness:
  "\<exists>missing. execute (ex_engine None\<lparr>en_registry := []\<rparr>) (\<lambda>_. []) (ex_run None [])
     = (ex_run None [], Some (ValueError (''Tasks not found in registry: '' @ join_str '', '' missing)))
   \<and> set missing = {''boom'', ''echo''}"
proof -
  let ?en = "ex_engine None\<lparr>en_registry := []\<rparr>"
  have steps: "wf_steps (en_config ?en) = ex_steps" by (simp add: ex_engine_def)
  have s: "ex_steps ! 0 \<in> set (wf_steps (en_config ?en))" by (simp add: steps) (simp add: ex_steps_def)
  have "st_task ` set ex_steps = {''boom'', ''echo''}" by (auto simp: ex_steps_def)
  with execute_missing_tasks [OF s, of "\<lambda>_. []" "ex_run None []"] show ?thesis
    unfolding steps by auto
qed

end
