(* ===== verification/Versions.thy ===== *)
theory Versions
  imports Libraries
begin

text \<open>
  \<open>versions.py\<close>: the content hash of a YAML definition and the version store. The locale
  \<open>version_store\<close> states what a store promises: a version is kept under its own content
  hash, and the first definition stored under a hash stays there. It is interpreted on
  \<open>InMemoryWorkflowVersionStore\<close> here and on the database store in \<open>Database\<close>.
\<close>

definition canonical_yaml_hash :: "libs \<Rightarrow> string \<Rightarrow> exn + string" where
  "canonical_yaml_hash L yaml_definition =
     (case safe_load L yaml_definition of
        Inl msg \<Rightarrow> Inl (WorkflowValidationError (''Invalid YAML: '' @ msg))
      | Inr parsed \<Rightarrow> Inr (sha256_hex L (safe_dump L parsed)))"

record workflow_version =
  vr_content_hash :: string
  vr_yaml_definition :: string

locale version_store =
  fixes L :: libs
    and put :: "string \<Rightarrow> 's \<Rightarrow> 's \<times> (exn + workflow_version)"
    and get :: "string \<Rightarrow> 's \<Rightarrow> 's \<times> (exn + workflow_version option)"
    and stored :: "'s \<Rightarrow> string \<Rightarrow> string option"
    and good :: "'s \<Rightarrow> bool"
  assumes put_good: "good s \<Longrightarrow> put y s = (s', q) \<Longrightarrow> good s'"
    and put_ok: "good s \<Longrightarrow> put y s = (s', Inr v) \<Longrightarrow>
      canonical_yaml_hash L y = Inr (vr_content_hash v)
      \<and> stored s' = (stored s)(vr_content_hash v \<mapsto> (case stored s (vr_content_hash v) of None \<Rightarrow> y | Some y' \<Rightarrow> y'))"
    and put_raises: "good s \<Longrightarrow> put y s = (s', Inl e) \<Longrightarrow> stored s' = stored s"
    and get_ok: "good s \<Longrightarrow> get h s = (s', r) \<Longrightarrow> good s' \<and> stored s' = stored s
      \<and> (\<forall>v. r = Inr v \<longrightarrow> v = map_option (\<lambda>y. \<lparr>vr_content_hash = h, vr_yaml_definition = y\<rparr>) (stored s h))"
begin

text \<open>Every stored definition has the hash it is stored under.\<close>

definition content_addressed :: "'s \<Rightarrow> bool" where
  "content_addressed s \<longleftrightarrow> (\<forall>h y. stored s h = Some y \<longrightarrow> canonical_yaml_hash L y = Inr h)"

lemma put_content_addressed:
  assumes "good s" and "content_addressed s" and "put y s = (s', r)"
  shows "content_addressed s'"
proof (cases r)
  case (Inl e)
  with assms put_raises [of s y s' e] show ?thesis by (simp add: content_addressed_def)
next
  case (Inr v)
  with put_ok [OF assms(1)] assms(3) have "canonical_yaml_hash L y = Inr (vr_content_hash v)"
    and "stored s' = (stored s)(vr_content_hash v \<mapsto> (case stored s (vr_content_hash v) of None \<Rightarrow> y | Some y' \<Rightarrow> y'))"
    by auto
  with assms(2) show ?thesis by (auto simp: content_addressed_def split: option.splits)
qed

text \<open>A version that is stored stays as it is, whatever is put later.\<close>

lemma put_keeps:
  assumes "good s" and "stored s h = Some y0" and "put y s = (s', r)"
  shows "stored s' h = Some y0"
  using assms put_ok [of s y s'] put_raises [of s y s'] by (cases r) auto

lemma put_get:
  assumes "good s" and "put y s = (s1, Inr v)" and "get (vr_content_hash v) s1 = (s2, Inr r)"
  shows "r = Some \<lparr>vr_content_hash = vr_content_hash v,
    vr_yaml_definition = (case stored s (vr_content_hash v) of None \<Rightarrow> y | Some y0 \<Rightarrow> y0)\<rparr>"
  using put_ok [OF assms(1,2)] get_ok [OF put_good [OF assms(1,2)] assms(3)] by simp

text \<open>
  Any sequence of puts keeps what was stored, and everything it stores is content-addressed.
\<close>

lemma puts_invariant:
  assumes "good s" and "content_addressed s"
  shows "good (foldl (\<lambda>s y. fst (put y s)) s ys) \<and> content_addressed (foldl (\<lambda>s y. fst (put y s)) s ys)
    \<and> (\<forall>h y. stored s h = Some y \<longrightarrow> stored (foldl (\<lambda>s y. fst (put y s)) s ys) h = Some y)"
  using assms
proof (induction ys arbitrary: s)
  case Nil
  then show ?case by simp
next
  case (Cons y ys)
  obtain s' r where p: "put y s = (s', r)" by force
  from Cons.IH [OF put_good [OF Cons.prems(1) p] put_content_addressed [OF Cons.prems p]]
    p put_keeps [OF Cons.prems(1) _ p] show ?case by simp
qed

end

section \<open>The in-memory store\<close>

type_synonym versions = "(string, workflow_version) dict"

definition version_put :: "libs \<Rightarrow> string \<Rightarrow> versions \<Rightarrow> versions \<times> (exn + workflow_version)" where
  "version_put L yaml_definition vs =
     (case canonical_yaml_hash L yaml_definition of
        Inl e \<Rightarrow> (vs, Inl e)
      | Inr h \<Rightarrow>
          (case dget vs h of
             Some v \<Rightarrow> (vs, Inr v)
           | None \<Rightarrow>
               (let v = \<lparr>vr_content_hash = h, vr_yaml_definition = yaml_definition\<rparr>
                in (dset h v vs, Inr v))))"

definition version_get :: "string \<Rightarrow> versions \<Rightarrow> versions \<times> (exn + workflow_version option)" where
  "version_get content_hash vs = (vs, Inr (dget vs content_hash))"

definition versions_good :: "versions \<Rightarrow> bool" where
  "versions_good vs \<longleftrightarrow> (\<forall>h v. dget vs h = Some v \<longrightarrow> vr_content_hash v = h)"

definition versions_stored :: "versions \<Rightarrow> string \<Rightarrow> string option" where
  "versions_stored vs h = map_option vr_yaml_definition (dget vs h)"

interpretation mem_versions: version_store L "version_put L" version_get versions_stored versions_good for L
proof
  show "versions_good s'" if "versions_good s" "version_put L y s = (s', q)" for s y s' q
    using that by (auto simp: version_put_def versions_good_def Let_def split: sum.splits option.splits if_splits)
  show "canonical_yaml_hash L y = Inr (vr_content_hash v) \<and> versions_stored s' =
      (versions_stored s)(vr_content_hash v \<mapsto>
        (case versions_stored s (vr_content_hash v) of None \<Rightarrow> y | Some y' \<Rightarrow> y'))"
    if "versions_good s" "version_put L y s = (s', Inr v)" for s y s' v
    using that
    by (auto simp: version_put_def versions_good_def versions_stored_def Let_def fun_eq_iff
          split: sum.splits option.splits)
  show "versions_good s' \<and> versions_stored s' = versions_stored s
      \<and> (\<forall>v. r = Inr v \<longrightarrow> v = map_option (\<lambda>y. \<lparr>vr_content_hash = h, vr_yaml_definition = y\<rparr>) (versions_stored s h))"
    if "versions_good s" "version_get h s = (s', r)" for s h s' r
    using that by (cases "dget s h") (auto simp: version_get_def versions_good_def versions_stored_def)
qed (auto simp: version_put_def Let_def split: sum.splits option.splits)

text \<open>The store after a sequence of puts.\<close>

definition versions_of :: "libs \<Rightarrow> string list \<Rightarrow> versions" where
  "versions_of L ys = foldl (\<lambda>vs y. fst (version_put L y vs)) [] ys"

lemma versions_good_empty: "versions_good [] \<and> versions_stored [] = (\<lambda>h. None)"
  by (simp add: versions_good_def versions_stored_def fun_eq_iff)

lemma version_put_stored:
  "versions_stored (fst (version_put L y vs)) h =
     (case versions_stored vs h of
        Some y0 \<Rightarrow> Some y0
      | None \<Rightarrow> if canonical_yaml_hash L y = Inr h then Some y else None)"
  by (auto simp: version_put_def versions_stored_def Let_def split: sum.splits option.splits)

lemma versions_foldl_stored:
  "versions_stored (foldl (\<lambda>vs y. fst (version_put L y vs)) vs ys) h =
     (case versions_stored vs h of
        Some y0 \<Rightarrow> Some y0
      | None \<Rightarrow> find (\<lambda>y. canonical_yaml_hash L y = Inr h) ys)"
  by (induction ys arbitrary: vs) (auto simp: version_put_stored split: option.splits)

text \<open>
  C23: after any sequence of puts into an empty store, every version the store returns is
  the first definition that was put with its hash: its own content hash is the one it is
  asked for, and later puts do not change it.
\<close>

theorem version_store_first:
  "version_get h (versions_of L ys) =
     (versions_of L ys,
      Inr (map_option (\<lambda>y. \<lparr>vr_content_hash = h, vr_yaml_definition = y\<rparr>)
             (find (\<lambda>y. canonical_yaml_hash L y = Inr h) ys)))"
proof -
  have good: "versions_good (versions_of L ys)"
    using mem_versions.puts_invariant [of "[]" L ys] versions_good_empty
    by (simp add: versions_of_def mem_versions.content_addressed_def)
  have st: "versions_stored (versions_of L ys) h = find (\<lambda>y. canonical_yaml_hash L y = Inr h) ys"
    using versions_good_empty by (simp add: versions_of_def versions_foldl_stored)
  obtain s' r where g: "version_get h (versions_of L ys) = (s', r)" by force
  then have "s' = versions_of L ys" and "\<exists>q. r = Inr q" by (auto simp: version_get_def)
  with mem_versions.get_ok [OF good g] st g show ?thesis by auto
qed

text \<open>
  The hash depends on the parsed data only: definitions that PyYAML loads to the same
  value (whatever their layout) have the same hash, and if dumping and hashing do not
  collide, only those do.
\<close>

theorem canonical_hash_iff_same_data:
  assumes "safe_load L y = Inr v" and "safe_load L y' = Inr v'"
    and "inj_on (sha256_hex L \<circ> safe_dump L) {v, v'}"
  shows "canonical_yaml_hash L y = canonical_yaml_hash L y' \<longleftrightarrow> v = v'"
  using assms by (auto simp: canonical_yaml_hash_def inj_on_def)

theorem canonical_hash_iff_same_data_witness:
  "canonical_yaml_hash (table_libs [(''a: 1'', PyInt 1), (''{a: 1}'', PyInt 1)]) ''a: 1''
   = canonical_yaml_hash (table_libs [(''a: 1'', PyInt 1), (''{a: 1}'', PyInt 1)]) ''{a: 1}''"
proof -
  let ?L = "table_libs [(''a: 1'', PyInt 1), (''{a: 1}'', PyInt 1)]"
  have "safe_load ?L ''a: 1'' = Inr (PyInt 1)" "safe_load ?L ''{a: 1}'' = Inr (PyInt 1)"
    by (simp_all add: table_libs_def)
  from canonical_hash_iff_same_data [OF this] show ?thesis by simp
qed

end
