(* ===== verification/Stores.thy ===== *)
theory Stores
  imports Prelude
begin

text \<open>
  The store interface of the schedule and webhook registries (the protocols
  \<open>ScheduleStore\<close> and \<open>WebhookStore\<close> of \<open>contracts.py\<close>): \<open>put\<close>, \<open>get\<close>,
  \<open>delete\<close>, \<open>list\<close>, each of which may raise. The locale \<open>keyed_store\<close> states what a
  provider promises, over the map from names to values it stands for. The in-memory stores
  (\<open>InMemoryScheduleStore\<close>, \<open>InMemoryWebhookStore\<close>) and the database stores interpret it.
\<close>

record ('v, 's) store_ops =
  so_put :: "'v \<Rightarrow> 's \<Rightarrow> 's \<times> (exn + unit)"
  so_get :: "string \<Rightarrow> 's \<Rightarrow> 's \<times> (exn + 'v option)"
  so_delete :: "string \<Rightarrow> 's \<Rightarrow> 's \<times> (exn + bool)"
  so_list :: "'s \<Rightarrow> 's \<times> (exn + 'v list)"

locale keyed_store =
  fixes ops :: "('v, 's) store_ops"
    and name_of :: "'v \<Rightarrow> string"
    and contents :: "'s \<Rightarrow> string \<Rightarrow> 'v option"
    and good :: "'s \<Rightarrow> bool"
  assumes named: "good s \<Longrightarrow> contents s n = Some v \<Longrightarrow> name_of v = n"
    and put_ok: "good s \<Longrightarrow> so_put ops v s = (s', Inr u) \<Longrightarrow>
      good s' \<and> contents s' = (contents s)(name_of v \<mapsto> v)"
    and put_raises: "good s \<Longrightarrow> so_put ops v s = (s', Inl e) \<Longrightarrow> good s' \<and> contents s' = contents s"
    and get_ok: "good s \<Longrightarrow> so_get ops n s = (s', r) \<Longrightarrow>
      good s' \<and> contents s' = contents s \<and> (\<forall>v. r = Inr v \<longrightarrow> v = contents s n)"
    and delete_ok: "good s \<Longrightarrow> so_delete ops n s = (s', Inr b) \<Longrightarrow>
      good s' \<and> (b \<longleftrightarrow> contents s n \<noteq> None) \<and> contents s' = (contents s)(n := None)"
    and delete_raises: "good s \<Longrightarrow> so_delete ops n s = (s', Inl e) \<Longrightarrow> good s' \<and> contents s' = contents s"
    and list_ok: "good s \<Longrightarrow> so_list ops s = (s', res) \<Longrightarrow>
      good s' \<and> contents s' = contents s
      \<and> (\<forall>vs. res = Inr vs \<longrightarrow> distinct (map name_of vs) \<and> set vs = {v. contents s (name_of v) = Some v})"
begin

text \<open>A value that was put is read back until its name is put again or deleted.\<close>

lemma put_get:
  assumes "good s" and "so_put ops v s = (s1, Inr u)" and "so_get ops n s1 = (s2, Inr r)"
  shows "r = (if n = name_of v then Some v else contents s n)"
  using put_ok [OF assms(1,2)] get_ok [of s1 n s2] assms(3) by auto

lemma delete_get:
  assumes "good s" and "so_delete ops n s = (s1, Inr b)" and "so_get ops m s1 = (s2, Inr r)"
  shows "r = (if m = n then None else contents s m)"
  using delete_ok [OF assms(1,2)] get_ok [of s1 m s2] assms(3) by auto

lemma list_names:
  assumes "good s" and "so_list ops s = (s', Inr vs)"
  shows "set (map name_of vs) = dom (contents s)"
proof -
  have vs: "set vs = {v. contents s (name_of v) = Some v}" using list_ok [OF assms] by simp
  show ?thesis
  proof (intro set_eqI iffI)
    fix n assume "n \<in> dom (contents s)"
    then obtain v where v: "contents s n = Some v" by auto
    with named [OF assms(1) v] vs show "n \<in> set (map name_of vs)" by force
  qed (auto simp: vs)
qed

lemma put_keeps_others:
  assumes "good s" and "so_put ops v s = (s', r)" and "n \<noteq> name_of v"
  shows "contents s' n = contents s n"
  using put_ok [OF assms(1)] put_raises [OF assms(1)] assms(2,3) by (cases r) fastforce+

end

section \<open>The in-memory stores\<close>

text \<open>
  Both are a dictionary from names to values; the values carry their name.
\<close>

definition mem_put :: "('v \<Rightarrow> string) \<Rightarrow> 'v \<Rightarrow> (string, 'v) dict \<Rightarrow> (string, 'v) dict \<times> (exn + unit)" where
  "mem_put name_of v records = (dset (name_of v) v records, Inr ())"

definition mem_get :: "string \<Rightarrow> (string, 'v) dict \<Rightarrow> (string, 'v) dict \<times> (exn + 'v option)" where
  "mem_get name records = (records, Inr (dget records name))"

definition mem_delete :: "string \<Rightarrow> (string, 'v) dict \<Rightarrow> (string, 'v) dict \<times> (exn + bool)" where
  "mem_delete name records = (ddel name records, Inr (dget records name \<noteq> None))"

definition mem_list :: "(string, 'v) dict \<Rightarrow> (string, 'v) dict \<times> (exn + 'v list)" where
  "mem_list records = (records, Inr (dvals records))"

definition mem_ops :: "('v \<Rightarrow> string) \<Rightarrow> ('v, (string, 'v) dict) store_ops" where
  "mem_ops name_of =
     \<lparr>so_put = mem_put name_of, so_get = mem_get, so_delete = mem_delete, so_list = mem_list\<rparr>"

definition mem_good :: "('v \<Rightarrow> string) \<Rightarrow> (string, 'v) dict \<Rightarrow> bool" where
  "mem_good name_of records \<longleftrightarrow>
     distinct (dkeys records) \<and> (\<forall>(n, v) \<in> set records. name_of v = n)"

lemmas mem_defs = mem_ops_def mem_put_def mem_get_def mem_delete_def mem_list_def

lemma set_dset: "set (dset k v d) \<subseteq> insert (k, v) (set d)"
  by (induction d) auto

lemma set_ddel: "set (ddel k d) \<subseteq> set d"
  by (induction d) auto

lemma mem_good_list:
  "mem_good name_of d \<Longrightarrow> map name_of (dvals d) = dkeys d"
  by (induction d) (auto simp: mem_good_def)

lemma mem_good_values:
  assumes "mem_good name_of d"
  shows "set (dvals d) = {v. dget d (name_of v) = Some v}"
proof -
  have d: "distinct (dkeys d)" and n: "\<forall>(n, v) \<in> set d. name_of v = n"
    using assms by (simp_all add: mem_good_def)
  show ?thesis
  proof (intro set_eqI iffI)
    fix v assume "v \<in> set (dvals d)"
    then obtain k where "(k, v) \<in> set d" by auto
    with n show "v \<in> {v. dget d (name_of v) = Some v}" by (auto simp: dget_Some_iff [OF d])
  next
    fix v assume "v \<in> {v. dget d (name_of v) = Some v}"
    then have "(name_of v, v) \<in> set d" by (simp add: dget_Some_iff [OF d])
    then show "v \<in> set (dvals d)" by force
  qed
qed

text \<open>The laws hold for every name function, hence for both stores.\<close>

interpretation mem: keyed_store "mem_ops name_of" name_of map_of "mem_good name_of" for name_of
proof
  show "name_of v = n" if "mem_good name_of s" "dget s n = Some v" for s n v
    using that map_of_SomeD by (fastforce simp: mem_good_def)
  show "mem_good name_of s' \<and> map_of s' = (map_of s)(name_of v \<mapsto> v)"
    if "mem_good name_of s" "so_put (mem_ops name_of) v s = (s', Inr u)" for s v s' u
    using that set_dset [of "name_of v" v s]
    by (auto simp: mem_defs mem_good_def update_conv split: prod.splits)
  show "mem_good name_of s' \<and> (b \<longleftrightarrow> dget s n \<noteq> None) \<and> map_of s' = (map_of s)(n := None)"
    if "mem_good name_of s" "so_delete (mem_ops name_of) n s = (s', Inr b)" for s n s' b
    using that set_ddel [of n s] by (auto simp: mem_defs mem_good_def delete_conv distinct_delete)
  show "mem_good name_of s' \<and> map_of s' = map_of s
      \<and> (\<forall>vs. r = Inr vs \<longrightarrow> distinct (map name_of vs) \<and> set vs = {v. dget s (name_of v) = Some v})"
    if "mem_good name_of s" "so_list (mem_ops name_of) s = (s', r)" for s s' r
    using that mem_good_list [OF that(1)] mem_good_values [OF that(1)]
    by (auto simp: mem_defs mem_good_def simp del: set_map map_map)
qed (auto simp: mem_defs)

end
