(* ===== verification/Webhooks.thy ===== *)
theory Webhooks
  imports Stores Libraries
begin

text \<open>
  \<open>webhooks.py\<close>: the trigger registry over a webhook store and the verification of an HMAC
  signature. The registry's operations take the store as their argument, as the class holds
  it; their properties are proved for every provider of \<open>keyed_store\<close>.
\<close>

record webhook_trigger =
  wh_name :: string
  wh_yaml_definition :: string
  wh_description :: string
  wh_secret :: "string option"

type_synonym 's webhook_ops = "(webhook_trigger, 's) store_ops"

definition webhook_register :: "'s webhook_ops \<Rightarrow> string \<Rightarrow> string \<Rightarrow> string \<Rightarrow> string option \<Rightarrow> 's
    \<Rightarrow> 's \<times> (exn + webhook_trigger)" where
  "webhook_register ops name yaml_definition description secret s =
     (let trigger = \<lparr>wh_name = name, wh_yaml_definition = yaml_definition,
                     wh_description = description, wh_secret = secret\<rparr>
      in case so_put ops trigger s of
           (s', Inl e) \<Rightarrow> (s', Inl e)
         | (s', Inr _) \<Rightarrow> (s', Inr trigger))"

definition webhook_get :: "'s webhook_ops \<Rightarrow> string \<Rightarrow> 's \<Rightarrow> 's \<times> (exn + webhook_trigger option)" where
  "webhook_get ops name s = so_get ops name s"

definition webhook_unregister :: "'s webhook_ops \<Rightarrow> string \<Rightarrow> 's \<Rightarrow> 's \<times> (exn + bool)" where
  "webhook_unregister ops name s = so_delete ops name s"

text \<open>The listing shows names and descriptions, never a secret.\<close>

definition list_triggers :: "'s webhook_ops \<Rightarrow> 's \<Rightarrow> 's \<times> (exn + (string \<times> string) list)" where
  "list_triggers ops s =
     (case so_list ops s of
        (s', Inl e) \<Rightarrow> (s', Inl e)
      | (s', Inr ts) \<Rightarrow> (s', Inr (map (\<lambda>t. (wh_name t, wh_description t)) ts)))"

text \<open>
  \<open>hmac.compare_digest\<close> on strings: they must be ASCII, otherwise it raises
  \<open>TypeError\<close>. A header value may hold any character up to 255.
\<close>

definition is_ascii :: "string \<Rightarrow> bool" where
  "is_ascii s = list_all (\<lambda>c. (of_char c :: nat) < 128) s"

lemma is_ascii_code [code]: "is_ascii s = list_all (\<lambda>c. code_point c < 128) s"
  by (simp add: is_ascii_def code_point_def list_all_iff)

definition compare_digest :: "string \<Rightarrow> string \<Rightarrow> exn + bool" where
  "compare_digest a b =
     (if is_ascii a \<and> is_ascii b then Inr (a = b)
      else Inl (TypeError ''comparing strings with non-ASCII characters is not supported''))"

definition check_signature :: "libs \<Rightarrow> webhook_trigger option \<Rightarrow> string \<Rightarrow> string option \<Rightarrow> exn + bool" where
  "check_signature L trigger body signature =
     (case trigger of
        None \<Rightarrow> Inr False
      | Some t \<Rightarrow>
          (case wh_secret t of
             None \<Rightarrow> Inr True
           | Some secret \<Rightarrow>
               if secret = [] then Inr True
               else (case signature of
                       None \<Rightarrow> Inr False
                     | Some sig \<Rightarrow>
                         if sig = [] \<or> \<not> startswith sig ''sha256='' then Inr False
                         else compare_digest (drop 7 sig) (hmac_hex L secret body))))"

definition verify_signature :: "libs \<Rightarrow> 's webhook_ops \<Rightarrow> string \<Rightarrow> string \<Rightarrow> string option \<Rightarrow> 's
    \<Rightarrow> 's \<times> (exn + bool)" where
  "verify_signature L ops name body signature s =
     (case webhook_get ops name s of
        (s', Inl e) \<Rightarrow> (s', Inl e)
      | (s', Inr trigger) \<Rightarrow> (s', check_signature L trigger body signature))"

section \<open>The registry over any store\<close>

locale webhook_registry = keyed_store ops wh_name contents good
  for ops :: "'s webhook_ops" and contents :: "'s \<Rightarrow> string \<Rightarrow> webhook_trigger option"
    and good :: "'s \<Rightarrow> bool"
begin

lemma register_then_get:
  assumes "good s" and "webhook_register ops name yaml desc secret s = (s1, Inr t)"
    and "webhook_get ops name s1 = (s2, Inr r)"
  shows "r = Some t \<and> t = \<lparr>wh_name = name, wh_yaml_definition = yaml, wh_description = desc, wh_secret = secret\<rparr>"
proof -
  let ?t = "\<lparr>wh_name = name, wh_yaml_definition = yaml, wh_description = desc, wh_secret = secret\<rparr>"
  have "so_put ops ?t s = (s1, Inr ())" "t = ?t"
    using assms(2) by (auto simp: webhook_register_def Let_def split: prod.splits sum.splits)
  with put_get [OF assms(1), of ?t s1 "()" name s2 r] assms(3) show ?thesis
    by (simp add: webhook_get_def)
qed

lemma verify_uses_registered:
  assumes "good s" and "webhook_register ops name yaml desc secret s = (s1, Inr t)"
    and "verify_signature L ops name body sig s1 = (s2, Inr b)"
  shows "check_signature L (Some t) body sig = Inr b"
proof -
  obtain r where g: "webhook_get ops name s1 = (s2, r)"
    using assms(3) by (cases "webhook_get ops name s1") (auto simp: verify_signature_def split: sum.splits)
  with assms(3) obtain q where "r = Inr q" "check_signature L q body sig = Inr b"
    by (cases r) (auto simp: verify_signature_def)
  with register_then_get [OF assms(1,2)] g show ?thesis by simp
qed

lemma unregistered_refuses:
  assumes "good s" and "webhook_unregister ops name s = (s1, Inr b)"
    and "verify_signature L ops name body sig s1 = (s2, Inr ok)"
  shows "\<not> ok"
proof -
  have good1: "good s1" and none: "contents s1 name = None"
    using delete_ok [OF assms(1)] assms(2) by (auto simp: webhook_unregister_def)
  obtain r where g: "so_get ops name s1 = (s2, r)"
    using assms(3) by (cases "so_get ops name s1") (auto simp: verify_signature_def webhook_get_def split: sum.splits)
  with assms(3) get_ok [OF good1 g] none show ?thesis
    by (cases r) (auto simp: verify_signature_def webhook_get_def check_signature_def)
qed

end

interpretation mem_webhooks: webhook_registry "mem_ops wh_name" map_of "mem_good wh_name"
  by unfold_locales

lemma check_signature_secret:
  assumes "wh_secret t = Some secret" and "secret \<noteq> []" and "is_ascii (hmac_hex L secret body)"
  shows "check_signature L (Some t) body sig = Inr True
    \<longleftrightarrow> sig = Some (''sha256='' @ hmac_hex L secret body)"
proof (cases sig)
  case None
  with assms show ?thesis by (simp add: check_signature_def)
next
  case (Some x)
  show ?thesis
  proof (cases "startswith x ''sha256=''")
    case True
    then obtain y where y: "x = ''sha256='' @ y" by (auto simp only: startswith_iff)
    have "check_signature L (Some t) body sig = compare_digest y (hmac_hex L secret body)"
      using assms(1,2) Some True by (simp add: check_signature_def y)
    moreover have "compare_digest y (hmac_hex L secret body) = Inr True \<longleftrightarrow> y = hmac_hex L secret body"
      using assms(3) by (auto simp: compare_digest_def)
    ultimately show ?thesis using Some y by auto
  next
    case False
    then have "x \<noteq> ''sha256='' @ y" for y by (auto simp only: startswith_iff)
    with False assms(1,2) Some show ?thesis by (auto simp: check_signature_def)
  qed
qed

text \<open>
  C24: after a webhook is registered with a secret (whatever was registered before), a request passes exactly when its
  signature header is \<open>sha256=\<close> followed by the hex HMAC of the body under that secret
  (which is a string of ASCII characters).
\<close>

theorem webhook_signature_iff:
  assumes "webhook_register (mem_ops wh_name) name yaml desc (Some secret) s = (s1, Inr t)"
    and "secret \<noteq> []" and "is_ascii (hmac_hex L secret body)"
  shows "snd (verify_signature L (mem_ops wh_name) name body sig s1) = Inr True
    \<longleftrightarrow> sig = Some (''sha256='' @ hmac_hex L secret body)"
proof -
  have t: "wh_secret t = Some secret" and g: "webhook_get (mem_ops wh_name) name s1 = (s1, Inr (Some t))"
    using assms(1) by (auto simp: webhook_register_def webhook_get_def mem_defs Let_def)
  have "snd (verify_signature L (mem_ops wh_name) name body sig s1) = check_signature L (Some t) body sig"
    by (simp add: verify_signature_def g)
  with check_signature_secret [OF t assms(2,3)] show ?thesis by simp
qed

theorem webhook_signature_iff_witness:
  "\<exists>s1. snd (verify_signature (table_libs []) (mem_ops wh_name) ''hook'' ''payload'' (Some ''sha256=key/payload'') s1) = Inr True
    \<and> snd (verify_signature (table_libs []) (mem_ops wh_name) ''hook'' ''payload'' None s1) \<noteq> Inr True"
proof -
  obtain s1 t where r: "webhook_register (mem_ops wh_name) ''hook'' ''name: x'' [] (Some ''key'') [] = (s1, Inr t)"
    by (simp add: webhook_register_def mem_defs Let_def)
  have h: "hmac_hex (table_libs []) ''key'' ''payload'' = ''key/payload''" by (simp add: table_libs_def)
  have "is_ascii (hmac_hex (table_libs []) ''key'' ''payload'')" unfolding h by code_simp
  note iff = webhook_signature_iff [OF r _ this]
  show ?thesis using iff [of "Some ''sha256=key/payload''"] iff [of None] h by auto
qed

text \<open>
  A signature header with a character above 127 is not refused: for a webhook with a
  secret the digest comparison raises \<open>TypeError\<close>.
\<close>

theorem webhook_signature_non_ascii:
  assumes "wh_secret t = Some secret" and "secret \<noteq> []" and "\<not> is_ascii junk"
  shows "check_signature L (Some t) body (Some (''sha256='' @ junk))
    = Inl (TypeError ''comparing strings with non-ASCII characters is not supported'')"
proof -
  have "startswith (''sha256='' @ junk) ''sha256=''" by (simp add: startswith_iff)
  with assms show ?thesis by (simp add: check_signature_def compare_digest_def)
qed

theorem webhook_signature_non_ascii_witness:
  "\<exists>e. check_signature (table_libs []) (Some \<lparr>wh_name = ''hook'', wh_yaml_definition = [], wh_description = [],
      wh_secret = Some ''key''\<rparr>) ''payload'' (Some (''sha256='' @ [CHR 0xE9])) = Inl e"
proof -
  have "\<not> is_ascii [CHR 0xE9]" by code_simp
  from webhook_signature_non_ascii [OF _ _ this, of _ "''key''"] show ?thesis by simp
qed

end
