(* ===== verification/Scheduler.thy ===== *)
theory Scheduler
  imports Stores Contracts Libraries
begin

text \<open>
  \<open>scheduler.py\<close>: registration of cron schedules, the due schedules at an instant and their
  dispatch. Instants are microseconds since 1970 in UTC. The scheduler works on one state
  \<open>'s\<close>, which holds the schedules, the idempotency claims and all that a dispatch acts on;
  the store, the claims, the clock and the dispatch function are arguments, as in the code.
\<close>

section \<open>Instants as ISO strings\<close>

text \<open>\<open>datetime.isoformat()\<close> of an instant in UTC, by the proleptic Gregorian calendar.\<close>

definition civil_of_days :: "int \<Rightarrow> int \<times> int \<times> int" where
  "civil_of_days days =
     (let z = days + 719468;
          era = z div 146097;
          doe = z mod 146097;
          yoe = (doe - doe div 1460 + doe div 36524 - doe div 146096) div 365;
          doy = doe - (365 * yoe + yoe div 4 - yoe div 100);
          mp = (5 * doy + 2) div 153;
          d = doy - (153 * mp + 2) div 5 + 1;
          m = (if mp < 10 then mp + 3 else mp - 9)
      in (yoe + era * 400 + (if m \<le> 2 then 1 else 0), m, d))"

definition pad :: "nat \<Rightarrow> int \<Rightarrow> string" where
  "pad n i = (let s = str_int i in replicate (n - length s) (CHR ''0'') @ s)"

definition isoformat :: "int \<Rightarrow> string" where
  "isoformat t =
     (let us = t mod 1000000; secs = t div 1000000;
          sod = secs mod 86400; (y, m, d) = civil_of_days (secs div 86400)
      in pad 4 y @ ''-'' @ pad 2 m @ ''-'' @ pad 2 d @ ''T''
         @ pad 2 (sod div 3600) @ '':'' @ pad 2 (sod div 60 mod 60) @ '':'' @ pad 2 (sod mod 60)
         @ (if us = 0 then [] else ''.'' @ pad 6 us) @ ''+00:00'')"

text \<open>
  For evaluation only: the test of an instant that is not yet known is stuck, which keeps its
  calendar from being expanded symbolically.
\<close>

definition iso_at :: "int \<Rightarrow> string" where
  "iso_at = isoformat"

lemmas iso_at_code [code] = isoformat_def [folded iso_at_def]

lemma isoformat_code [code]: "isoformat t = (if 0 \<le> t then iso_at t else iso_at t)"
  by (simp add: iso_at_def)

section \<open>Schedules\<close>

definition is_valid_cron :: "libs \<Rightarrow> string \<Rightarrow> bool" where
  "is_valid_cron L expression =
     (if has_croniter L then cron_valid L expression else length (split_ws expression) = 5)"

definition next_run_time :: "libs \<Rightarrow> string \<Rightarrow> int \<Rightarrow> exn + int" where
  "next_run_time L expression base =
     (if has_croniter L then Inr (cron_next L expression base)
      else Inl (RuntimeError ''croniter is required to compute next run times''))"

record scheduled_workflow =
  sw_name :: string
  sw_cron :: string
  sw_yaml_definition :: string
  sw_last_run :: "int option"
  sw_next_run :: "int option"
  sw_enabled :: bool

type_synonym 's schedule_ops = "(scheduled_workflow, 's) store_ops"

definition register :: "libs \<Rightarrow> 's schedule_ops \<Rightarrow> string \<Rightarrow> string \<Rightarrow> string \<Rightarrow> int \<Rightarrow> 's
    \<Rightarrow> 's \<times> (exn + scheduled_workflow)" where
  "register L ops name cron yaml_definition now s =
     (if \<not> is_valid_cron L cron
      then (s, Inl (ValueError (''Invalid cron expression: '' @ repr_str cron)))
      else (let sched = \<lparr>sw_name = name, sw_cron = cron, sw_yaml_definition = yaml_definition,
                         sw_last_run = None,
                         sw_next_run = (if has_croniter L then Some (cron_next L cron now) else None),
                         sw_enabled = True\<rparr>
            in case so_put ops sched s of
                 (s', Inl e) \<Rightarrow> (s', Inl e)
               | (s', Inr _) \<Rightarrow> (s', Inr sched)))"

definition unregister :: "'s schedule_ops \<Rightarrow> string \<Rightarrow> 's \<Rightarrow> 's \<times> (exn + bool)" where
  "unregister ops name s = so_delete ops name s"

definition schedule_row :: "scheduled_workflow \<Rightarrow> (string, pyval) dict" where
  "schedule_row s =
     [(''name'', PyStr (sw_name s)), (''cron'', PyStr (sw_cron s)), (''enabled'', PyBool (sw_enabled s)),
      (''last_run'', case sw_last_run s of None \<Rightarrow> PyNone | Some t \<Rightarrow> PyStr (isoformat t)),
      (''next_run'', case sw_next_run s of None \<Rightarrow> PyNone | Some t \<Rightarrow> PyStr (isoformat t))]"

definition list_schedules :: "'s schedule_ops \<Rightarrow> 's \<Rightarrow> 's \<times> (exn + (string, pyval) dict list)" where
  "list_schedules ops s =
     (case so_list ops s of
        (s', Inl e) \<Rightarrow> (s', Inl e)
      | (s', Inr scheds) \<Rightarrow> (s', Inr (map schedule_row scheds)))"

definition is_due :: "int \<Rightarrow> scheduled_workflow \<Rightarrow> bool" where
  "is_due now s = (sw_enabled s \<and> (case sw_next_run s of None \<Rightarrow> False | Some t \<Rightarrow> t \<le> now))"

definition due :: "'s schedule_ops \<Rightarrow> int \<Rightarrow> 's \<Rightarrow> 's \<times> (exn + scheduled_workflow list)" where
  "due ops now s =
     (case so_list ops s of
        (s', Inl e) \<Rightarrow> (s', Inl e)
      | (s', Inr scheds) \<Rightarrow> (s', Inr (filter (is_due now) scheds)))"

definition ran :: "libs \<Rightarrow> int \<Rightarrow> scheduled_workflow \<Rightarrow> scheduled_workflow" where
  "ran L now sched =
     (let s1 = sched\<lparr>sw_last_run := Some now\<rparr>
      in if has_croniter L then s1\<lparr>sw_next_run := Some (cron_next L (sw_cron sched) now)\<rparr> else s1)"

definition mark_ran :: "libs \<Rightarrow> 's schedule_ops \<Rightarrow> string \<Rightarrow> int \<Rightarrow> 's \<Rightarrow> 's \<times> (exn + unit)" where
  "mark_ran L ops name now s =
     (case so_get ops name s of
        (s1, Inl e) \<Rightarrow> (s1, Inl e)
      | (s1, Inr None) \<Rightarrow> (s1, Inr ())
      | (s1, Inr (Some sched)) \<Rightarrow> so_put ops (ran L now sched) s1)"

section \<open>Dispatch\<close>

type_synonym 's dispatch = "string \<Rightarrow> 's \<Rightarrow> 's \<times> (exn + (string, pyval) dict)"

text \<open>\<open>now or datetime.now(timezone.utc)\<close>: the clock is read when no instant is given.\<close>

definition at_time :: "('s \<Rightarrow> int) \<Rightarrow> int option \<Rightarrow> 's \<Rightarrow> int" where
  "at_time clock now s = (case now of Some t \<Rightarrow> t | None \<Rightarrow> clock s)"

definition fire_time :: "scheduled_workflow \<Rightarrow> string" where
  "fire_time sched = (case sw_next_run sched of Some t \<Rightarrow> isoformat t | None \<Rightarrow> ''unscheduled'')"

definition claim_fire :: "'s claim_op option \<Rightarrow> scheduled_workflow \<Rightarrow> 's \<Rightarrow> 's \<times> (exn + bool)" where
  "claim_fire idem sched s =
     (case idem of
        None \<Rightarrow> (s, Inr True)
      | Some cl \<Rightarrow> cl (''schedule:'' @ sw_name sched) (Some (fire_time sched)) s)"

definition dispatched_row :: "scheduled_workflow \<Rightarrow> (string, pyval) dict \<Rightarrow> (string, pyval) dict" where
  "dispatched_row sched result =
     [(''name'', PyStr (sw_name sched)), (''run_id'', get_default PyNone result ''run_id'')]"

fun dispatch_each :: "libs \<Rightarrow> 's schedule_ops \<Rightarrow> 's claim_op option \<Rightarrow> ('s \<Rightarrow> int) \<Rightarrow> 's dispatch
    \<Rightarrow> int option \<Rightarrow> scheduled_workflow list \<Rightarrow> 's \<Rightarrow> 's \<times> (exn + (string, pyval) dict list)" where
  "dispatch_each L ops idem clock dispatch now [] s = (s, Inr [])"
| "dispatch_each L ops idem clock dispatch now (sched # rest) s =
     (case claim_fire idem sched s of
        (s1, Inl e) \<Rightarrow> (s1, Inl e)
      | (s1, Inr False) \<Rightarrow> dispatch_each L ops idem clock dispatch now rest s1
      | (s1, Inr True) \<Rightarrow>
          (case dispatch (sw_yaml_definition sched) s1 of
             (s2, Inl e) \<Rightarrow> (s2, Inl e)
           | (s2, Inr result) \<Rightarrow>
               (case mark_ran L ops (sw_name sched) (at_time clock now s2) s2 of
                  (s3, Inl e) \<Rightarrow> (s3, Inl e)
                | (s3, Inr _) \<Rightarrow>
                    (case dispatch_each L ops idem clock dispatch now rest s3 of
                       (s4, Inl e) \<Rightarrow> (s4, Inl e)
                     | (s4, Inr rows) \<Rightarrow> (s4, Inr (dispatched_row sched result # rows))))))"

definition dispatch_due :: "libs \<Rightarrow> 's schedule_ops \<Rightarrow> 's claim_op option \<Rightarrow> ('s \<Rightarrow> int) \<Rightarrow> 's dispatch
    \<Rightarrow> int option \<Rightarrow> 's \<Rightarrow> 's \<times> (exn + (string, pyval) dict list)" where
  "dispatch_due L ops idem clock dispatch now s =
     (case due ops (at_time clock now s) s of
        (s1, Inl e) \<Rightarrow> (s1, Inl e)
      | (s1, Inr scheds) \<Rightarrow> dispatch_each L ops idem clock dispatch now scheds s1)"


section \<open>The scheduler over any store\<close>

text \<open>The namespace and key under which a fire time of a schedule is claimed.\<close>

definition fire_key :: "scheduled_workflow \<Rightarrow> string \<times> string" where
  "fire_key x = (''schedule:'' @ sw_name x, fire_time x)"

lemma fire_key_inj: "fire_key x = fire_key y \<Longrightarrow> sw_name x = sw_name y"
  by (simp add: fire_key_def)

lemma find_in_set: "find P xs = Some x \<Longrightarrow> x \<in> set xs \<and> P x"
  by (auto simp: find_Some_iff)

text \<open>A schedule that has run, at the instant of the tick or, if none is given, at some instant.\<close>

definition has_run :: "libs \<Rightarrow> int option \<Rightarrow> scheduled_workflow option \<Rightarrow> scheduled_workflow \<Rightarrow> bool" where
  "has_run L now q x \<longleftrightarrow> (\<exists>t. q = Some (ran L t x) \<and> (\<forall>u. now = Some u \<longrightarrow> t = u))"

text \<open>
  A schedule store and a claim store on one state, which do not disturb each other.
\<close>

locale scheduling =
  keyed_store ops sw_name contents good + idempotency claim claimed
  for ops :: "'s schedule_ops" and contents :: "'s \<Rightarrow> string \<Rightarrow> scheduled_workflow option"
    and good :: "'s \<Rightarrow> bool" and claim :: "'s claim_op" and claimed :: "'s \<Rightarrow> (string \<times> string) set" +
  assumes claim_frame: "good s \<Longrightarrow> claim ns key s = (s', r) \<Longrightarrow> good s' \<and> contents s' = contents s"
    and put_frame: "so_put ops v s = (s', q) \<Longrightarrow> claimed s' = claimed s"
    and get_frame: "so_get ops n s = (s', g) \<Longrightarrow> claimed s' = claimed s"
    and list_frame: "so_list ops s = (s', l) \<Longrightarrow> claimed s' = claimed s"
begin

lemma fire_time_nonempty: "fire_time x \<noteq> []"
  by (simp add: fire_time_def isoformat_def Let_def split: option.splits prod.splits)

text \<open>A dispatch that leaves schedules and claims alone.\<close>

definition frames :: "'s dispatch \<Rightarrow> bool" where
  "frames dispatch \<longleftrightarrow> (\<forall>y s s' r. good s \<longrightarrow> dispatch y s = (s', r) \<longrightarrow>
     good s' \<and> contents s' = contents s \<and> claimed s' = claimed s)"

lemma mark_ran_ok:
  assumes "good s" and "mark_ran L ops n now s = (s', Inr u)" and "contents s n = Some x"
  shows "good s' \<and> contents s' = (contents s)(n \<mapsto> ran L now x) \<and> claimed s' = claimed s"
proof -
  obtain s1 r where g: "so_get ops n s = (s1, r)" by force
  with assms(2) obtain q where r: "r = Inr q" by (cases r) (auto simp: mark_ran_def)
  have s1: "good s1" "contents s1 = contents s" and q: "q = contents s n"
    using get_ok [OF assms(1) g] r by simp_all
  have p: "so_put ops (ran L now x) s1 = (s', Inr u)"
    using assms(2,3) g r q by (simp add: mark_ran_def)
  have "sw_name x = n" by (rule named [OF assms(1,3)])
  then have "sw_name (ran L now x) = n" by (simp add: ran_def Let_def)
  with put_ok [OF s1(1) p] put_frame [OF p] get_frame [OF g] s1(2) show ?thesis by simp
qed

text \<open>
  A tick that returns: every due schedule whose fire time was not claimed before is
  dispatched once, its claim is kept and it is advanced; the others are left alone.
\<close>

lemma dispatch_each_ok:
  assumes "good s" and "distinct (map sw_name scheds)"
    and "\<And>x. x \<in> set scheds \<Longrightarrow> contents s (sw_name x) = Some x" and "frames dispatch"
    and "dispatch_each L ops (Some claim) clock dispatch now scheds s = (s', Inr rows)"
  shows "good s' \<and> claimed s' = claimed s \<union> fire_key ` set scheds
    \<and> (\<forall>n. case find (\<lambda>x. sw_name x = n) scheds of
          None \<Rightarrow> contents s' n = contents s n
        | Some x \<Rightarrow> if fire_key x \<in> claimed s then contents s' n = contents s n else has_run L now (contents s' n) x)
    \<and> map (\<lambda>row. dget row ''name'') rows
        = map (\<lambda>x. Some (PyStr (sw_name x))) (filter (\<lambda>x. fire_key x \<notin> claimed s) scheds)"
  using assms(1,2,3,5)
proof (induction scheds arbitrary: s rows)
  case Nil
  then show ?case by simp
next
  case (Cons x xs)
  obtain s1 r where cl: "claim (''schedule:'' @ sw_name x) (Some (fire_time x)) s = (s1, r)" by force
  with Cons.prems(4) obtain b where r: "r = Inr b" by (cases r) (auto simp: claim_fire_def)
  have s1: "good s1" "contents s1 = contents s" using claim_frame [OF Cons.prems(1) cl] by simp_all
  have b: "b \<longleftrightarrow> fire_key x \<notin> claimed s" and c1: "claimed s1 = insert (fire_key x) (claimed s)"
    using claim_granted [OF fire_time_nonempty] cl r by (auto simp: fire_key_def)
  have dist: "distinct (map sw_name xs)" and xs: "\<And>y. y \<in> set xs \<Longrightarrow> sw_name y \<noteq> sw_name x"
    using Cons.prems(2) by (auto simp: image_iff)
  then have other: "fire_key y \<in> claimed s1 \<longleftrightarrow> fire_key y \<in> claimed s" if "y \<in> set xs" for y
    using that c1 xs fire_key_inj [of y x] by auto
  have unfound: "find (\<lambda>y. sw_name y = sw_name x) xs = None"
    using xs by (auto simp: find_None_iff)
  have filt: "filter (\<lambda>y. fire_key y \<notin> claimed s1) xs = filter (\<lambda>y. fire_key y \<notin> claimed s) xs"
    using other by (intro filter_cong) auto
  show ?case
  proof (cases b)
    case False
    then have rest: "dispatch_each L ops (Some claim) clock dispatch now xs s1 = (s', Inr rows)"
      using Cons.prems(4) cl r by (simp add: claim_fire_def)
    have "contents s1 (sw_name y) = Some y" if "y \<in> set xs" for y
      using Cons.prems(3) that s1(2) by simp
    note ih = Cons.IH [OF s1(1) dist this rest]
    have ihn: "case find (\<lambda>x. sw_name x = n) xs of None \<Rightarrow> contents s' n = contents s1 n
        | Some x \<Rightarrow> if fire_key x \<in> claimed s1 then contents s' n = contents s1 n else has_run L now (contents s' n) x" for n
      using ih by simp
    have "case find (\<lambda>y. sw_name y = n) (x # xs) of None \<Rightarrow> contents s' n = contents s n
        | Some y \<Rightarrow> if fire_key y \<in> claimed s then contents s' n = contents s n else has_run L now (contents s' n) y" for n
    proof (cases "n = sw_name x")
      case True
      with ihn [of n] unfound False b s1(2) show ?thesis by simp
    next
      case False
      with ihn [of n] other s1(2) show ?thesis
        by (cases "find (\<lambda>y. sw_name y = n) xs") (auto dest: find_in_set)
    qed
    with ih filt False b c1 show ?thesis by (auto simp: fun_eq_iff)
  next
    case True
    obtain s2 r2 where d: "dispatch (sw_yaml_definition x) s1 = (s2, r2)" by force
    obtain result where r2: "r2 = Inr result"
      using Cons.prems(4) cl r True d by (cases r2) (auto simp: claim_fire_def)
    have s2: "good s2" "contents s2 = contents s1" "claimed s2 = claimed s1"
      using assms(4) s1(1) d by (auto simp: frames_def)
    obtain s3 r3 where m: "mark_ran L ops (sw_name x) (at_time clock now s2) s2 = (s3, r3)" by force
    obtain u where r3: "r3 = Inr u"
      using Cons.prems(4) cl r True d r2 m by (cases r3) (auto simp: claim_fire_def)
    have x: "contents s2 (sw_name x) = Some x" using Cons.prems(3) s1(2) s2(2) by simp
    have s3: "good s3" "contents s3 = (contents s)(sw_name x \<mapsto> ran L (at_time clock now s2) x)" "claimed s3 = claimed s1"
      using mark_ran_ok [OF s2(1) m [unfolded r3] x] s1(2) s2 by simp_all
    obtain rows' where rest: "dispatch_each L ops (Some claim) clock dispatch now xs s3 = (s', Inr rows')"
      and rows: "rows = dispatched_row x result # rows'"
      using Cons.prems(4) cl r True d r2 m r3
      by (auto simp: claim_fire_def split: prod.splits sum.splits)
    have adv: "has_run L now (contents s3 (sw_name x)) x"
      by (auto simp: has_run_def s3(2) at_time_def split: option.splits)
    have "contents s3 (sw_name y) = Some y" if "y \<in> set xs" for y
      using Cons.prems(3) [of y] that xs [OF that] s3(2) by simp
    note ih = Cons.IH [OF s3(1) dist this rest]
    have ihn: "case find (\<lambda>x. sw_name x = n) xs of None \<Rightarrow> contents s' n = contents s3 n
        | Some x \<Rightarrow> if fire_key x \<in> claimed s3 then contents s' n = contents s3 n else has_run L now (contents s' n) x" for n
      using ih by simp
    have "case find (\<lambda>y. sw_name y = n) (x # xs) of None \<Rightarrow> contents s' n = contents s n
        | Some y \<Rightarrow> if fire_key y \<in> claimed s then contents s' n = contents s n else has_run L now (contents s' n) y" for n
    proof (cases "n = sw_name x")
      case nx: True
      with ihn [of n] unfound True b adv show ?thesis by simp
    next
      case False
      with ihn [of n] other s3(2,3) show ?thesis
        by (cases "find (\<lambda>y. sw_name y = n) xs") (auto dest: find_in_set)
    qed
    with ih filt True b c1 s3(3) rows show ?thesis
      by (auto simp: fun_eq_iff dispatched_row_def)
  qed
qed

lemma due_ok:
  assumes "good s" and "due ops now s = (s', Inr scheds)"
  shows "good s' \<and> contents s' = contents s \<and> claimed s' = claimed s \<and> distinct (map sw_name scheds)
    \<and> set scheds = {x. contents s (sw_name x) = Some x \<and> is_due now x}"
proof -
  obtain r where l: "so_list ops s = (s', r)"
    using assms(2) by (cases "so_list ops s") (auto simp: due_def split: sum.splits)
  with assms(2) obtain vs where r: "r = Inr vs" and scheds: "scheds = filter (is_due now) vs"
    by (cases r) (auto simp: due_def)
  have vs: "distinct (map sw_name vs)" "set vs = {v. contents s (sw_name v) = Some v}"
    and s': "good s'" "contents s' = contents s"
    using list_ok [OF assms(1) l] r by simp_all
  from vs(1) have "distinct (map sw_name scheds)" unfolding scheds by (rule distinct_map_filter)
  with vs s' list_frame [OF l] scheds show ?thesis by auto
qed

text \<open>
  A whole tick. A schedule is advanced exactly if it is due and its fire time is claimed by
  this tick; nothing else changes.
\<close>

lemma dispatch_due_ok:
  assumes "good s" and "frames dispatch"
    and "dispatch_due L ops (Some claim) clock dispatch now s = (s', Inr rows)"
  shows "good s'
    \<and> (\<forall>n. case contents s n of
          None \<Rightarrow> contents s' n = None
        | Some x \<Rightarrow> if is_due (at_time clock now s) x \<and> fire_key x \<notin> claimed s
            then has_run L now (contents s' n) x else contents s' n = Some x)
    \<and> claimed s' = claimed s \<union> fire_key ` {x. contents s (sw_name x) = Some x \<and> is_due (at_time clock now s) x}
    \<and> (\<exists>names. map (\<lambda>row. dget row ''name'') rows = map (Some \<circ> PyStr) names \<and> distinct names
        \<and> set names = {n. \<exists>x. contents s n = Some x \<and> is_due (at_time clock now s) x \<and> fire_key x \<notin> claimed s})"
proof -
  let ?t = "at_time clock now s"
  obtain s1 r where d: "due ops ?t s = (s1, r)" by force
  with assms(3) obtain scheds where r: "r = Inr scheds"
    by (cases r) (auto simp: dispatch_due_def)
  have s1: "good s1" "contents s1 = contents s" "claimed s1 = claimed s"
    and sch: "distinct (map sw_name scheds)"
      "set scheds = {x. contents s (sw_name x) = Some x \<and> is_due ?t x}"
    using due_ok [OF assms(1) d [unfolded r]] by simp_all
  have each: "dispatch_each L ops (Some claim) clock dispatch now scheds s1 = (s', Inr rows)"
    using assms(3) d r by (simp add: dispatch_due_def)
  have "contents s1 (sw_name x) = Some x" if "x \<in> set scheds" for x
    using that sch(2) s1(2) by simp
  note ok = dispatch_each_ok [OF s1(1) sch(1) this assms(2) each]
  have "case contents s n of None \<Rightarrow> contents s' n = None
      | Some x \<Rightarrow> if is_due ?t x \<and> fire_key x \<notin> claimed s
          then has_run L now (contents s' n) x else contents s' n = Some x" for n
  proof (cases "find (\<lambda>x. sw_name x = n) scheds")
    case None
    then have "\<not> is_due ?t x" if "contents s n = Some x" for x
      using that sch(2) named [OF assms(1) that] by (auto simp: find_None_iff)
    moreover have "contents s' n = contents s n" using ok None s1(2) by (auto dest!: spec [of _ n])
    ultimately show ?thesis by (auto split: option.splits)
  next
    case (Some x)
    then have x: "x \<in> set scheds" "sw_name x = n" by (auto simp: find_Some_iff)
    then have c: "contents s n = Some x" "is_due ?t x" using sch(2) by auto
    have "if fire_key x \<in> claimed s1 then contents s' n = contents s1 n else has_run L now (contents s' n) x"
      using ok Some by (auto dest!: spec [of _ n])
    with c s1(2,3) show ?thesis by auto
  qed
  moreover let ?names = "map sw_name (filter (\<lambda>x. fire_key x \<notin> claimed s) scheds)"
  have "map (\<lambda>row. dget row ''name'') rows = map (Some \<circ> PyStr) ?names" using ok s1(3) by simp
  moreover have "distinct ?names" by (rule distinct_map_filter [OF sch(1)])
  moreover have "set ?names = {n. \<exists>x. contents s n = Some x \<and> is_due ?t x \<and> fire_key x \<notin> claimed s}"
    using sch(2) named [OF assms(1)] by (auto simp: image_iff)
  ultimately show ?thesis using ok s1(3) sch(2) by blast
qed

text \<open>
  A due schedule whose fire time is already claimed is passed over: nothing is dispatched
  and it is not advanced, so it is still due, at this fire time, at every later tick.
\<close>

lemma dispatch_due_stuck:
  assumes "good s" and "frames dispatch" and "contents s n = Some x" and "is_due (at_time clock now s) x"
    and "fire_key x \<in> claimed s"
    and "dispatch_due L ops (Some claim) clock dispatch now s = (s', Inr rows)"
  shows "contents s' n = Some x \<and> fire_key x \<in> claimed s' \<and> (\<forall>later \<ge> at_time clock now s. is_due later x)"
proof -
  have "contents s' n = Some x" "fire_key x \<in> claimed s'"
    using dispatch_due_ok [OF assms(1,2,6)] assms(3-5) by (auto dest!: spec [of _ n])
  with assms(4) show ?thesis by (auto simp: is_due_def split: option.splits)
qed

text \<open>A dispatch that raises leaves its schedule claimed and not advanced.\<close>

lemma dispatch_raises_claims:
  assumes "good s" and "frames dispatch" and "contents s (sw_name x) = Some x" and "fire_key x \<notin> claimed s"
    and "\<And>s. \<exists>s' e. dispatch (sw_yaml_definition x) s = (s', Inl e)"
    and "claim (''schedule:'' @ sw_name x) (Some (fire_time x)) s = (s1, Inr b)"
    and "dispatch_each L ops (Some claim) clock dispatch now (x # xs) s = (s', r)"
  shows "(\<exists>e. r = Inl e) \<and> good s' \<and> contents s' = contents s \<and> fire_key x \<in> claimed s'"
proof -
  have s1: "good s1" "contents s1 = contents s" using claim_frame [OF assms(1,6)] by simp_all
  have b: "b" "fire_key x \<in> claimed s1"
    using claim_granted [OF fire_time_nonempty assms(6)] assms(4) by (auto simp: fire_key_def)
  obtain s2 e where d: "dispatch (sw_yaml_definition x) s1 = (s2, Inl e)" using assms(5) by blast
  have "s' = s2" "r = Inl e" using assms(6,7) b d by (simp_all add: claim_fire_def)
  moreover have "good s2" "contents s2 = contents s1" "claimed s2 = claimed s1"
    using assms(2) s1(1) d by (auto simp: frames_def)
  ultimately show ?thesis using s1 b by simp
qed

end

end
