(* ===== verification/Auth.thy ===== *)
theory Auth
  imports PyValue
begin

text \<open>
  \<open>auth.py\<close> and \<open>_auth_policy\<close> of \<open>main.py\<close>: roles, the API-key policy and the
  fixed-window rate limiter. Times are exact (the code's floats, without rounding).
\<close>

section \<open>Roles and the policy\<close>

datatype role = VIEWER | OPERATOR | ADMIN

fun role_level :: "role \<Rightarrow> nat" where
  "role_level VIEWER = 1"
| "role_level OPERATOR = 2"
| "role_level ADMIN = 3"

text \<open>An \<open>IntEnum\<close> is ordered by its values.\<close>

instantiation role :: linorder
begin

definition less_eq_role :: "role \<Rightarrow> role \<Rightarrow> bool" where
  "a \<le> b \<longleftrightarrow> role_level a \<le> role_level b"

definition less_role :: "role \<Rightarrow> role \<Rightarrow> bool" where
  "a < b \<longleftrightarrow> role_level a < role_level b"

instance
proof
  fix a b :: role
  assume "a \<le> b" "b \<le> a"
  then show "a = b" by (cases a; cases b) (simp_all add: less_eq_role_def)
qed (auto simp: less_eq_role_def less_role_def)

end

record auth_policy =
  ap_api_keys :: "(string, role) dict"
  ap_required :: bool

definition authorize :: "auth_policy \<Rightarrow> string option \<Rightarrow> role \<Rightarrow> bool" where
  "authorize p api_key minimum_role =
     (if \<not> ap_required p then True
      else case api_key of
             None \<Rightarrow> False
           | Some k \<Rightarrow> k \<noteq> [] \<and>
               (case dget (ap_api_keys p) k of None \<Rightarrow> False | Some r \<Rightarrow> minimum_role \<le> r))"

definition role_names :: "(string, role) dict" where
  "role_names = [(''viewer'', VIEWER), (''operator'', OPERATOR), (''admin'', ADMIN)]"

definition add_mapping :: "(string, role) dict \<Rightarrow> string \<Rightarrow> (string, role) dict" where
  "add_mapping keys mapping =
     (case partition_char (CHR '':'') (strip mapping) of
        (key, separator, r) \<Rightarrow>
          if key \<noteq> [] \<and> separator \<noteq> [] then
            (case dget role_names (lower r) of None \<Rightarrow> keys | Some x \<Rightarrow> dset key x keys)
          else keys)"

definition make_auth_policy :: "string \<Rightarrow> bool \<Rightarrow> auth_policy" where
  "make_auth_policy workflow_api_keys auth_required =
     \<lparr>ap_api_keys = foldl add_mapping [] (split_char (CHR '','') workflow_api_keys),
      ap_required = auth_required\<rparr>"

section \<open>The rate limiter\<close>

record rate_limiter =
  rl_limit :: int
  rl_window_seconds :: rat
  rl_recognized :: "string list"
  rl_buckets :: "(string, rat \<times> int) dict"

definition bucket_of :: "rate_limiter \<Rightarrow> string option \<Rightarrow> string option \<Rightarrow> string" where
  "bucket_of l api_key client_id =
     (let client = ''client:'' @ (case client_id of None \<Rightarrow> ''anonymous''
                                 | Some c \<Rightarrow> if c = [] then ''anonymous'' else c)
      in case api_key of
           None \<Rightarrow> client
         | Some k \<Rightarrow> if k \<noteq> [] \<and> k \<in> set (rl_recognized l) then ''key:'' @ k else client)"

definition allow :: "rate_limiter \<Rightarrow> string option \<Rightarrow> string option \<Rightarrow> rat \<Rightarrow> rate_limiter \<times> bool" where
  "allow l api_key client_id now =
     (let bucket = bucket_of l api_key client_id;
          (start, count) = get_default (now, 0) (rl_buckets l) bucket;
          (start, count) = (if rl_window_seconds l \<le> now - start then (now, 0) else (start, count))
      in if rl_limit l \<le> count then (l, False)
         else (l\<lparr>rl_buckets := dset bucket (start, count + 1) (rl_buckets l)\<rparr>, True))"

section \<open>Properties of the policy\<close>

lemma startswith_refl [simp]: "startswith (p @ s) p"
  by (simp add: startswith_iff)

definition role_name :: "role \<Rightarrow> string" where
  "role_name r = (case r of VIEWER \<Rightarrow> ''viewer'' | OPERATOR \<Rightarrow> ''operator'' | ADMIN \<Rightarrow> ''admin'')"

text \<open>A key that the configuration string can hold.\<close>

definition clean_key :: "string \<Rightarrow> bool" where
  "clean_key k \<longleftrightarrow> k \<noteq> [] \<and> CHR '','' \<notin> set k \<and> CHR '':'' \<notin> set k \<and> \<not> is_space (hd k)"

definition entry :: "string \<times> role \<Rightarrow> string" where
  "entry kr = fst kr @ '':'' @ role_name (snd kr)"

lemma lower_role_names:
  "dget role_names (lower ''viewer'') = Some VIEWER"
  "dget role_names (lower ''operator'') = Some OPERATOR"
  "dget role_names (lower ''admin'') = Some ADMIN"
  by code_simp+

lemma letters_no_space: "\<not> is_space (CHR ''r'')" "\<not> is_space (CHR ''n'')"
  by code_simp+

lemma role_name_facts:
  "CHR '','' \<notin> set (role_name r)" "\<not> is_space (last (role_name r))" "role_name r \<noteq> []"
  "dget role_names (lower (role_name r)) = Some r"
  by (cases r; simp add: role_name_def letters_no_space lower_role_names)+

lemma split_char_single: "c \<notin> set w \<Longrightarrow> split_char c w = [w]"
  by (induction w) auto

lemma split_char_cons: "c \<notin> set w \<Longrightarrow> split_char c (w @ c # s) = w # split_char c s"
  by (induction w) auto

lemma split_join:
  "ws \<noteq> [] \<Longrightarrow> \<forall>w \<in> set ws. c \<notin> set w \<Longrightarrow> split_char c (join_str [c] ws) = ws"
proof (induction ws)
  case Nil
  then show ?case by simp
next
  case (Cons w ws)
  then show ?case by (cases ws) (simp_all add: split_char_single split_char_cons)
qed

lemma strip_id: "s \<noteq> [] \<Longrightarrow> \<not> is_space (hd s) \<Longrightarrow> \<not> is_space (last s) \<Longrightarrow> strip s = s"
proof -
  assume s: "s \<noteq> []" "\<not> is_space (hd s)" "\<not> is_space (last s)"
  then have "dropWhile is_space s = s" by (cases s) simp_all
  moreover have "dropWhile is_space (rev s) = rev s" using s by (cases "rev s") (auto simp: last_rev hd_rev)
  ultimately show ?thesis by (simp add: strip_def lstrip_def rstrip_def)
qed

lemma add_mapping_entry:
  assumes "clean_key k"
  shows "add_mapping keys (entry (k, r)) = dset k r keys"
proof -
  have "strip (entry (k, r)) = entry (k, r)"
    using assms role_name_facts(2,3) [of r]
    by (intro strip_id) (simp_all add: entry_def clean_key_def last_append)
  moreover have "partition_char (CHR '':'') (entry (k, r)) = (k, '':'', role_name r)"
    using assms by (simp add: entry_def partition_char_def clean_key_def takeWhile_append dropWhile_append)
  ultimately show ?thesis
    using assms role_name_facts(4) [of r] by (simp add: add_mapping_def clean_key_def)
qed

lemma foldl_add_mapping:
  "\<forall>kr \<in> set kvs. clean_key (fst kr) \<Longrightarrow>
     foldl add_mapping keys (map entry kvs) = foldl (\<lambda>d (k, r). dset k r d) keys kvs"
  by (induction kvs arbitrary: keys) (auto simp: add_mapping_entry split: prod.splits)

text \<open>
  C25: a configuration string \<open>key:role,...\<close> written from a list of keys and roles is
  parsed back to them, a later role of a key replacing an earlier one.
\<close>

theorem auth_policy_roundtrip:
  assumes "kvs \<noteq> []" and "\<forall>kr \<in> set kvs. clean_key (fst kr)"
  shows "ap_api_keys (make_auth_policy (join_str '','' (map entry kvs)) required) = dict_of kvs"
proof -
  have "CHR '','' \<notin> set (entry kr)" if "kr \<in> set kvs" for kr
    using assms(2) that role_name_facts(1) [of "snd kr"] by (auto simp: entry_def clean_key_def)
  then have "split_char (CHR '','') (join_str '','' (map entry kvs)) = map entry kvs"
    using assms(1) by (intro split_join) auto
  then show ?thesis
    using assms(2) by (simp add: make_auth_policy_def foldl_add_mapping dict_of_def)
qed

theorem auth_policy_roundtrip_witness:
  "ap_api_keys (make_auth_policy (join_str '','' (map entry [(''k1'', VIEWER), (''k2'', ADMIN), (''k1'', OPERATOR)])) True)
   = [(''k1'', OPERATOR), (''k2'', ADMIN)]"
proof -
  let ?kvs = "[(''k1'', VIEWER), (''k2'', ADMIN), (''k1'', OPERATOR)]"
  have "\<not> is_space (CHR ''k'')" by code_simp
  then have "\<forall>kr \<in> set ?kvs. clean_key (fst kr)" by (simp add: clean_key_def)
  from auth_policy_roundtrip [OF _ this, of True] show ?thesis by (simp add: dict_of_def)
qed

text \<open>
  When authorization is required, a request passes exactly when it carries a key that
  is configured with at least the role the endpoint asks for.
\<close>

theorem authorize_iff:
  assumes "kvs \<noteq> []" and "\<forall>kr \<in> set kvs. clean_key (fst kr)" and "distinct (map fst kvs)"
  shows "authorize (make_auth_policy (join_str '','' (map entry kvs)) True) key minimum
    \<longleftrightarrow> (\<exists>k r. key = Some k \<and> (k, r) \<in> set kvs \<and> role_level minimum \<le> role_level r)"
proof -
  have "CHR '','' \<notin> set (entry kr)" if "kr \<in> set kvs" for kr
    using assms(2) that role_name_facts(1) [of "snd kr"] by (auto simp: entry_def clean_key_def)
  then have "split_char (CHR '','') (join_str '','' (map entry kvs)) = map entry kvs"
    using assms(1) by (intro split_join) auto
  then have keys: "ap_api_keys (make_auth_policy (join_str '','' (map entry kvs)) True) = kvs"
    using assms(2,3) by (simp add: make_auth_policy_def foldl_add_mapping dict_of_def [symmetric] dict_of_distinct)
  have req: "ap_required (make_auth_policy (join_str '','' (map entry kvs)) True)"
    by (simp add: make_auth_policy_def)
  have ne: "(k, r) \<in> set kvs \<Longrightarrow> k \<noteq> []" for k r using assms(2) by (auto simp: clean_key_def)
  have mem: "(k, r) \<in> set kvs \<longleftrightarrow> dget kvs k = Some r" for k r
    using dget_Some_iff [OF assms(3)] by blast
  show ?thesis
    using ne by (auto simp: authorize_def req keys less_eq_role_def mem split: option.splits)
qed

theorem authorize_iff_witness:
  "authorize (make_auth_policy (join_str '','' (map entry [(''k1'', VIEWER), (''k2'', ADMIN)])) True) (Some ''k2'') OPERATOR
   \<and> \<not> authorize (make_auth_policy (join_str '','' (map entry [(''k1'', VIEWER), (''k2'', ADMIN)])) True) (Some ''k1'') OPERATOR"
proof -
  let ?kvs = "[(''k1'', VIEWER), (''k2'', ADMIN)]"
  have "\<not> is_space (CHR ''k'')" by code_simp
  then have "\<forall>kr \<in> set ?kvs. clean_key (fst kr)" by (simp add: clean_key_def)
  note iff = authorize_iff [OF _ this, of "Some ''k1''" OPERATOR] authorize_iff [OF _ this, of "Some ''k2''" OPERATOR]
  then show ?thesis by auto
qed

section \<open>Properties of the rate limiter\<close>

text \<open>A sequence of requests (key, client and time) and how many of one bucket pass.\<close>

fun allowed :: "string \<Rightarrow> (string option \<times> string option \<times> rat) list \<Rightarrow> rate_limiter \<Rightarrow> nat" where
  "allowed b [] l = 0"
| "allowed b ((key, client, now) # rs) l =
     (case allow l key client now of
        (l', ok) \<Rightarrow> (if ok \<and> bucket_of l key client = b then 1 else 0) + allowed b rs l')"

lemma allow_fixed:
  "allow l key client now = (l', ok) \<Longrightarrow>
     rl_limit l' = rl_limit l \<and> rl_window_seconds l' = rl_window_seconds l \<and> rl_recognized l' = rl_recognized l"
  by (auto simp: allow_def Let_def split: prod.splits if_splits)

lemma allow_other_bucket:
  "allow l key client now = (l', ok) \<Longrightarrow> bucket_of l key client \<noteq> b \<Longrightarrow>
     dget (rl_buckets l') b = dget (rl_buckets l) b"
  by (auto simp: allow_def Let_def split: prod.splits if_splits)

lemma bucket_of_cong: "rl_recognized l' = rl_recognized l \<Longrightarrow> bucket_of l' = bucket_of l"
  by (intro ext) (simp only: bucket_of_def)

lemma allow_in_window:
  assumes "dget (rl_buckets l) (bucket_of l key client) = Some (start, n)"
    and "now - start < rl_window_seconds l"
  shows "allow l key client now =
    (if rl_limit l \<le> n then (l, False)
     else (l\<lparr>rl_buckets := dset (bucket_of l key client) (start, n + 1) (rl_buckets l)\<rparr>, True))"
  using assms by (simp add: allow_def get_default_def not_le)

lemma allowed_window:
  assumes "dget (rl_buckets l) b = Some (start, n)" and "n \<le> rl_limit l"
    and "\<forall>(key, client, now) \<in> set rs. bucket_of l key client = b \<longrightarrow> now - start < rl_window_seconds l"
  shows "allowed b rs l = min (nat (rl_limit l - n))
    (length (filter (\<lambda>(key, client, now). bucket_of l key client = b) rs))"
  using assms
proof (induction rs arbitrary: l n)
  case Nil
  then show ?case by simp
next
  case (Cons r rs)
  obtain key client now where r: "r = (key, client, now)" by (cases r)
  obtain l' ok where a: "allow l key client now = (l', ok)" by force
  note fixed = allow_fixed [OF a]
  then have bk: "bucket_of l' = bucket_of l" by (intro bucket_of_cong) simp
  show ?case
  proof (cases "bucket_of l key client = b")
    case False
    then have "dget (rl_buckets l') b = Some (start, n)"
      using allow_other_bucket [OF a] Cons.prems(1) by simp
    from Cons.IH [OF this] Cons.prems fixed bk False a r show ?thesis by simp
  next
    case True
    then have w: "now - start < rl_window_seconds l" using Cons.prems(3) r by simp
    note al = allow_in_window [OF Cons.prems(1) [folded True] w] a
    show ?thesis
    proof (cases "rl_limit l \<le> n")
      case full: True
      with al have "l' = l" "\<not> ok" by simp_all
      with Cons.IH [OF Cons.prems(1,2)] Cons.prems(2,3) True full a r show ?thesis by simp
    next
      case False
      with al True have "dget (rl_buckets l') b = Some (start, n + 1)" "ok" by auto
      from Cons.IH [OF this(1)] this(2) Cons.prems(3) fixed bk False True a r show ?thesis by simp
    qed
  qed
qed



end
