(* ===== verification/Locks.thy ===== *)
theory Locks
  imports Prelude
begin

text \<open>
  \<open>locks.py\<close>: the lock providers behind \<open>with provider.acquire(key) as held\<close>. Entering
  the block and leaving it are separate steps, so that the blocks of several callers
  interleave: the step relations below give every interleaving. The Redis provider runs
  against \<open>MockRedisClient\<close> of \<open>testing.py\<close>, the repository's model of the
  commands it uses (\<open>SET NX EX\<close> and the compare-and-delete script).
\<close>

section \<open>The in-memory provider\<close>

type_synonym lock_keys = "string list"

definition lock_enter :: "string \<Rightarrow> lock_keys \<Rightarrow> lock_keys \<times> bool" where
  "lock_enter key keys =
     (let acquired = key \<notin> set keys in (if acquired then key # keys else keys, acquired))"

definition lock_exit :: "bool \<Rightarrow> string \<Rightarrow> lock_keys \<Rightarrow> lock_keys" where
  "lock_exit acquired key keys = (if acquired then removeAll key keys else keys)"

text \<open>The keys and the callers inside a block, with whether they acquired the lock.\<close>

inductive lock_step :: "lock_keys \<times> (nat \<times> string \<times> bool) list \<Rightarrow>
    lock_keys \<times> (nat \<times> string \<times> bool) list \<Rightarrow> bool" where
  enter: "lock_enter key keys = (keys', acquired) \<Longrightarrow>
    lock_step (keys, inside) (keys', (c, key, acquired) # inside)"
| exit: "(c, key, acquired) \<in> set inside \<Longrightarrow>
    lock_step (keys, inside) (lock_exit acquired key keys, remove1 (c, key, acquired) inside)"

inductive_cases lock_stepE: "lock_step s s'"

text \<open>The keys of the callers that hold their lock.\<close>

definition held_keys :: "(nat \<times> string \<times> bool) list \<Rightarrow> string list" where
  "held_keys inside = map (fst \<circ> snd) (filter (snd \<circ> snd) inside)"

lemma held_keys_simps [simp]:
  "held_keys [] = []"
  "held_keys ((c, key, acquired) # inside) = (if acquired then key # held_keys inside else held_keys inside)"
  by (simp_all add: held_keys_def)

lemma held_keys_mem: "k \<in> set (held_keys inside) \<longleftrightarrow> (\<exists>c. (c, k, True) \<in> set inside)"
  by (induction inside) (auto split: if_splits)

lemma held_keys_remove_other: "held_keys (remove1 (c, key, False) inside) = held_keys inside"
  by (induction inside) (auto split: if_splits)

lemma held_keys_remove:
  "(c, key, True) \<in> set inside \<Longrightarrow> distinct (held_keys inside) \<Longrightarrow>
     distinct (held_keys (remove1 (c, key, True) inside))
     \<and> set (held_keys (remove1 (c, key, True) inside)) = set (held_keys inside) - {key}"
proof (induction inside)
  case Nil
  then show ?case by simp
next
  case (Cons x inside)
  obtain c' k' a where x: "x = (c', k', a)" by (cases x)
  show ?case
  proof (cases "x = (c, key, True)")
    case True
    with Cons.prems(2) show ?thesis by simp
  next
    case False
    with Cons.prems(1) have m: "(c, key, True) \<in> set inside" by auto
    then have "key \<in> set (held_keys inside)" by (auto simp: held_keys_mem)
    with Cons.IH [OF m] Cons.prems(2) False x show ?thesis by (cases a) auto
  qed
qed

definition lock_inv :: "lock_keys \<times> (nat \<times> string \<times> bool) list \<Rightarrow> bool" where
  "lock_inv s \<longleftrightarrow> distinct (held_keys (snd s)) \<and> set (fst s) = set (held_keys (snd s))"

lemma lock_inv_step:
  assumes "lock_step s s'" and "lock_inv s"
  shows "lock_inv s'"
  using assms(1)
proof (cases rule: lock_step.cases)
  case (enter key keys keys' acquired inside c)
  have a: "acquired \<longleftrightarrow> key \<notin> set keys" and k: "keys' = (if acquired then key # keys else keys)"
    using enter(3) by (auto simp: lock_enter_def Let_def)
  show ?thesis
  proof (cases acquired)
    case True
    with assms(2) enter(1,2) a k show ?thesis by (simp add: lock_inv_def)
  next
    case False
    with assms(2) enter(1,2) k show ?thesis by (simp add: lock_inv_def)
  qed
next
  case (exit c key acquired inside keys)
  with assms(2) held_keys_remove [of c key inside] show ?thesis
    by (cases acquired) (auto simp: lock_inv_def lock_exit_def held_keys_remove_other)
qed

text \<open>
  C28: in every interleaving of blocks on the in-memory provider, no two callers hold the
  lock of the same key at the same time, and a key can be acquired exactly when nobody
  holds it.
\<close>

theorem memory_lock_exclusive:
  assumes "lock_step\<^sup>*\<^sup>* ([], []) (keys, inside)"
  shows "distinct (map (fst \<circ> snd) (filter (snd \<circ> snd) inside))
    \<and> (snd (lock_enter k keys) \<longleftrightarrow> (\<forall>c. (c, k, True) \<notin> set inside))"
proof -
  have "lock_inv ([], [])" by (simp add: lock_inv_def)
  with assms have inv: "lock_inv (keys, inside)"
    by (induction rule: rtranclp_induct) (auto intro: lock_inv_step)
  then have "distinct (held_keys inside)" and "k \<in> set keys \<longleftrightarrow> (\<exists>c. (c, k, True) \<in> set inside)"
    by (simp_all add: lock_inv_def held_keys_mem)
  then show ?thesis unfolding held_keys_def by (simp add: lock_enter_def Let_def)
qed

lemma lock_example:
  "lock_step\<^sup>*\<^sup>* ([], []) ([''k''], [(2, ''k'', False), (1, ''k'', True)])"
proof (rule converse_rtranclp_into_rtranclp [where r = lock_step])
  show "lock_step ([], []) ([''k''], [(1, ''k'', True)])"
    by (rule lock_step.enter) (simp add: lock_enter_def)
  show "lock_step\<^sup>*\<^sup>* ([''k''], [(1, ''k'', True)]) ([''k''], [(2, ''k'', False), (1, ''k'', True)])"
    by (rule r_into_rtranclp [where r = lock_step], rule lock_step.enter) (simp add: lock_enter_def)
qed

theorem memory_lock_exclusive_witness: "\<not> snd (lock_enter ''k'' [''k''])"
proof -
  have "(1, ''k'', True) \<in> set [(2 :: nat, ''k'', False), (1, ''k'', True)]" by simp
  with memory_lock_exclusive [OF lock_example, of "''k''"] show ?thesis by blast
qed

section \<open>The Redis provider\<close>

text \<open>
  The client's values and expiry times; times are integers. An entry has expired when the
  time is past its expiry.
\<close>

record redis =
  rd_data :: "(string, string) dict"
  rd_ttls :: "(string, int) dict"

definition redis_delete :: "string \<Rightarrow> redis \<Rightarrow> redis" where
  "redis_delete key r =
     (if dget (rd_data r) key = None then r
      else r\<lparr>rd_data := ddel key (rd_data r), rd_ttls := ddel key (rd_ttls r)\<rparr>)"

definition redis_get :: "int \<Rightarrow> string \<Rightarrow> redis \<Rightarrow> redis \<times> string option" where
  "redis_get now key r =
     (if (case dget (rd_ttls r) key of None \<Rightarrow> False | Some t \<Rightarrow> t < now)
      then (redis_delete key r, None)
      else (r, dget (rd_data r) key))"

definition redis_set_nx :: "int \<Rightarrow> string \<Rightarrow> string \<Rightarrow> int \<Rightarrow> redis \<Rightarrow> redis \<times> bool" where
  "redis_set_nx now key v ex r =
     (if dget (rd_data r) key \<noteq> None
         \<and> (case dget (rd_ttls r) key of None \<Rightarrow> True | Some t \<Rightarrow> now \<le> t)
      then (r, False)
      else (r\<lparr>rd_data := dset key v (rd_data r),
              rd_ttls := (if ex \<noteq> 0 then dset key (now + ex) (rd_ttls r) else ddel key (rd_ttls r))\<rparr>,
            True))"

text \<open>The script \<open>_RELEASE_IF_OWNER\<close>.\<close>

definition release_if_owner :: "int \<Rightarrow> string \<Rightarrow> string \<Rightarrow> redis \<Rightarrow> redis" where
  "release_if_owner now key token r =
     (case redis_get now key r of
        (r', v) \<Rightarrow> if v = Some token then redis_delete key r' else r')"

definition redis_enter :: "int \<Rightarrow> string \<Rightarrow> string \<Rightarrow> int \<Rightarrow> redis \<Rightarrow> redis \<times> bool" where
  "redis_enter now key owner_token ttl_seconds r = redis_set_nx now key owner_token ttl_seconds r"

definition redis_exit :: "int \<Rightarrow> bool \<Rightarrow> string \<Rightarrow> string \<Rightarrow> redis \<Rightarrow> redis" where
  "redis_exit now acquired key owner_token r =
     (if acquired then release_if_owner now key owner_token r else r)"

text \<open>
  The time, the store, the tokens drawn so far (\<open>uuid4\<close> never repeats one) and the blocks
  that hold a lock, each with its key, token and expiry.
\<close>

record redis_world =
  rw_now :: int
  rw_redis :: redis
  rw_used :: "string list"
  rw_inside :: "(string \<times> string \<times> int) list"

inductive redis_step :: "redis_world \<Rightarrow> redis_world \<Rightarrow> bool" where
  acquire: "token \<notin> set (rw_used w) \<Longrightarrow> 0 < ttl \<Longrightarrow>
    redis_enter (rw_now w) key token ttl (rw_redis w) = (r', True) \<Longrightarrow>
    redis_step w (w\<lparr>rw_redis := r', rw_used := token # rw_used w,
      rw_inside := (key, token, rw_now w + ttl) # rw_inside w\<rparr>)"
| refuse: "token \<notin> set (rw_used w) \<Longrightarrow> 0 < ttl \<Longrightarrow>
    redis_enter (rw_now w) key token ttl (rw_redis w) = (r', False) \<Longrightarrow>
    redis_step w (w\<lparr>rw_redis := r', rw_used := token # rw_used w\<rparr>)"
| release: "(key, token, e) \<in> set (rw_inside w) \<Longrightarrow>
    redis_step w (w\<lparr>rw_redis := redis_exit (rw_now w) True key token (rw_redis w),
      rw_inside := remove1 (key, token, e) (rw_inside w)\<rparr>)"
| tick: "rw_now w \<le> t \<Longrightarrow> redis_step w (w\<lparr>rw_now := t\<rparr>)"

definition redis_inv :: "redis_world \<Rightarrow> bool" where
  "redis_inv w \<longleftrightarrow>
     distinct (map (fst \<circ> snd) (rw_inside w))
     \<and> (\<forall>(key, token, e) \<in> set (rw_inside w). token \<in> set (rw_used w)
          \<and> (rw_now w \<le> e \<longrightarrow> dget (rd_data (rw_redis w)) key = Some token
                \<and> dget (rd_ttls (rw_redis w)) key = Some e))"

lemma redis_inv_live:
  "redis_inv w \<Longrightarrow> (key, token, e) \<in> set (rw_inside w) \<Longrightarrow> rw_now w \<le> e \<Longrightarrow>
     dget (rd_data (rw_redis w)) key = Some token \<and> dget (rd_ttls (rw_redis w)) key = Some e"
  by (auto simp: redis_inv_def)

lemma redis_set_nx_other:
  "redis_set_nx now key v ex r = (r', b) \<Longrightarrow> key' \<noteq> key \<Longrightarrow>
     dget (rd_data r') key' = dget (rd_data r) key' \<and> dget (rd_ttls r') key' = dget (rd_ttls r) key'"
  by (auto simp: redis_set_nx_def split: if_splits)

lemma redis_delete_other:
  "key' \<noteq> key \<Longrightarrow> dget (rd_data (redis_delete key r)) key' = dget (rd_data r) key'
     \<and> dget (rd_ttls (redis_delete key r)) key' = dget (rd_ttls r) key'"
  by (auto simp: redis_delete_def)

lemma release_other:
  assumes "key' \<noteq> key"
  shows "dget (rd_data (release_if_owner now key token r)) key' = dget (rd_data r) key'
    \<and> dget (rd_ttls (release_if_owner now key token r)) key' = dget (rd_ttls r) key'"
  using assms redis_delete_other [OF assms] by (auto simp: release_if_owner_def redis_get_def)

text \<open>A live entry of another owner survives the release.\<close>

lemma release_not_owner:
  assumes "dget (rd_data r) key = Some token'" and "dget (rd_ttls r) key = Some e" and "now \<le> e"
    and "token' \<noteq> token"
  shows "release_if_owner now key token r = r"
  using assms by (simp add: release_if_owner_def redis_get_def)

lemma redis_inv_step:
  assumes "redis_step w w'" and inv: "redis_inv w"
  shows "redis_inv w'"
  using assms(1)
proof (cases rule: redis_step.cases)
  case (acquire token ttl key r')
  have old: "key' \<noteq> key" if "(key', token', e) \<in> set (rw_inside w)" "rw_now w \<le> e" for key' token' e
    using redis_inv_live [OF inv that] acquire(4) that(2)
    by (auto simp: redis_enter_def redis_set_nx_def split: if_splits)
  have new: "dget (rd_data r') key = Some token" "dget (rd_ttls r') key = Some (rw_now w + ttl)"
    using acquire(3,4) by (auto simp: redis_enter_def redis_set_nx_def split: if_splits)
  show ?thesis
    using inv acquire new old redis_set_nx_other [OF acquire(4) [unfolded redis_enter_def]]
    unfolding redis_inv_def by fastforce
next
  case (refuse token ttl key r')
  then have "r' = rw_redis w" by (auto simp: redis_enter_def redis_set_nx_def split: if_splits)
  with inv refuse(1) show ?thesis by (auto simp: redis_inv_def)
next
  case (release key token e)
  let ?r' = "release_if_owner (rw_now w) key token (rw_redis w)"
  have dist: "distinct (map (fst \<circ> snd) (rw_inside w))" using inv by (simp add: redis_inv_def)
  have "dget (rd_data ?r') key' = Some token' \<and> dget (rd_ttls ?r') key' = Some e'"
    if m: "(key', token', e') \<in> set (remove1 (key, token, e) (rw_inside w))" and live: "rw_now w \<le> e'"
    for key' token' e'
  proof -
    have m': "(key', token', e') \<in> set (rw_inside w)" using m by (meson notin_set_remove1)
    have "token' \<noteq> token"
    proof
      assume "token' = token"
      then have "(key', token', e') = (key, token, e)"
        using distinct_map_inj [OF dist m' release(2)] by simp
      with m dist show False by (simp add: distinct_map)
    qed
    with redis_inv_live [OF inv m' live] live release_not_owner [of "rw_redis w" key token' e' "rw_now w" token]
      release_other [of key' key "rw_now w" token "rw_redis w"]
    show ?thesis by (cases "key' = key") auto
  qed
  moreover have "distinct (map (fst \<circ> snd) (remove1 (key, token, e) (rw_inside w)))"
    using dist by (metis distinct_map distinct_remove1 inj_on_subset set_remove1_subset)
  moreover have "token' \<in> set (rw_used w)" if "(key', token', e') \<in> set (remove1 (key, token, e) (rw_inside w))"
    for key' token' e'
  proof -
    have "(key', token', e') \<in> set (rw_inside w)" using that by (meson notin_set_remove1)
    with inv show ?thesis by (auto simp: redis_inv_def)
  qed
  ultimately show ?thesis using release(1) by (auto simp: redis_inv_def redis_exit_def)
next
  case (tick t)
  with inv show ?thesis by (fastforce simp: redis_inv_def)
qed


definition redis_start :: redis_world where
  "redis_start = \<lparr>rw_now = 0, rw_redis = \<lparr>rd_data = [], rd_ttls = []\<rparr>, rw_used = [], rw_inside = []\<rparr>"

lemma redis_reachable_inv: "redis_step\<^sup>*\<^sup>* redis_start w \<Longrightarrow> redis_inv w"
proof (induction rule: rtranclp_induct)
  case base
  then show ?case by (simp add: redis_inv_def redis_start_def)
next
  case (step w w')
  from redis_inv_step [OF step.hyps(2) step.IH] show ?case .
qed

text \<open>
  C29: in every interleaving over Redis, two blocks that hold the lock of the same key
  before their expiry are the same block, and a block that leaves late, after its lock
  expired and was taken by another, does not release the other's lock.
\<close>

theorem redis_lock_exclusive:
  assumes "redis_step\<^sup>*\<^sup>* redis_start w"
    and "(key, token, e) \<in> set (rw_inside w)" and "rw_now w \<le> e"
    and "(key, token', e') \<in> set (rw_inside w)"
  shows "(rw_now w \<le> e' \<longrightarrow> token' = token)
    \<and> (token' \<noteq> token \<longrightarrow> redis_exit (rw_now w) True key token' (rw_redis w) = rw_redis w)"
proof -
  note inv = redis_reachable_inv [OF assms(1)]
  note live = redis_inv_live [OF inv assms(2,3)]
  have "token' = token" if "rw_now w \<le> e'" using redis_inv_live [OF inv assms(4) that] live by simp
  moreover have "redis_exit (rw_now w) True key token' (rw_redis w) = rw_redis w" if "token' \<noteq> token"
    using live assms(3) that by (simp add: redis_exit_def release_not_owner)
  ultimately show ?thesis by blast
qed

text \<open>A block that outlives its lock: another caller gets it after 60 seconds.\<close>

definition redis_w1 :: redis_world where
  "redis_w1 = \<lparr>rw_now = 61, rw_redis = \<lparr>rd_data = [(''k'', ''t2'')], rd_ttls = [(''k'', 121)]\<rparr>,
     rw_used = [''t2'', ''t1''], rw_inside = [(''k'', ''t2'', 121), (''k'', ''t1'', 60)]\<rparr>"

lemma redis_w1_reachable: "redis_step\<^sup>*\<^sup>* redis_start redis_w1"
proof -
  let ?a = "redis_start\<lparr>rw_redis := \<lparr>rd_data = [(''k'', ''t1'')], rd_ttls = [(''k'', 60)]\<rparr>,
    rw_used := [''t1''], rw_inside := [(''k'', ''t1'', 60)]\<rparr>"
  have "redis_enter (rw_now redis_start) ''k'' ''t1'' 60 (rw_redis redis_start) = (rw_redis ?a, True)"
    by (simp add: redis_start_def redis_enter_def redis_set_nx_def)
  from redis_step.acquire [OF _ _ this] have a: "redis_step redis_start ?a"
    by (simp add: redis_start_def)
  let ?b = "?a\<lparr>rw_now := 61\<rparr>"
  have b: "redis_step ?a ?b" by (rule redis_step.tick) (simp add: redis_start_def)
  have "redis_enter (rw_now ?b) ''k'' ''t2'' 60 (rw_redis ?b) = (rw_redis redis_w1, True)"
    by (simp add: redis_start_def redis_w1_def redis_enter_def redis_set_nx_def)
  from redis_step.acquire [OF _ _ this] have c: "redis_step ?b redis_w1"
    by (simp add: redis_start_def redis_w1_def)
  show ?thesis
    by (rule converse_rtranclp_into_rtranclp [where r = redis_step, OF a],
        rule converse_rtranclp_into_rtranclp [where r = redis_step, OF b],
        rule r_into_rtranclp [where r = redis_step, OF c])
qed

theorem redis_lock_exclusive_witness:
  "redis_exit 61 True ''k'' ''t1'' (rw_redis redis_w1) = rw_redis redis_w1"
proof -
  have "(''k'', ''t2'', 121) \<in> set (rw_inside redis_w1)" "rw_now redis_w1 \<le> 121" "(''k'', ''t1'', 60) \<in> set (rw_inside redis_w1)"
    by (simp_all add: redis_w1_def)
  from redis_lock_exclusive [OF redis_w1_reachable this] show ?thesis by (simp add: redis_w1_def)
qed

end
