(* ===== verification/Docparse.thy ===== *)
theory Docparse
  imports Libraries "HOL-Library.Sublist"
begin

text \<open>
  \<open>internal/vendor_core/docparse.py\<close>: the text chunkers, the choice of a parser by file
  extension or MIME hint, and the duplicate filter. Slices take Python's negative indices;
  a chunking loop that never ends is the value \<^const>\<open>None\<close>. The parsers for PDF, DOCX and
  HTML only drive third-party libraries and are represented by their names.
\<close>

section \<open>Fixed-size chunks\<close>

definition slice_index :: "int \<Rightarrow> nat \<Rightarrow> nat" where
  "slice_index i n = (if i < 0 then nat (i + int n) else min (nat i) n)"

definition py_slice :: "'a list \<Rightarrow> int \<Rightarrow> int \<Rightarrow> 'a list" where
  "py_slice xs a b =
     (let i = slice_index a (length xs); j = slice_index b (length xs) in drop i (take j xs))"

partial_function (option) chunk_from :: "string \<Rightarrow> int \<Rightarrow> int \<Rightarrow> int \<Rightarrow> string list option" where
  "chunk_from s chunk_size overlap start =
     (if start < int (length s)
      then (let e = min (start + chunk_size) (int (length s))
            in if int (length s) \<le> e then Some [py_slice s start e]
               else Option.bind (chunk_from s chunk_size overlap (e - overlap))
                      (\<lambda>rest. Some (py_slice s start e # rest)))
      else Some [])"

declare chunk_from.simps [code]

definition chunk_fixed :: "string \<Rightarrow> int \<Rightarrow> int \<Rightarrow> string list option" where
  "chunk_fixed s chunk_size overlap =
     chunk_from s chunk_size (if chunk_size \<le> overlap then chunk_size div 4 else overlap) 0"

section \<open>Sentences and headings\<close>

definition ends_sentence :: "char \<Rightarrow> bool" where
  "ends_sentence c = (c = CHR ''.'' \<or> c = CHR ''!'' \<or> c = CHR ''?'')"

text \<open>
  \<open>re.split(r"(?<=[.!?])\s+", text)\<close>: the flag says whether the character before is one of
  \<open>.!?\<close>; a run of white space there is a separator.
\<close>

function split_sentences :: "bool \<Rightarrow> string \<Rightarrow> string list" where
  "split_sentences after [] = [[]]"
| "split_sentences after (c # s) =
     (if after \<and> is_space c then [] # split_sentences False (dropWhile is_space s)
      else case split_sentences (ends_sentence c) s of
             [] \<Rightarrow> [[c]]
           | w # ws \<Rightarrow> (c # w) # ws)"
  by pat_completeness auto
termination
  by (relation "measure (\<lambda>(b, s). length s)") (auto simp: le_imp_less_Suc length_dropWhile_le)

text \<open>\<open>re.split(r"\n(?=#{1,6}\s)", text)\<close>: before a heading line.\<close>

definition heading_ahead :: "string \<Rightarrow> bool" where
  "heading_ahead s =
     (let hashes = takeWhile (\<lambda>c. c = CHR ''#'') s; rest = drop (length hashes) s
      in 1 \<le> length hashes \<and> length hashes \<le> 6 \<and> (case rest of [] \<Rightarrow> False | c # _ \<Rightarrow> is_space c))"

fun split_headings :: "string \<Rightarrow> string list" where
  "split_headings [] = [[]]"
| "split_headings (c # s) =
     (if c = CHR 0x0A \<and> heading_ahead s then [] # split_headings s
      else case split_headings s of
             [] \<Rightarrow> [[c]]
           | w # ws \<Rightarrow> (c # w) # ws)"

definition semantic_body :: "int \<Rightarrow> string list \<times> string \<Rightarrow> string \<Rightarrow> string list \<times> string" where
  "semantic_body chunk_size acc sentence =
     (case acc of (chunks, current) \<Rightarrow>
        if current \<noteq> [] \<and> chunk_size < int (length current) + int (length sentence) + 1
        then (chunks @ [strip current], sentence)
        else (chunks, strip (current @ '' '' @ sentence)))"

definition chunk_semantic :: "string \<Rightarrow> int \<Rightarrow> string list" where
  "chunk_semantic s chunk_size =
     (case foldl (semantic_body chunk_size) ([], []) (split_sentences False s) of
        (chunks, current) \<Rightarrow> if strip current \<noteq> [] then chunks @ [strip current] else chunks)"

fun structural_blocks :: "int \<Rightarrow> string list \<Rightarrow> string list option" where
  "structural_blocks chunk_size [] = Some []"
| "structural_blocks chunk_size (b # bs) =
     (let stripped = strip b
      in if stripped = [] then structural_blocks chunk_size bs
         else Option.bind
           (if int (length stripped) \<le> chunk_size then Some [stripped]
            else chunk_fixed stripped chunk_size (chunk_size div 8))
           (\<lambda>cs. map_option ((@) cs) (structural_blocks chunk_size bs)))"

definition chunk_structural :: "string \<Rightarrow> int \<Rightarrow> string list option" where
  "chunk_structural s chunk_size = structural_blocks chunk_size (split_headings s)"

datatype chunk_strategy = FIXED | SEMANTIC | STRUCTURAL

definition chunk_text :: "string \<Rightarrow> chunk_strategy \<Rightarrow> int \<Rightarrow> int \<Rightarrow> string list option" where
  "chunk_text s strategy chunk_size overlap =
     (if s = [] then Some []
      else case strategy of
             STRUCTURAL \<Rightarrow> chunk_structural s chunk_size
           | SEMANTIC \<Rightarrow> Some (chunk_semantic s chunk_size)
           | FIXED \<Rightarrow> chunk_fixed s chunk_size overlap)"

section \<open>Parsers and duplicates\<close>

datatype parser = PdfParser | DocxParser | HtmlParser | MarkdownParser

definition endswith :: "string \<Rightarrow> string \<Rightarrow> bool" where
  "endswith s ext = startswith (rev s) (rev ext)"

fun supported_extensions :: "parser \<Rightarrow> string list" where
  "supported_extensions PdfParser = [''.pdf'']"
| "supported_extensions DocxParser = [''.docx'']"
| "supported_extensions HtmlParser = [''.html'', ''.htm'']"
| "supported_extensions MarkdownParser = [''.md'', ''.markdown'', ''.txt'']"

definition mime_hints :: "(string, parser) dict" where
  "mime_hints =
     [(''pdf'', PdfParser), (''word'', DocxParser), (''officedocument.wordprocessing'', DocxParser),
      (''html'', HtmlParser), (''markdown'', MarkdownParser), (''text/plain'', MarkdownParser)]"

text \<open>The error is the message of the \<open>ValidationError\<close>.\<close>

definition get_parser :: "string \<Rightarrow> string + parser" where
  "get_parser filename_or_mime =
     (let name = lower filename_or_mime
      in case find (\<lambda>p. list_ex (endswith name) (supported_extensions p))
                   [PdfParser, DocxParser, HtmlParser, MarkdownParser] of
           Some p \<Rightarrow> Inr p
         | None \<Rightarrow>
             (case find (\<lambda>(hint, p). contains_str hint name) mime_hints of
                Some (hint, p) \<Rightarrow> Inr p
              | None \<Rightarrow> Inl (''No parser available for '' @ [CHR 0x27] @ filename_or_mime @ [CHR 0x27])))"

definition compute_hash :: "libs \<Rightarrow> string \<Rightarrow> string" where
  "compute_hash L content = sha256_hex L content"

definition is_duplicate :: "string \<Rightarrow> string set \<Rightarrow> bool" where
  "is_duplicate content_hash seen = (content_hash \<in> seen)"

fun filter_from :: "('a \<Rightarrow> string) \<Rightarrow> string list \<Rightarrow> 'a list \<Rightarrow> 'a list" where
  "filter_from key seen [] = []"
| "filter_from key seen (x # xs) =
     (if key x \<in> set seen then filter_from key seen xs
      else x # filter_from key (key x # seen) xs)"

definition filter_duplicates :: "('a \<Rightarrow> string) \<Rightarrow> 'a list \<Rightarrow> 'a list" where
  "filter_duplicates key items = filter_from key [] items"

section \<open>The fixed-size chunker ends and covers the text\<close>

lemma py_slice_nat: "0 \<le> a \<Longrightarrow> a \<le> b \<Longrightarrow> b \<le> int (length s) \<Longrightarrow> py_slice s a b = drop (nat a) (take (nat b) s)"
  by (simp add: py_slice_def slice_index_def Let_def min_def nat_le_iff)

text \<open>The text that chunks with the given overlap stand for.\<close>

definition glue :: "nat \<Rightarrow> string list \<Rightarrow> string" where
  "glue overlap cs = (case cs of [] \<Rightarrow> [] | c # rest \<Rightarrow> c @ concat (map (drop overlap) rest))"

lemma drop_take_append: "a \<le> b \<Longrightarrow> drop a (take b s) @ drop b s = drop a s"
proof -
  assume "a \<le> b"
  then have "drop b s = drop (b - a) (drop a s)" by simp
  then show ?thesis by (simp only: drop_take append_take_drop_id)
qed

lemma chunk_from_covers:
  assumes "0 < n" and "0 \<le> ov" and "ov < n" and "0 \<le> start" and "start < int (length s)"
  shows "\<exists>cs. chunk_from s n ov start = Some (py_slice s start (min (start + n) (int (length s))) # cs)
    \<and> py_slice s start (min (start + n) (int (length s))) @ concat (map (drop (nat ov)) cs) = drop (nat start) s
    \<and> (\<forall>x \<in> set cs. ov < int (length x) \<and> int (length x) \<le> n)
    \<and> length (py_slice s start (min (start + n) (int (length s)))) = nat (min n (int (length s) - start))"
  using assms(4,5)
proof (induction "nat (int (length s) - start)" arbitrary: start rule: less_induct)
  case less
  let ?e = "min (start + n) (int (length s))"
  let ?c = "py_slice s start ?e"
  have c: "?c = drop (nat start) (take (nat ?e) s)"
    using less.prems assms(1) by (intro py_slice_nat) simp_all
  have len: "length ?c = nat (min n (int (length s) - start))"
    using less.prems assms(1) unfolding c by (auto simp: min_def nat_diff_distrib')
  show ?case
  proof (cases "int (length s) \<le> ?e")
    case True
    then have "chunk_from s n ov start = Some [?c]"
      using less.prems by (simp add: chunk_from.simps Let_def)
    moreover have "?c = drop (nat start) s" using True c by simp
    ultimately show ?thesis using len by simp
  next
    case False
    let ?start' = "?e - ov"
    let ?e' = "min (?start' + n) (int (length s))"
    let ?c' = "py_slice s ?start' ?e'"
    have e: "?e = start + n" using False by simp
    have dec: "nat (int (length s) - ?start') < nat (int (length s) - start)"
      using e assms(3) less.prems by simp
    have pos: "0 \<le> ?start'" "?start' < int (length s)" using e assms(2,3) less.prems False by simp_all
    obtain cs where ih: "chunk_from s n ov ?start' = Some (?c' # cs)"
      and glue: "?c' @ concat (map (drop (nat ov)) cs) = drop (nat ?start') s"
      and all: "\<forall>x \<in> set cs. ov < int (length x) \<and> int (length x) \<le> n"
      and len': "length ?c' = nat (min n (int (length s) - ?start'))"
      using less.hyps [OF dec pos] by blast
    have long: "ov < int (length ?c')" "int (length ?c') \<le> n"
      using len' pos assms(1-3) False by (auto simp: min_def)
    have r: "chunk_from s n ov start = Some (?c # ?c' # cs)"
      using less.prems False ih by (subst chunk_from.simps) (simp add: Let_def)
    have "drop (nat ov) ?c' @ concat (map (drop (nat ov)) cs) = drop (nat ov) (drop (nat ?start') s)"
      using long(1) unfolding glue [symmetric] by simp
    also have "\<dots> = drop (nat ?e) s"
      using assms(2) pos(1) by (simp add: nat_add_distrib [symmetric])
    finally have "?c @ concat (map (drop (nat ov)) (?c' # cs)) = drop (nat start) (take (nat ?e) s) @ drop (nat ?e) s"
      by (simp add: c)
    also have "\<dots> = drop (nat start) s"
      using less.prems e assms(1) by (intro drop_take_append) simp
    finally have "?c @ concat (map (drop (nat ov)) (?c' # cs)) = drop (nat start) s" .
    with r all long len show ?thesis by (intro exI [of _ "?c' # cs"]) simp
  qed
qed


text \<open>
  C30: with a positive chunk size and a non-negative overlap, fixed-size chunking ends; no
  chunk is longer than the size, and the chunks without the overlapping prefixes of all but
  the first, put together, are the text (an overlap that is not smaller than the size is
  replaced by a quarter of it).
\<close>

theorem chunk_fixed_covers:
  assumes "0 < n" and "0 \<le> overlap" and "s \<noteq> []"
  shows "\<exists>c cs. chunk_text s FIXED n overlap = Some (c # cs)
    \<and> c @ concat (map (drop (nat (if n \<le> overlap then n div 4 else overlap))) cs) = s
    \<and> (\<forall>x \<in> set (c # cs). int (length x) \<le> n)"
proof -
  let ?ov = "if n \<le> overlap then n div 4 else overlap"
  have ov: "0 \<le> ?ov" "?ov < n" using assms(1,2) by auto
  have "0 < int (length s)" using assms(3) by simp
  from chunk_from_covers [OF assms(1) ov order_refl this] obtain cs where
    cs: "chunk_from s n ?ov 0 = Some (py_slice s 0 (min n (int (length s))) # cs)"
    "py_slice s 0 (min n (int (length s))) @ concat (map (drop (nat ?ov)) cs) = s"
    "\<forall>x \<in> set cs. ?ov < int (length x) \<and> int (length x) \<le> n"
    "length (py_slice s 0 (min n (int (length s)))) = nat (min n (int (length s)))"
    unfolding add_0 nat_0 drop_0 diff_zero by blast
  have "chunk_text s FIXED n overlap = chunk_from s n ?ov 0"
    using assms(3) by (simp add: chunk_text_def chunk_fixed_def)
  then show ?thesis using cs assms(1)
    by (intro exI [of _ "py_slice s 0 (min n (int (length s)))"] exI [of _ cs]) auto
qed

theorem chunk_fixed_covers_witness:
  "\<exists>c cs. chunk_text ''abcdefgh'' FIXED 4 1 = Some (c # cs) \<and> c @ concat (map (drop 1) cs) = ''abcdefgh''"
  using chunk_fixed_covers [of 4 1 "''abcdefgh''"] by auto

lemma chunk_from_diverges:
  assumes "chunk_from s n ov start = Some cs" and "n \<le> ov" and "n \<le> 0" and "start \<le> 0" and "s \<noteq> []"
  shows False
  using assms
proof (induction s n ov start cs rule: chunk_from.raw_induct [rotated, consumes 1])
  case (1 chunk_from s n ov start cs)
  have "0 < length s" using "1"(6) by simp
  with "1"(5) have start: "start < int (length s)" by linarith
  have e: "min (start + n) (int (length s)) = start + n" "\<not> int (length s) \<le> start + n"
    using start "1"(4) by simp_all
  obtain rest where "chunk_from s n ov (start + n - ov) = Some rest"
    using "1"(2) start e by (auto simp: Let_def bind_eq_Some_conv)
  from "1"(1) [OF this "1"(3,4) _ "1"(6)] "1"(3,5) show ?case by simp
qed

text \<open>
  With a chunk size of zero or less (and an overlap that is not smaller), chunking a
  text never ends. The \<open>parse_text\<close> task passes the size from the workflow's parameters
  unchecked, with overlap 0.
\<close>

theorem chunk_fixed_diverges:
  assumes "n \<le> 0" and "n \<le> overlap" and "s \<noteq> []"
  shows "chunk_text s FIXED n overlap = None"
proof -
  have "n \<le> n div 4" using assms(1) by linarith
  then have "chunk_from s n (n div 4) 0 \<noteq> Some cs" for cs
    using chunk_from_diverges [of s n "n div 4" 0 cs] assms(1,3) by blast
  then have "chunk_from s n (n div 4) 0 = None" by (cases "chunk_from s n (n div 4) 0") auto
  with assms(2,3) show ?thesis by (simp add: chunk_text_def chunk_fixed_def)
qed

theorem chunk_fixed_diverges_witness: "chunk_text ''hello'' FIXED 0 0 = None"
  using chunk_fixed_diverges [of 0 0 "''hello''"] by simp

text \<open>Without overlap the loop ends exactly for positive sizes.\<close>

lemma chunk_text_None_iff:
  assumes "s \<noteq> []"
  shows "chunk_text s FIXED n 0 = None \<longleftrightarrow> n \<le> 0"
proof (cases "n \<le> 0")
  case True
  then show ?thesis using chunk_fixed_diverges [of n 0 s] assms by simp
next
  case False
  then have "0 < n" "(0 :: int) \<le> 0" "0 < n" by simp_all
  moreover have "0 < int (length s)" using assms by simp
  ultimately show ?thesis
    using chunk_from_covers [of n 0 0 s] assms False by (auto simp: chunk_text_def chunk_fixed_def)
qed

section \<open>The duplicate filter\<close>

lemma filter_from_spec:
  "distinct (map key (filter_from key seen xs))
   \<and> key ` set (filter_from key seen xs) = key ` set xs - set seen
   \<and> (\<forall>x \<in> set (filter_from key seen xs). find (\<lambda>y. key y = key x) xs = Some x)"
proof (induction key seen xs rule: filter_from.induct)
  case (2 key seen x xs)
  show ?case
  proof (cases "key x \<in> set seen")
    case True
    then have "key y \<noteq> key x" if "y \<in> set (filter_from key seen xs)" for y
      using 2(1) that by (metis DiffD2 imageI)
    then have "\<forall>y \<in> set (filter_from key seen xs). find (\<lambda>z. key z = key y) (x # xs) = Some y"
      using 2(1) [OF True] by force
    moreover have "key ` set (x # xs) - set seen = key ` set xs - set seen" using True by auto
    ultimately show ?thesis using 2(1) [OF True] True by simp
  next
    case False
    then have "key y \<noteq> key x" if "y \<in> set (filter_from key (key x # seen) xs)" for y
      using 2(2) that by (metis DiffD2 imageI list.set_intros(1))
    then have "\<forall>y \<in> set (filter_from key (key x # seen) xs).
        find (\<lambda>z. key z = key y) (x # xs) = Some y"
      using 2(2) [OF False] by force
    moreover have "key x \<notin> key ` set (filter_from key (key x # seen) xs)"
      using 2(2) [OF False] by simp
    moreover have "key ` set (x # xs) - set seen = insert (key x) (key ` set xs - set (key x # seen))"
      using False by auto
    ultimately show ?thesis using 2(2) [OF False] False by simp
  qed
qed simp

text \<open>
  The duplicate filter keeps exactly one item per key, the first that has it, in the
  original order.
\<close>

theorem filter_duplicates_spec:
  "distinct (map key (filter_duplicates key xs))
   \<and> key ` set (filter_duplicates key xs) = key ` set xs
   \<and> (\<forall>x \<in> set (filter_duplicates key xs). find (\<lambda>y. key y = key x) xs = Some x)
   \<and> subseq (filter_duplicates key xs) xs"
proof -
  have "subseq (filter_from key seen xs) xs" for seen
    by (induction key seen xs rule: filter_from.induct) auto
  with filter_from_spec [of key "[]" xs] show ?thesis by (simp add: filter_duplicates_def)
qed

theorem filter_duplicates_spec_witness:
  "distinct (map fst (filter_duplicates fst [(''h1'', 1), (''h2'', 2), (''h1'', 3 :: nat)]))
   \<and> find (\<lambda>y. fst y = ''h1'') [(''h1'', 1), (''h2'', 2), (''h1'', 3 :: nat)] = Some (''h1'', 1)"
  using filter_duplicates_spec [of fst "[(''h1'', 1), (''h2'', 2), (''h1'', 3 :: nat)]"]
  by (simp add: filter_duplicates_def)

end
