(* ===== verification/Storage.thy ===== *)
theory Storage
  imports Scheduler "HOL-Library.List_Lexorder" "HOL-Library.Char_ord"
begin

text \<open>
  \<open>storage.py\<close>: the run records and the in-memory run storage, and the interface that it
  shares with \<open>DatabaseWorkflowStorage\<close> (the protocol \<open>WorkflowStorage\<close> of
  \<open>contracts.py\<close> with the listing operations). The locale \<open>run_storage\<close> states what
  both promise; what may differ is left open there: the time stamps, and the entries that
  are empty strings, which the database storage leaves out.
\<close>

section \<open>Run records\<close>

record run_record =
  rr_run_id :: string
  rr_workflow_name :: string
  rr_yaml_definition :: string
  rr_status :: string
  rr_step_statuses :: "(string, string) dict"
  rr_results :: "(string, string) dict"
  rr_errors :: "(string, string) dict"
  rr_dead_letters :: "(string, pyval) dict list"
  rr_task_names :: "(string, string) dict"
  rr_version_hash :: "string option"
  rr_created_at :: string
  rr_completed_at :: string

text \<open>The arguments of \<open>save_run\<close>; the optional dictionaries and lists default to empty ones.\<close>

record run_input =
  ri_workflow_name :: string
  ri_yaml_definition :: string
  ri_statuses :: "(string, string) dict"
  ri_results :: "(string, pyval) dict"
  ri_status :: string
  ri_errors :: "(string, string) dict"
  ri_dead_letters :: "(string, pyval) dict list"
  ri_task_names :: "(string, string) dict"
  ri_run_id :: "string option"
  ri_version_hash :: "string option"

record 's storage_ops =
  sg_save_run :: "run_input \<Rightarrow> 's \<Rightarrow> 's \<times> (exn + string)"
  sg_get_run :: "string \<Rightarrow> 's \<Rightarrow> 's \<times> (exn + run_record option)"
  sg_list_runs :: "nat \<Rightarrow> 's \<Rightarrow> 's \<times> (exn + (string, pyval) dict list)"
  sg_get_dead_letters :: "string option \<Rightarrow> 's \<Rightarrow> 's \<times> (exn + (string, pyval) dict list)"

text \<open>\<open>run_id or str(uuid.uuid4())\<close>.\<close>

definition choose_run_id :: "string \<Rightarrow> string option \<Rightarrow> string" where
  "choose_run_id fresh run_id =
     (case run_id of None \<Rightarrow> fresh | Some r \<Rightarrow> if r = [] then fresh else r)"

definition str_values :: "(string, pyval) dict \<Rightarrow> (string, string) dict" where
  "str_values results = map (\<lambda>(k, v). (k, py_str v)) results"

definition run_row :: "run_record \<Rightarrow> (string, pyval) dict" where
  "run_row r =
     [(''run_id'', PyStr (rr_run_id r)), (''workflow_name'', PyStr (rr_workflow_name r)),
      (''status'', PyStr (rr_status r)), (''created_at'', PyStr (rr_created_at r))]"

text \<open>\<open>sorted(..., key=..., reverse=True)\<close> keeps the order of equal elements.\<close>

definition sorted_desc :: "('a \<Rightarrow> 'b :: linorder) \<Rightarrow> 'a list \<Rightarrow> 'a list" where
  "sorted_desc key xs = rev (sort_key key (rev xs))"

definition letter_with_run :: "string \<Rightarrow> (string, pyval) dict \<Rightarrow> (string, pyval) dict" where
  "letter_with_run run_id letter = dset ''run_id'' (PyStr run_id) letter"

section \<open>\<open>InMemoryWorkflowStorage\<close>\<close>

type_synonym runs = "(string, run_record) dict"

definition mem_save_run :: "int \<Rightarrow> string \<Rightarrow> run_input \<Rightarrow> runs \<Rightarrow> runs \<times> (exn + string)" where
  "mem_save_run now fresh i records =
     (let run_id = choose_run_id fresh (ri_run_id i)
      in (dset run_id
            \<lparr>rr_run_id = run_id, rr_workflow_name = ri_workflow_name i,
             rr_yaml_definition = ri_yaml_definition i, rr_status = ri_status i,
             rr_step_statuses = ri_statuses i, rr_results = str_values (ri_results i),
             rr_errors = ri_errors i, rr_dead_letters = ri_dead_letters i,
             rr_task_names = ri_task_names i, rr_version_hash = ri_version_hash i,
             rr_created_at = isoformat now, rr_completed_at = isoformat now\<rparr> records,
          Inr run_id))"

definition mem_get_run :: "string \<Rightarrow> runs \<Rightarrow> runs \<times> (exn + run_record option)" where
  "mem_get_run run_id records = (records, Inr (dget records run_id))"

definition mem_list_runs :: "nat \<Rightarrow> runs \<Rightarrow> runs \<times> (exn + (string, pyval) dict list)" where
  "mem_list_runs limit records =
     (records, Inr (map run_row (take limit (sorted_desc rr_created_at (dvals records)))))"

definition mem_get_dead_letters :: "string option \<Rightarrow> runs \<Rightarrow> runs \<times> (exn + (string, pyval) dict list)" where
  "mem_get_dead_letters run_id records =
     (records, Inr
        (case run_id of
           Some r \<Rightarrow> (case dget records r of Some rec \<Rightarrow> rr_dead_letters rec | None \<Rightarrow> [])
         | None \<Rightarrow> concat (map (\<lambda>rec. map (letter_with_run (rr_run_id rec)) (rr_dead_letters rec))
                            (dvals records))))"

definition mem_storage :: "int \<Rightarrow> string \<Rightarrow> runs storage_ops" where
  "mem_storage now fresh =
     \<lparr>sg_save_run = mem_save_run now fresh, sg_get_run = mem_get_run,
      sg_list_runs = mem_list_runs, sg_get_dead_letters = mem_get_dead_letters\<rparr>"

section \<open>What a run storage promises\<close>

text \<open>Two dictionaries with the same non-empty entries.\<close>

definition same_nonempty :: "(string, string) dict \<Rightarrow> (string, string) dict \<Rightarrow> bool" where
  "same_nonempty d d' \<longleftrightarrow> (\<forall>k v. v \<noteq> [] \<longrightarrow> dget d k = Some v \<longleftrightarrow> dget d' k = Some v)"

text \<open>
  The record is that of the saved run; a dead letter may be changed by being stored
  (\<open>stored\<close>), as a JSON column does to keys that are not strings.
\<close>

definition records_run :: "((string, pyval) dict \<Rightarrow> (string, pyval) dict) \<Rightarrow> run_input \<Rightarrow> string \<Rightarrow> run_record \<Rightarrow> bool" where
  "records_run stored i run_id r \<longleftrightarrow>
     rr_run_id r = run_id \<and> rr_workflow_name r = ri_workflow_name i
     \<and> rr_yaml_definition r = ri_yaml_definition i \<and> rr_status r = ri_status i
     \<and> rr_step_statuses r = ri_statuses i \<and> same_nonempty (rr_results r) (str_values (ri_results i))
     \<and> same_nonempty (rr_errors r) (ri_errors i) \<and> same_nonempty (rr_task_names r) (ri_task_names i)
     \<and> rr_dead_letters r = map stored (ri_dead_letters i) \<and> rr_version_hash r = ri_version_hash i"

text \<open>
  What the engine passes to \<open>save_run\<close>: dictionaries, whose results, errors and task names
  belong to steps with a status.
\<close>

definition run_input_ok :: "run_input \<Rightarrow> bool" where
  "run_input_ok i \<longleftrightarrow>
     distinct (dkeys (ri_statuses i)) \<and> distinct (dkeys (ri_results i))
     \<and> distinct (dkeys (ri_errors i)) \<and> distinct (dkeys (ri_task_names i))
     \<and> set (dkeys (ri_results i)) \<subseteq> set (dkeys (ri_statuses i))
     \<and> set (dkeys (ri_errors i)) \<subseteq> set (dkeys (ri_statuses i))
     \<and> set (dkeys (ri_task_names i)) \<subseteq> set (dkeys (ri_statuses i))"

locale run_storage =
  fixes ops :: "'s storage_ops"
    and recorded :: "'s \<Rightarrow> string \<Rightarrow> run_record option"
    and good :: "'s \<Rightarrow> bool"
    and stored :: "(string, pyval) dict \<Rightarrow> (string, pyval) dict"
  assumes save_ok: "good s \<Longrightarrow> run_input_ok i \<Longrightarrow> sg_save_run ops i s = (s', Inr rid) \<Longrightarrow>
      good s' \<and> (\<forall>r. ri_run_id i = Some r \<longrightarrow> r \<noteq> [] \<longrightarrow> rid = r)
      \<and> (\<exists>r. recorded s' = (recorded s)(rid \<mapsto> r) \<and> records_run stored i rid r)"
    and save_raises: "good s \<Longrightarrow> sg_save_run ops i s = (s', Inl e) \<Longrightarrow> good s' \<and> recorded s' = recorded s"
    and get_ok: "good s \<Longrightarrow> sg_get_run ops rid s = (s', q) \<Longrightarrow>
      good s' \<and> recorded s' = recorded s \<and> (\<forall>v. q = Inr v \<longrightarrow> v = recorded s rid)"
    and letters_ok: "good s \<Longrightarrow> sg_get_dead_letters ops (Some rid) s = (s', d) \<Longrightarrow>
      good s' \<and> recorded s' = recorded s
      \<and> (\<forall>ls. d = Inr ls \<longrightarrow> ls = (case recorded s rid of None \<Rightarrow> [] | Some r \<Rightarrow> rr_dead_letters r))"
begin

text \<open>A saved run is read back, and so are its dead letters; the other runs stay.\<close>

lemma save_get:
  assumes "good s" and "run_input_ok i" and "sg_save_run ops i s = (s1, Inr rid)"
    and "sg_get_run ops rid s1 = (s2, Inr v)"
  shows "\<exists>r. v = Some r \<and> records_run stored i rid r"
  using save_ok [OF assms(1-3)] get_ok [OF _ assms(4)] by force

lemma save_letters:
  assumes "good s" and "run_input_ok i" and "sg_save_run ops i s = (s1, Inr rid)"
    and "sg_get_dead_letters ops (Some rid) s1 = (s2, Inr ls)"
  shows "ls = map stored (ri_dead_letters i)"
  using save_ok [OF assms(1-3)] letters_ok [OF _ assms(4)] by (force simp: records_run_def)

lemma save_keeps_others:
  assumes "good s" and "run_input_ok i" and "sg_save_run ops i s = (s1, r)"
    and "ri_run_id i = Some rid" and "rid \<noteq> []" and "other \<noteq> rid"
  shows "recorded s1 other = recorded s other"
proof (cases r)
  case (Inl e)
  with save_raises [OF assms(1)] assms(3) show ?thesis by simp
next
  case (Inr q)
  with save_ok [OF assms(1,2)] assms(3-5) have "q = rid" "\<exists>x. recorded s1 = (recorded s)(q \<mapsto> x)"
    by blast+
  with assms(6) show ?thesis by auto
qed

end

definition mem_runs_good :: "runs \<Rightarrow> bool" where
  "mem_runs_good records \<longleftrightarrow> distinct (dkeys records) \<and> (\<forall>(k, r) \<in> set records. rr_run_id r = k)"

lemma same_nonempty_refl [simp]: "same_nonempty d d"
  by (simp add: same_nonempty_def)

lemma choose_run_id_given: "r \<noteq> [] \<Longrightarrow> choose_run_id fresh (Some r) = r"
  by (simp add: choose_run_id_def)

interpretation mem_runs: run_storage "mem_storage now fresh" map_of mem_runs_good id for now fresh
proof
  fix s i s' rid
  assume s: "mem_runs_good s" "run_input_ok i" "sg_save_run (mem_storage now fresh) i s = (s', Inr rid)"
  have rid: "rid = choose_run_id fresh (ri_run_id i)"
    and s': "\<exists>r. s' = dset rid r s \<and> records_run id i rid r"
    using s(3) by (auto simp: mem_storage_def mem_save_run_def Let_def records_run_def)
  from s' obtain r where r: "s' = dset rid r s" "records_run id i rid r" by blast
  have "mem_runs_good s'"
    using s(1) r set_dset [of rid r s] by (auto simp: mem_runs_good_def records_run_def)
  moreover have "map_of s' = (map_of s)(rid \<mapsto> r)" using r(1) by (simp add: update_conv')
  ultimately show "mem_runs_good s' \<and> (\<forall>r. ri_run_id i = Some r \<longrightarrow> r \<noteq> [] \<longrightarrow> rid = r)
      \<and> (\<exists>r. map_of s' = (map_of s)(rid \<mapsto> r) \<and> records_run id i rid r)"
    using rid r(2) by (auto simp: choose_run_id_def)
qed (auto simp: mem_storage_def mem_save_run_def mem_get_run_def mem_get_dead_letters_def Let_def)

end
