(* ===== verification/Database.thy ===== *)
theory Database
  imports Storage Webhooks Versions Trace Contracts
begin

text \<open>
  \<open>storage_db.py\<close> over the tables of \<open>models.py\<close>: the run storage and the schedule,
  webhook, version, idempotency and event stores of the database backend. A table is the list
  of its rows, or a dictionary by primary key; a query without an order returns the rows in
  insertion order.

  Every operation is one session. What the database does to it is the head of
  \<open>db_faults\<close>: \<^const>\<open>None\<close>, it works; a text, the session raises an
  \<open>SQLAlchemyError\<close> and, rolled back, leaves the tables as they were. The laws of the
  store interfaces are proved whatever the faults are.
\<close>

section \<open>Tables\<close>

record run_row =
  wr_workflow_name :: string
  wr_yaml_definition :: string
  wr_status :: string
  wr_started_at :: int
  wr_completed_at :: int
  wr_dead_letters :: "(string, pyval) dict list"
  wr_version_hash :: "string option"
  wr_created_at :: int

record step_row =
  se_run_id :: string
  se_step_id :: string
  se_task_name :: string
  se_status :: string
  se_result :: "string option"
  se_error :: "string option"
  se_attempt :: nat

record schedule_record =
  sr_cron :: string
  sr_yaml_definition :: string
  sr_last_run :: "int option"
  sr_next_run :: "int option"
  sr_enabled :: bool

record webhook_registration =
  wg_yaml_definition :: string
  wg_description :: string
  wg_secret :: "string option"

record event_row =
  er_run_id :: string
  er_sequence :: int
  er_kind :: pyval
  er_trigger_id :: pyval
  er_step_id :: pyval
  er_attempt :: pyval
  er_details :: pyval

record tables =
  tb_runs :: "(string, run_row) dict"
  tb_steps :: "step_row list"
  tb_schedules :: "(string, schedule_record) dict"
  tb_webhooks :: "(string, webhook_registration) dict"
  tb_definitions :: "(string, string) dict"
  tb_claims :: "(string \<times> string) list"
  tb_events :: "event_row list"

record database =
  db_tables :: tables
  db_faults :: "string option list"

text \<open>
  A session: the body works on a copy of the tables, which a commit makes the tables; an
  exception of the body rolls it back.
\<close>

definition session :: "(tables \<Rightarrow> tables \<times> (exn + 'a)) \<Rightarrow> database \<Rightarrow> database \<times> (exn + 'a)" where
  "session body db =
     (let rest = db\<lparr>db_faults := tl (db_faults db)\<rparr>
      in case db_faults db of
           Some msg # _ \<Rightarrow> (rest, Inl (SQLAlchemyError msg))
         | _ \<Rightarrow>
             (case body (db_tables db) of
                (t, Inl e) \<Rightarrow> (rest, Inl e)
              | (t, Inr x) \<Rightarrow> (rest\<lparr>db_tables := t\<rparr>, Inr x)))"

lemma session_Inr:
  "session body db = (db', Inr x) \<Longrightarrow>
     body (db_tables db) = (db_tables db', Inr x)"
  by (auto simp: session_def Let_def split: list.splits option.splits prod.splits sum.splits)

lemma session_commit:
  "session body db = (db', Inr x) \<Longrightarrow>
     db_tables db' = fst (body (db_tables db)) \<and> snd (body (db_tables db)) = Inr x"
  by (simp add: session_Inr)

lemma session_Inl: "session body db = (db', Inl e) \<Longrightarrow> db_tables db' = db_tables db"
  by (auto simp: session_def Let_def split: list.splits option.splits prod.splits sum.splits)

text \<open>A session that only reads.\<close>

lemma session_read:
  assumes "session (\<lambda>t. (t, Inr (f t))) db = (db', r)"
  shows "db_tables db' = db_tables db \<and> (\<forall>x. r = Inr x \<longrightarrow> x = f (db_tables db))"
  using assms session_Inl [of _ db db'] session_Inr [of _ db db'] by (cases r) fastforce+

section \<open>\<open>DatabaseWorkflowStorage\<close>\<close>

fun json_letter :: "libs \<Rightarrow> (string, pyval) dict \<Rightarrow> string + (string, pyval) dict" where
  "json_letter L [] = Inr []"
| "json_letter L ((k, v) # d) =
     bind_sum (via_json L v) (\<lambda>w. bind_sum (json_letter L d) (\<lambda>d'. Inr ((k, w) # d')))"

fun json_letters :: "libs \<Rightarrow> (string, pyval) dict list \<Rightarrow> string + (string, pyval) dict list" where
  "json_letters L [] = Inr []"
| "json_letters L (d # ds) =
     bind_sum (json_letter L d) (\<lambda>d'. bind_sum (json_letters L ds) (\<lambda>ds'. Inr (d' # ds')))"

definition make_step_row :: "run_input \<Rightarrow> string \<Rightarrow> string \<times> string \<Rightarrow> step_row" where
  "make_step_row i run_id st =
     \<lparr>se_run_id = run_id, se_step_id = fst st,
      se_task_name = get_default [] (ri_task_names i) (fst st), se_status = snd st,
      se_result = map_option py_str (dget (ri_results i) (fst st)),
      se_error = dget (ri_errors i) (fst st), se_attempt = 0\<rparr>"

definition delete_run :: "string \<Rightarrow> tables \<Rightarrow> tables" where
  "delete_run run_id t =
     t\<lparr>tb_runs := ddel run_id (tb_runs t),
       tb_steps := filter (\<lambda>s. se_run_id s \<noteq> run_id) (tb_steps t)\<rparr>"

definition save_run_body :: "libs \<Rightarrow> int \<Rightarrow> string \<Rightarrow> run_input \<Rightarrow> tables \<Rightarrow> tables \<times> (exn + string)" where
  "save_run_body L now run_id i t =
     (let t1 = (if dget (tb_runs t) run_id \<noteq> None then delete_run run_id t else t)
      in case json_letters L (ri_dead_letters i) of
           Inl msg \<Rightarrow> (t1, Inl (SQLAlchemyError msg))
         | Inr letters \<Rightarrow>
             (let row = \<lparr>wr_workflow_name = ri_workflow_name i, wr_yaml_definition = ri_yaml_definition i,
                         wr_status = ri_status i, wr_started_at = now, wr_completed_at = now,
                         wr_dead_letters = letters, wr_version_hash = ri_version_hash i,
                         wr_created_at = now\<rparr>
              in (t1\<lparr>tb_runs := dset run_id row (tb_runs t1),
                     tb_steps := tb_steps t1 @ map (make_step_row i run_id) (ri_statuses i)\<rparr>,
                  Inr run_id)))"

definition db_save_run :: "libs \<Rightarrow> int \<Rightarrow> string \<Rightarrow> run_input \<Rightarrow> database \<Rightarrow> database \<times> (exn + string)" where
  "db_save_run L now fresh i =
     session (save_run_body L now (choose_run_id fresh (ri_run_id i)) i)"

text \<open>\<open>{s.step_id: s.field for s in run.steps if s.field}\<close>.\<close>

definition step_fields :: "(step_row \<Rightarrow> string option) \<Rightarrow> step_row list \<Rightarrow> (string, string) dict" where
  "step_fields get_field steps =
     dict_of (map (\<lambda>s. (se_step_id s, the (get_field s)))
       (filter (\<lambda>s. get_field s \<noteq> None \<and> get_field s \<noteq> Some []) steps))"

definition run_steps :: "string \<Rightarrow> tables \<Rightarrow> step_row list" where
  "run_steps run_id t = filter (\<lambda>s. se_run_id s = run_id) (tb_steps t)"

definition read_run :: "string \<Rightarrow> tables \<Rightarrow> run_record option" where
  "read_run run_id t =
     map_option (\<lambda>run.
       \<lparr>rr_run_id = run_id, rr_workflow_name = wr_workflow_name run,
        rr_yaml_definition = wr_yaml_definition run, rr_status = wr_status run,
        rr_step_statuses = dict_of (map (\<lambda>s. (se_step_id s, se_status s)) (run_steps run_id t)),
        rr_results = step_fields se_result (run_steps run_id t),
        rr_errors = step_fields se_error (run_steps run_id t),
        rr_dead_letters = wr_dead_letters run,
        rr_task_names = step_fields (Some \<circ> se_task_name) (run_steps run_id t),
        rr_version_hash = wr_version_hash run,
        rr_created_at = isoformat (wr_created_at run), rr_completed_at = isoformat (wr_completed_at run)\<rparr>)
     (dget (tb_runs t) run_id)"

definition db_get_run :: "string \<Rightarrow> database \<Rightarrow> database \<times> (exn + run_record option)" where
  "db_get_run run_id = session (\<lambda>t. (t, Inr (read_run run_id t)))"

definition db_run_row :: "string \<times> run_row \<Rightarrow> (string, pyval) dict" where
  "db_run_row r =
     [(''run_id'', PyStr (fst r)), (''workflow_name'', PyStr (wr_workflow_name (snd r))),
      (''status'', PyStr (wr_status (snd r))),
      (''created_at'', PyStr (isoformat (wr_created_at (snd r))))]"

definition db_list_runs :: "nat \<Rightarrow> database \<Rightarrow> database \<times> (exn + (string, pyval) dict list)" where
  "db_list_runs limit =
     session (\<lambda>t. (t, Inr (map db_run_row (take limit (sorted_desc (wr_created_at \<circ> snd) (tb_runs t))))))"

definition db_get_dead_letters :: "string option \<Rightarrow> database \<Rightarrow> database \<times> (exn + (string, pyval) dict list)" where
  "db_get_dead_letters run_id =
     session (\<lambda>t. (t, Inr
       (case run_id of
          Some r \<Rightarrow> (case dget (tb_runs t) r of Some run \<Rightarrow> wr_dead_letters run | None \<Rightarrow> [])
        | None \<Rightarrow> concat (map (\<lambda>(k, run). map (letter_with_run k) (wr_dead_letters run)) (tb_runs t)))))"

definition db_storage :: "libs \<Rightarrow> int \<Rightarrow> string \<Rightarrow> database storage_ops" where
  "db_storage L now fresh =
     \<lparr>sg_save_run = db_save_run L now fresh, sg_get_run = db_get_run,
      sg_list_runs = db_list_runs, sg_get_dead_letters = db_get_dead_letters\<rparr>"

section \<open>\<open>DatabaseScheduleStore\<close> and \<open>DatabaseWebhookStore\<close>\<close>

definition to_schedule :: "string \<Rightarrow> schedule_record \<Rightarrow> scheduled_workflow" where
  "to_schedule name r =
     \<lparr>sw_name = name, sw_cron = sr_cron r, sw_yaml_definition = sr_yaml_definition r,
      sw_last_run = sr_last_run r, sw_next_run = sr_next_run r, sw_enabled = sr_enabled r\<rparr>"

definition db_schedule_put :: "scheduled_workflow \<Rightarrow> database \<Rightarrow> database \<times> (exn + unit)" where
  "db_schedule_put s =
     session (\<lambda>t. (t\<lparr>tb_schedules := dset (sw_name s)
         \<lparr>sr_cron = sw_cron s, sr_yaml_definition = sw_yaml_definition s, sr_last_run = sw_last_run s,
          sr_next_run = sw_next_run s, sr_enabled = sw_enabled s\<rparr> (tb_schedules t)\<rparr>, Inr ()))"

definition db_schedule_get :: "string \<Rightarrow> database \<Rightarrow> database \<times> (exn + scheduled_workflow option)" where
  "db_schedule_get name =
     session (\<lambda>t. (t, Inr (map_option (to_schedule name) (dget (tb_schedules t) name))))"

definition db_schedule_delete :: "string \<Rightarrow> database \<Rightarrow> database \<times> (exn + bool)" where
  "db_schedule_delete name =
     session (\<lambda>t. case dget (tb_schedules t) name of
                    None \<Rightarrow> (t, Inr False)
                  | Some _ \<Rightarrow> (t\<lparr>tb_schedules := ddel name (tb_schedules t)\<rparr>, Inr True))"

definition db_schedule_list :: "database \<Rightarrow> database \<times> (exn + scheduled_workflow list)" where
  "db_schedule_list = session (\<lambda>t. (t, Inr (map (\<lambda>(n, r). to_schedule n r) (tb_schedules t))))"

definition db_schedule_ops :: "(scheduled_workflow, database) store_ops" where
  "db_schedule_ops = \<lparr>so_put = db_schedule_put, so_get = db_schedule_get,
     so_delete = db_schedule_delete, so_list = db_schedule_list\<rparr>"

definition to_trigger :: "string \<Rightarrow> webhook_registration \<Rightarrow> webhook_trigger" where
  "to_trigger name r =
     \<lparr>wh_name = name, wh_yaml_definition = wg_yaml_definition r,
      wh_description = wg_description r, wh_secret = wg_secret r\<rparr>"

definition db_webhook_put :: "webhook_trigger \<Rightarrow> database \<Rightarrow> database \<times> (exn + unit)" where
  "db_webhook_put w =
     session (\<lambda>t. (t\<lparr>tb_webhooks := dset (wh_name w)
         \<lparr>wg_yaml_definition = wh_yaml_definition w, wg_description = wh_description w,
          wg_secret = wh_secret w\<rparr> (tb_webhooks t)\<rparr>, Inr ()))"

definition db_webhook_get :: "string \<Rightarrow> database \<Rightarrow> database \<times> (exn + webhook_trigger option)" where
  "db_webhook_get name =
     session (\<lambda>t. (t, Inr (map_option (to_trigger name) (dget (tb_webhooks t) name))))"

definition db_webhook_delete :: "string \<Rightarrow> database \<Rightarrow> database \<times> (exn + bool)" where
  "db_webhook_delete name =
     session (\<lambda>t. case dget (tb_webhooks t) name of
                    None \<Rightarrow> (t, Inr False)
                  | Some _ \<Rightarrow> (t\<lparr>tb_webhooks := ddel name (tb_webhooks t)\<rparr>, Inr True))"

definition db_webhook_list :: "database \<Rightarrow> database \<times> (exn + webhook_trigger list)" where
  "db_webhook_list = session (\<lambda>t. (t, Inr (map (\<lambda>(n, r). to_trigger n r) (tb_webhooks t))))"

definition db_webhook_ops :: "(webhook_trigger, database) store_ops" where
  "db_webhook_ops = \<lparr>so_put = db_webhook_put, so_get = db_webhook_get,
     so_delete = db_webhook_delete, so_list = db_webhook_list\<rparr>"

section \<open>The version, idempotency and event stores\<close>

definition db_version_put :: "libs \<Rightarrow> string \<Rightarrow> database \<Rightarrow> database \<times> (exn + workflow_version)" where
  "db_version_put L yaml_definition db =
     (case canonical_yaml_hash L yaml_definition of
        Inl e \<Rightarrow> (db, Inl e)
      | Inr h \<Rightarrow>
          session (\<lambda>t.
            (if dget (tb_definitions t) h = None
             then t\<lparr>tb_definitions := dset h yaml_definition (tb_definitions t)\<rparr> else t,
             Inr \<lparr>vr_content_hash = h, vr_yaml_definition = yaml_definition\<rparr>)) db)"

definition db_version_get :: "string \<Rightarrow> database \<Rightarrow> database \<times> (exn + workflow_version option)" where
  "db_version_get content_hash =
     session (\<lambda>t. (t, Inr (map_option
       (\<lambda>y. \<lparr>vr_content_hash = content_hash, vr_yaml_definition = y\<rparr>) (dget (tb_definitions t) content_hash))))"

text \<open>A duplicate primary key is an \<open>IntegrityError\<close> at the commit, after which the claim is refused.\<close>

definition db_claim :: "database claim_op" where
  "db_claim namespace key db =
     (case key of
        None \<Rightarrow> (db, Inr True)
      | Some k \<Rightarrow>
          if k = [] then (db, Inr True)
          else session (\<lambda>t. if (namespace, k) \<in> set (tb_claims t) then (t, Inr False)
                            else (t\<lparr>tb_claims := (namespace, k) # tb_claims t\<rparr>, Inr True)) db)"

definition make_event_row :: "libs \<Rightarrow> string \<Rightarrow> (string, pyval) dict \<Rightarrow> exn + event_row" where
  "make_event_row L run_id payload =
     (case (dget payload ''sequence'', dget payload ''kind'') of
        (None, _) \<Rightarrow> Inl (KeyError ''sequence'')
      | (_, None) \<Rightarrow> Inl (KeyError ''kind'')
      | (Some (PyInt n), Some kind) \<Rightarrow>
          (case via_json L (get_default (PyDict []) payload ''details'') of
             Inl msg \<Rightarrow> Inl (SQLAlchemyError msg)
           | Inr details \<Rightarrow>
               Inr \<lparr>er_run_id = run_id, er_sequence = n, er_kind = kind,
                    er_trigger_id = get_default PyNone payload ''trigger_id'',
                    er_step_id = get_default PyNone payload ''step_id'',
                    er_attempt = get_default PyNone payload ''attempt'', er_details = details\<rparr>)
      | (_, _) \<Rightarrow> Inl (SQLAlchemyError ''invalid sequence''))"

fun make_event_rows :: "libs \<Rightarrow> string \<Rightarrow> raw_event list \<Rightarrow> exn + event_row list" where
  "make_event_rows L run_id [] = Inr []"
| "make_event_rows L run_id (e # es) =
     bind_sum (make_event_row L run_id (event_payload e))
       (\<lambda>r. bind_sum (make_event_rows L run_id es) (\<lambda>rs. Inr (r # rs)))"

definition db_events_save :: "libs \<Rightarrow> string \<Rightarrow> raw_event list \<Rightarrow> database \<Rightarrow> database \<times> (exn + unit)" where
  "db_events_save L run_id events =
     session (\<lambda>t. let kept = filter (\<lambda>r. er_run_id r \<noteq> run_id) (tb_events t)
       in case make_event_rows L run_id events of
            Inl e \<Rightarrow> (t, Inl e)
          | Inr rows \<Rightarrow> (t\<lparr>tb_events := kept @ rows\<rparr>, Inr ()))"

definition event_dict :: "event_row \<Rightarrow> (string, pyval) dict" where
  "event_dict r =
     [(''sequence'', PyInt (er_sequence r)), (''kind'', er_kind r), (''trigger_id'', er_trigger_id r),
      (''run_id'', PyStr (er_run_id r)), (''step_id'', er_step_id r), (''attempt'', er_attempt r),
      (''details'', if truthy (er_details r) then er_details r else PyDict [])]"

definition db_events_list :: "string \<Rightarrow> database \<Rightarrow> database \<times> (exn + (string, pyval) dict list)" where
  "db_events_list run_id =
     session (\<lambda>t. (t, Inr (map event_dict
       (sort_key er_sequence (filter (\<lambda>r. er_run_id r = run_id) (tb_events t))))))"


section \<open>The database backend keeps the promises of the interfaces\<close>

text \<open>
  Primary keys are unique and a step belongs to a run, which the declarations of the tables
  enforce.
\<close>

definition db_good :: "database \<Rightarrow> bool" where
  "db_good db \<longleftrightarrow>
     distinct (dkeys (tb_runs (db_tables db))) \<and> distinct (dkeys (tb_schedules (db_tables db)))
     \<and> distinct (dkeys (tb_webhooks (db_tables db)))
     \<and> (\<forall>s \<in> set (tb_steps (db_tables db)). se_run_id s \<in> set (dkeys (tb_runs (db_tables db))))"

definition db_schedules :: "database \<Rightarrow> string \<Rightarrow> scheduled_workflow option" where
  "db_schedules db n = map_option (to_schedule n) (dget (tb_schedules (db_tables db)) n)"

definition db_triggers :: "database \<Rightarrow> string \<Rightarrow> webhook_trigger option" where
  "db_triggers db n = map_option (to_trigger n) (dget (tb_webhooks (db_tables db)) n)"

definition db_definitions :: "database \<Rightarrow> string \<Rightarrow> string option" where
  "db_definitions db = map_of (tb_definitions (db_tables db))"

definition db_claimed :: "database \<Rightarrow> (string \<times> string) set" where
  "db_claimed db = set (tb_claims (db_tables db))"

definition db_recorded :: "database \<Rightarrow> string \<Rightarrow> run_record option" where
  "db_recorded db rid = read_run rid (db_tables db)"

lemmas db_views = db_good_def db_schedules_def db_triggers_def db_definitions_def db_claimed_def db_recorded_def

text \<open>What a session that raises, or only reads, leaves as it was.\<close>

lemma db_views_cong:
  "db_tables db' = db_tables db \<Longrightarrow>
     db_good db' = db_good db \<and> db_schedules db' = db_schedules db \<and> db_triggers db' = db_triggers db
     \<and> db_definitions db' = db_definitions db \<and> db_claimed db' = db_claimed db \<and> db_recorded db' = db_recorded db"
  by (simp add: db_views fun_eq_iff)

lemma to_schedule_simps [simp]: "sw_name (to_schedule n r) = n"
  by (simp add: to_schedule_def)

lemma to_trigger_simps [simp]: "wh_name (to_trigger n r) = n"
  by (simp add: to_trigger_def)

lemma named_rows_set:
  assumes "distinct (dkeys d)" and "\<And>n r. name_of (conv n r) = n"
  shows "set (map (\<lambda>(n, r). conv n r) d) = {v. map_option (conv (name_of v)) (dget d (name_of v)) = Some v}"
  using assms by (force simp: dget_Some_iff)

lemma named_rows_distinct:
  assumes "distinct (dkeys d)" and "\<And>n r. name_of (conv n r) = n"
  shows "distinct (map name_of (map (\<lambda>(n, r). conv n r) d))"
proof -
  have "map name_of (map (\<lambda>(n, r). conv n r) d) = dkeys d"
    using assms(2) by (simp add: comp_def split_beta)
  with assms(1) show ?thesis by (simp only:)
qed

interpretation db_schedule: keyed_store db_schedule_ops sw_name db_schedules db_good
proof
  show "sw_name v = n" if "db_good s" "db_schedules s n = Some v" for s n v
    using that by (auto simp: db_schedules_def)
  show "db_good s' \<and> db_schedules s' = (db_schedules s)(sw_name v \<mapsto> v)"
    if "db_good s" "so_put db_schedule_ops v s = (s', Inr u)" for s v s' u
    using that
    by (auto simp: db_schedule_ops_def db_schedule_put_def db_good_def db_schedules_def fun_eq_iff to_schedule_def
        dest!: session_commit)
  show "db_good s' \<and> db_schedules s' = db_schedules s" if "db_good s" "so_put db_schedule_ops v s = (s', Inl e)" for s v s' e
    using that db_views_cong [of s' s] by (auto simp: db_schedule_ops_def db_schedule_put_def dest: session_Inl)
  show "db_good s' \<and> db_schedules s' = db_schedules s \<and> (\<forall>v. r = Inr v \<longrightarrow> v = db_schedules s n)"
    if "db_good s" "so_get db_schedule_ops n s = (s', r)" for s n s' r
    using that db_views_cong [of s' s]
    by (auto simp: db_schedule_ops_def db_schedule_get_def db_schedules_def dest!: session_read)
  show "db_good s' \<and> (b \<longleftrightarrow> db_schedules s n \<noteq> None) \<and> db_schedules s' = (db_schedules s)(n := None)"
    if "db_good s" "so_delete db_schedule_ops n s = (s', Inr b)" for s n s' b
    using that
    by (auto simp: db_schedule_ops_def db_schedule_delete_def db_good_def db_schedules_def fun_eq_iff distinct_delete
        dest!: session_commit split: option.splits)
  show "db_good s' \<and> db_schedules s' = db_schedules s" if "db_good s" "so_delete db_schedule_ops n s = (s', Inl e)" for s n s' e
    using that db_views_cong [of s' s] by (auto simp: db_schedule_ops_def db_schedule_delete_def dest: session_Inl)
  show "db_good s' \<and> db_schedules s' = db_schedules s
      \<and> (\<forall>vs. r = Inr vs \<longrightarrow> distinct (map sw_name vs) \<and> set vs = {v. db_schedules s (sw_name v) = Some v})"
    if "db_good s" "so_list db_schedule_ops s = (s', r)" for s s' r
  proof -
    have d: "distinct (dkeys (tb_schedules (db_tables s)))" using that(1) by (simp add: db_good_def)
    have "db_tables s' = db_tables s \<and> (\<forall>vs. r = Inr vs \<longrightarrow> vs = map (\<lambda>(n, r). to_schedule n r) (tb_schedules (db_tables s)))"
      using that(2) unfolding db_schedule_ops_def db_schedule_list_def store_ops.select_convs by (rule session_read)
    with that(1) db_views_cong [of s' s] named_rows_set [OF d, of sw_name to_schedule]
      named_rows_distinct [OF d, of sw_name to_schedule]
    show ?thesis by (auto simp: db_schedules_def simp del: map_map set_map)
  qed
qed

interpretation db_webhook: webhook_registry db_webhook_ops db_triggers db_good
proof
  show "wh_name v = n" if "db_good s" "db_triggers s n = Some v" for s n v
    using that by (auto simp: db_triggers_def)
  show "db_good s' \<and> db_triggers s' = (db_triggers s)(wh_name v \<mapsto> v)"
    if "db_good s" "so_put db_webhook_ops v s = (s', Inr u)" for s v s' u
    using that
    by (auto simp: db_webhook_ops_def db_webhook_put_def db_good_def db_triggers_def fun_eq_iff to_trigger_def
        dest!: session_commit)
  show "db_good s' \<and> db_triggers s' = db_triggers s" if "db_good s" "so_put db_webhook_ops v s = (s', Inl e)" for s v s' e
    using that db_views_cong [of s' s] by (auto simp: db_webhook_ops_def db_webhook_put_def dest: session_Inl)
  show "db_good s' \<and> db_triggers s' = db_triggers s \<and> (\<forall>v. r = Inr v \<longrightarrow> v = db_triggers s n)"
    if "db_good s" "so_get db_webhook_ops n s = (s', r)" for s n s' r
    using that db_views_cong [of s' s]
    by (auto simp: db_webhook_ops_def db_webhook_get_def db_triggers_def dest!: session_read)
  show "db_good s' \<and> (b \<longleftrightarrow> db_triggers s n \<noteq> None) \<and> db_triggers s' = (db_triggers s)(n := None)"
    if "db_good s" "so_delete db_webhook_ops n s = (s', Inr b)" for s n s' b
    using that
    by (auto simp: db_webhook_ops_def db_webhook_delete_def db_good_def db_triggers_def fun_eq_iff distinct_delete
        dest!: session_commit split: option.splits)
  show "db_good s' \<and> db_triggers s' = db_triggers s" if "db_good s" "so_delete db_webhook_ops n s = (s', Inl e)" for s n s' e
    using that db_views_cong [of s' s] by (auto simp: db_webhook_ops_def db_webhook_delete_def dest: session_Inl)
  show "db_good s' \<and> db_triggers s' = db_triggers s
      \<and> (\<forall>vs. r = Inr vs \<longrightarrow> distinct (map wh_name vs) \<and> set vs = {v. db_triggers s (wh_name v) = Some v})"
    if "db_good s" "so_list db_webhook_ops s = (s', r)" for s s' r
  proof -
    have d: "distinct (dkeys (tb_webhooks (db_tables s)))" using that(1) by (simp add: db_good_def)
    have "db_tables s' = db_tables s \<and> (\<forall>vs. r = Inr vs \<longrightarrow> vs = map (\<lambda>(n, r). to_trigger n r) (tb_webhooks (db_tables s)))"
      using that(2) unfolding db_webhook_ops_def db_webhook_list_def store_ops.select_convs by (rule session_read)
    with that(1) db_views_cong [of s' s] named_rows_set [OF d, of wh_name to_trigger]
      named_rows_distinct [OF d, of wh_name to_trigger]
    show ?thesis by (auto simp: db_triggers_def simp del: map_map set_map)
  qed
qed

interpretation db_versions: version_store L "db_version_put L" db_version_get db_definitions "\<lambda>_. True" for L
proof
  show "canonical_yaml_hash L y = Inr (vr_content_hash v) \<and> db_definitions s' =
      (db_definitions s)(vr_content_hash v \<mapsto>
        (case db_definitions s (vr_content_hash v) of None \<Rightarrow> y | Some y' \<Rightarrow> y'))"
    if "db_version_put L y s = (s', Inr v)" for s y s' v
    using that
    by (auto simp: db_version_put_def db_definitions_def fun_eq_iff
        dest!: session_commit split: sum.splits option.splits if_splits)
  show "db_definitions s' = db_definitions s" if "db_version_put L y s = (s', Inl e)" for s y s' e
    using that by (auto simp: db_version_put_def db_definitions_def dest!: session_Inl split: sum.splits)
  show "True \<and> db_definitions s' = db_definitions s
      \<and> (\<forall>v. r = Inr v \<longrightarrow> v = map_option (\<lambda>y. \<lparr>vr_content_hash = h, vr_yaml_definition = y\<rparr>) (db_definitions s h))"
    if "db_version_get h s = (s', r)" for s h s' r
    using that by (auto simp: db_version_get_def db_definitions_def dest!: session_read)
qed simp_all

interpretation db_claims: idempotency db_claim db_claimed
proof
  show "db_claim ns key s = (s, Inr True)" if "key = None \<or> key = Some []" for key ns s
    using that by (auto simp: db_claim_def)
  show "db_claimed s' = db_claimed s \<and> r \<noteq> Inr True"
    if "(ns, k) \<in> db_claimed s" "k \<noteq> []" "db_claim ns (Some k) s = (s', r)" for ns k s s' r
    using that by (cases r) (auto simp: db_claim_def db_claimed_def dest!: session_Inl session_commit)
  show "case r of Inr b \<Rightarrow> b \<and> db_claimed s' = insert (ns, k) (db_claimed s) | Inl e \<Rightarrow> db_claimed s' = db_claimed s"
    if "(ns, k) \<notin> db_claimed s" "k \<noteq> []" "db_claim ns (Some k) s = (s', r)" for ns k s s' r
    using that by (cases r) (auto simp: db_claim_def db_claimed_def dest!: session_Inl session_commit split: if_splits)
qed

section \<open>Run records in the tables\<close>

definition stored_letter :: "libs \<Rightarrow> (string, pyval) dict \<Rightarrow> (string, pyval) dict" where
  "stored_letter L d = (case json_letter L d of Inl _ \<Rightarrow> d | Inr d' \<Rightarrow> d')"

lemma json_letters_stored: "json_letters L ds = Inr ls \<Longrightarrow> ls = map (stored_letter L) ds"
  by (induction ds arbitrary: ls) (auto simp: bind_sum_Inr_iff stored_letter_def)

lemma step_fields_get:
  assumes "distinct (map se_step_id rows)"
  shows "dget (step_fields f rows) k = Some v \<longleftrightarrow> (\<exists>s \<in> set rows. se_step_id s = k \<and> f s = Some v \<and> v \<noteq> [])"
proof -
  let ?kvs = "map (\<lambda>s. (se_step_id s, the (f s))) (filter (\<lambda>s. f s \<noteq> None \<and> f s \<noteq> Some []) rows)"
  have d: "distinct (dkeys ?kvs)"
    using assms by (simp add: comp_def distinct_map_filter)
  have "dget (step_fields f rows) k = Some v \<longleftrightarrow> (k, v) \<in> set ?kvs"
    unfolding step_fields_def dict_of_distinct [OF d] by (rule dget_Some_iff [OF d])
  also have "\<dots> \<longleftrightarrow> (\<exists>s \<in> set rows. se_step_id s = k \<and> f s = Some v \<and> v \<noteq> [])"
    by force
  finally show ?thesis .
qed

lemma get_default_nonempty: "v \<noteq> [] \<Longrightarrow> get_default [] d k = v \<longleftrightarrow> dget d k = Some v"
  by (auto simp: get_default_def split: option.splits)

lemma make_step_row_simps [simp]:
  "se_run_id (make_step_row i rid st) = rid" "se_step_id (make_step_row i rid st) = fst st"
  "se_status (make_step_row i rid st) = snd st"
  by (simp_all add: make_step_row_def)

lemma step_rows_fields:
  assumes "distinct (dkeys sts)" and "\<And>st. f (make_step_row i rid st) = g (fst st)"
    and "\<And>k. k \<notin> set (dkeys sts) \<Longrightarrow> dget d k = None"
    and "\<And>k v. v \<noteq> [] \<Longrightarrow> g k = Some v \<longleftrightarrow> dget d k = Some v"
  shows "same_nonempty (step_fields f (map (make_step_row i rid) sts)) d"
proof -
  have "distinct (map se_step_id (map (make_step_row i rid) sts))"
    using assms(1) by (simp add: comp_def)
  note get = step_fields_get [OF this]
  have "(\<exists>s \<in> set (map (make_step_row i rid) sts). se_step_id s = k \<and> f s = Some v \<and> v \<noteq> []) \<longleftrightarrow> dget d k = Some v"
    if v: "v \<noteq> []" for k v
  proof
    assume "dget d k = Some v"
    with assms(3) [of k] obtain st where "st \<in> set sts" "fst st = k" by fastforce
    with assms(2,4) \<open>dget d k = Some v\<close> v
    show "\<exists>s \<in> set (map (make_step_row i rid) sts). se_step_id s = k \<and> f s = Some v \<and> v \<noteq> []"
      by auto
  qed (use assms(2,4) in auto)
  then show ?thesis unfolding same_nonempty_def get by simp
qed

text \<open>The tables after a save: the run's row and its steps are the new ones, the others stay.\<close>

lemma save_run_body_tables:
  assumes "db_good db" and "save_run_body L now rid i (db_tables db) = (t', Inr rid')"
  shows "rid' = rid \<and> tb_steps t' = filter (\<lambda>s. se_run_id s \<noteq> rid) (tb_steps (db_tables db)) @ map (make_step_row i rid) (ri_statuses i)
    \<and> tb_schedules t' = tb_schedules (db_tables db) \<and> tb_webhooks t' = tb_webhooks (db_tables db)
    \<and> distinct (dkeys (tb_runs t')) \<and> set (dkeys (tb_runs t')) = insert rid (set (dkeys (tb_runs (db_tables db))))
    \<and> (\<forall>k. k \<noteq> rid \<longrightarrow> dget (tb_runs t') k = dget (tb_runs (db_tables db)) k)
    \<and> dget (tb_runs t') rid = Some \<lparr>wr_workflow_name = ri_workflow_name i, wr_yaml_definition = ri_yaml_definition i,
        wr_status = ri_status i, wr_started_at = now, wr_completed_at = now,
        wr_dead_letters = map (stored_letter L) (ri_dead_letters i), wr_version_hash = ri_version_hash i,
        wr_created_at = now\<rparr>"
proof -
  let ?t = "db_tables db"
  have orphan: "filter (\<lambda>s. se_run_id s \<noteq> rid) (tb_steps ?t) = tb_steps ?t" if "dget (tb_runs ?t) rid = None"
    using assms(1) that by (force simp: db_good_def dget_None_iff filter_id_conv)
  obtain ls where ls: "json_letters L (ri_dead_letters i) = Inr ls"
    using assms(2) by (auto simp: save_run_body_def Let_def split: sum.splits)
  have d: "distinct (dkeys (tb_runs ?t))" using assms(1) by (simp add: db_good_def)
  have keys: "set (dkeys (ddel rid (tb_runs ?t))) = set (dkeys (tb_runs ?t)) - {rid}"
    by (simp only: delete_keys set_removeAll)
  let ?row = "\<lparr>wr_workflow_name = ri_workflow_name i, wr_yaml_definition = ri_yaml_definition i,
        wr_status = ri_status i, wr_started_at = now, wr_completed_at = now,
        wr_dead_letters = map (stored_letter L) (ri_dead_letters i), wr_version_hash = ri_version_hash i,
        wr_created_at = now\<rparr>"
  let ?runs = "if dget (tb_runs ?t) rid \<noteq> None then ddel rid (tb_runs ?t) else tb_runs ?t"
  have t': "t' = ?t\<lparr>tb_runs := dset rid ?row ?runs, tb_steps := filter (\<lambda>s. se_run_id s \<noteq> rid) (tb_steps ?t)
      @ map (make_step_row i rid) (ri_statuses i)\<rparr>" and rid': "rid' = rid"
    using assms(2) orphan json_letters_stored [OF ls] ls
    by (cases "dget (tb_runs ?t) rid"; simp add: save_run_body_def Let_def delete_run_def)+
  have "distinct (dkeys ?runs)" using d by (simp add: distinct_delete)
  moreover have "set (dkeys (dset rid ?row ?runs)) = insert rid (set (dkeys (tb_runs ?t)))"
    using keys by (auto simp: dget_None_iff simp del: set_map)
  moreover have "dget (dset rid ?row ?runs) k = dget (tb_runs ?t) k" if "k \<noteq> rid" for k
    using that by simp
  ultimately show ?thesis unfolding t' rid' by (simp del: set_map)
qed

interpretation db_runs: run_storage "db_storage L now fresh" db_recorded db_good "stored_letter L" for L now fresh
proof
  fix s i s' rid
  assume s: "db_good s" and i: "run_input_ok i" and sv: "sg_save_run (db_storage L now fresh) i s = (s', Inr rid)"
  have body: "save_run_body L now (choose_run_id fresh (ri_run_id i)) i (db_tables s) = (db_tables s', Inr rid)"
    using sv by (auto simp: db_storage_def db_save_run_def dest: session_Inr)
  note t = save_run_body_tables [OF s body]
  have rid: "rid = choose_run_id fresh (ri_run_id i)" using t by simp
  have good: "db_good s'" using s t rid by (auto simp: db_good_def)
  have other: "db_recorded s' k = db_recorded s k" if "k \<noteq> rid" for k
  proof -
    have "filter (\<lambda>x. se_run_id x \<noteq> rid \<and> se_run_id x = k) xs = filter (\<lambda>x. se_run_id x = k) xs" for xs
      using that by (intro filter_cong) auto
    then have "run_steps k (db_tables s') = run_steps k (db_tables s)"
      using t that rid by (simp add: run_steps_def filter_map comp_def)
    then show ?thesis using t that rid by (simp add: db_recorded_def read_run_def)
  qed
  have steps: "run_steps rid (db_tables s') = map (make_step_row i rid) (ri_statuses i)"
    using t rid by (simp add: run_steps_def filter_map comp_def)
  obtain r where r: "db_recorded s' rid = Some r" "records_run (stored_letter L) i rid r"
  proof
    let ?rows = "map (make_step_row i rid) (ri_statuses i)"
    show "db_recorded s' rid = Some
       \<lparr>rr_run_id = rid, rr_workflow_name = ri_workflow_name i, rr_yaml_definition = ri_yaml_definition i,
        rr_status = ri_status i, rr_step_statuses = dict_of (map (\<lambda>s. (se_step_id s, se_status s)) ?rows),
        rr_results = step_fields se_result ?rows, rr_errors = step_fields se_error ?rows,
        rr_dead_letters = map (stored_letter L) (ri_dead_letters i),
        rr_task_names = step_fields (Some \<circ> se_task_name) ?rows, rr_version_hash = ri_version_hash i,
        rr_created_at = isoformat now, rr_completed_at = isoformat now\<rparr>"
      unfolding db_recorded_def read_run_def steps using t rid by simp
    have sts: "dict_of (map (\<lambda>s. (se_step_id s, se_status s)) ?rows) = ri_statuses i"
      using i dict_of_distinct [of "ri_statuses i"] by (simp add: comp_def run_input_ok_def)
    have d: "distinct (dkeys (ri_statuses i))" using i by (simp add: run_input_ok_def)
    have res: "same_nonempty (step_fields se_result ?rows) (str_values (ri_results i))"
      by (rule step_rows_fields [OF d])
        (use i in \<open>auto simp: make_step_row_def run_input_ok_def str_values_def map_of_map dget_None_iff\<close>)
    have err: "same_nonempty (step_fields se_error ?rows) (ri_errors i)"
      by (rule step_rows_fields [OF d])
        (use i in \<open>auto simp: make_step_row_def run_input_ok_def dget_None_iff\<close>)
    have names: "same_nonempty (step_fields (Some \<circ> se_task_name) ?rows) (ri_task_names i)"
    proof (rule step_rows_fields [OF d, where g = "\<lambda>k. Some (get_default [] (ri_task_names i) k)"])
      show "dget (ri_task_names i) k = None" if "k \<notin> set (dkeys (ri_statuses i))" for k
        using i that by (auto simp: run_input_ok_def dget_None_iff)
    qed (simp_all add: make_step_row_def get_default_nonempty)
    show "records_run (stored_letter L) i rid
       \<lparr>rr_run_id = rid, rr_workflow_name = ri_workflow_name i, rr_yaml_definition = ri_yaml_definition i,
        rr_status = ri_status i, rr_step_statuses = dict_of (map (\<lambda>s. (se_step_id s, se_status s)) ?rows),
        rr_results = step_fields se_result ?rows, rr_errors = step_fields se_error ?rows,
        rr_dead_letters = map (stored_letter L) (ri_dead_letters i),
        rr_task_names = step_fields (Some \<circ> se_task_name) ?rows, rr_version_hash = ri_version_hash i,
        rr_created_at = isoformat now, rr_completed_at = isoformat now\<rparr>"
      using sts res err names by (simp add: records_run_def)
  qed
  have "db_recorded s' = (db_recorded s)(rid \<mapsto> r)" using other r(1) by (auto simp: fun_eq_iff)
  with good rid r(2) show "db_good s' \<and> (\<forall>r. ri_run_id i = Some r \<longrightarrow> r \<noteq> [] \<longrightarrow> rid = r)
      \<and> (\<exists>r. db_recorded s' = (db_recorded s)(rid \<mapsto> r) \<and> records_run (stored_letter L) i rid r)"
    by (auto simp: choose_run_id_def)
next
  show "db_good s' \<and> db_recorded s' = db_recorded s"
    if "db_good s" "sg_save_run (db_storage L now fresh) i s = (s', Inl e)" for s i s' e
    using that db_views_cong [of s' s] by (auto simp: db_storage_def db_save_run_def dest!: session_Inl)
  show "db_good s' \<and> db_recorded s' = db_recorded s \<and> (\<forall>v. q = Inr v \<longrightarrow> v = db_recorded s rid)"
    if "db_good s" "sg_get_run (db_storage L now fresh) rid s = (s', q)" for s rid s' q
    using that db_views_cong [of s' s]
    by (auto simp: db_storage_def db_get_run_def db_recorded_def dest!: session_read)
  show "db_good s' \<and> db_recorded s' = db_recorded s
      \<and> (\<forall>ls. d = Inr ls \<longrightarrow> ls = (case db_recorded s rid of None \<Rightarrow> [] | Some r \<Rightarrow> rr_dead_letters r))"
    if "db_good s" "sg_get_dead_letters (db_storage L now fresh) (Some rid) s = (s', d)" for s rid s' d
    using that db_views_cong [of s' s]
    by (auto simp: db_storage_def db_get_dead_letters_def db_recorded_def read_run_def
        dest!: session_read split: option.splits)
qed

section \<open>Events in the tables\<close>

lemma make_event_rows_objects:
  assumes "\<forall>e \<in> set es. via_json L (py_str_dict (ev_details e)) = Inr (py_str_dict (ev_details e))"
  shows "make_event_rows L rid (map EventObject es) = Inr (map (\<lambda>e.
     \<lparr>er_run_id = rid, er_sequence = int (ev_sequence e), er_kind = PyStr (ev_kind e),
      er_trigger_id = py_opt_str (ev_trigger_id e), er_step_id = py_opt_str (ev_step_id e),
      er_attempt = py_opt_nat (ev_attempt e), er_details = py_str_dict (ev_details e)\<rparr>) es)"
  using assms by (induction es) (simp_all add: make_event_row_def get_default_def)

lemma sort_key_sorted_id: "sorted (map f xs) \<Longrightarrow> sort_key f xs = xs"
proof (induction xs)
  case (Cons x xs)
  then have "sort_key f (x # xs) = insort_key f x xs" by simp
  also have "\<dots> = x # xs" using Cons.prems by (simp add: insort_is_Cons)
  finally show ?case .
qed simp

lemma event_dict_payload:
  "ev_run_id e = Some rid \<Longrightarrow>
     event_dict \<lparr>er_run_id = rid, er_sequence = int (ev_sequence e), er_kind = PyStr (ev_kind e),
      er_trigger_id = py_opt_str (ev_trigger_id e), er_step_id = py_opt_str (ev_step_id e),
      er_attempt = py_opt_nat (ev_attempt e), er_details = py_str_dict (ev_details e)\<rparr>
     = event_payload (EventObject e)"
  by (simp add: event_dict_def py_str_dict_def)

lemma db_events_saved:
  assumes "\<forall>e \<in> set es. ev_run_id e = Some rid \<and>
      via_json L (py_str_dict (ev_details e)) = Inr (py_str_dict (ev_details e))"
    and "sorted (map ev_sequence es)"
    and "db_events_save L rid (map EventObject es) db = (db1, Inr ())"
    and "db_events_list rid db1 = (db2, Inr rows)"
  shows "rows = map (event_payload \<circ> EventObject) es"
proof -
  let ?row = "\<lambda>e. \<lparr>er_run_id = rid, er_sequence = int (ev_sequence e), er_kind = PyStr (ev_kind e),
      er_trigger_id = py_opt_str (ev_trigger_id e), er_step_id = py_opt_str (ev_step_id e),
      er_attempt = py_opt_nat (ev_attempt e), er_details = py_str_dict (ev_details e)\<rparr>"
  have mk: "make_event_rows L rid (map EventObject es) = Inr (map ?row es)"
    using assms(1) by (intro make_event_rows_objects) simp
  have t: "filter (\<lambda>r. er_run_id r = rid) (tb_events (db_tables db1)) = map ?row es"
    using session_commit [OF assms(3) [unfolded db_events_save_def]] mk
    by (simp add: filter_map comp_def filter_empty_conv)
  have "sorted (map er_sequence (map ?row es))"
    using assms(2) by (simp add: comp_def sorted_map)
  then have "sort_key er_sequence (map ?row es) = map ?row es" by (rule sort_key_sorted_id)
  with t have "rows = map event_dict (map ?row es)"
    using session_commit [OF assms(4) [unfolded db_events_list_def]] by simp
  with assms(1) show ?thesis by (simp add: event_dict_payload)
qed

section \<open>Properties of the database backend\<close>


definition ex_input :: run_input where
  "ex_input =
     \<lparr>ri_workflow_name = ''leads'', ri_yaml_definition = ''leads.yaml'',
      ri_statuses = [(''a'', ''COMPLETED''), (''b'', ''FAILED'')],
      ri_results = [(''a'', PyStr [])], ri_status = ''failed'', ri_errors = [(''b'', ''boom'')],
      ri_dead_letters = [[(''step_id'', PyStr ''b'')]], ri_task_names = [(''a'', ''parse_text''), (''b'', ''always_fail'')],
      ri_run_id = Some ''r1'', ri_version_hash = None\<rparr>"

definition ex_db :: "string option list \<Rightarrow> database" where
  "ex_db faults =
     \<lparr>db_tables = \<lparr>tb_runs = [], tb_steps = [], tb_schedules = [], tb_webhooks = [],
        tb_definitions = [], tb_claims = [], tb_events = []\<rparr>, db_faults = faults\<rparr>"

lemma ex_db_good: "db_good (ex_db faults)"
  by (simp add: db_good_def ex_db_def)


text \<open>
  An empty string is where the backends differ. A step that completed with the empty
  string has a result in the in-memory storage and none in the database.
\<close>

theorem empty_result_lost:
  "rr_results (snd (hd (fst (mem_save_run 0 ''x'' ex_input [])))) = [(''a'', [])]
   \<and> map_option rr_results (read_run ''r1'' (db_tables (fst (db_save_run (table_libs []) 0 ''x'' ex_input (ex_db []))))) = Some []"
  by code_simp

text \<open>
  The database grants a namespace and key at most once, whatever else is claimed in
  between and whichever sessions fail.
\<close>

theorem db_claims_granted_once:
  assumes "k \<noteq> []" and "grants db_claim ns k cs db = (n, db')"
  shows "n \<le> 1 \<and> (n = 1 \<longleftrightarrow> (ns, k) \<in> db_claimed db' \<and> (ns, k) \<notin> db_claimed db)"
  using db_claims.claim_once [OF assms] by auto

theorem db_claims_granted_once_witness:
  "fst (grants db_claim ''run'' ''k1'' [(''run'', Some ''k1''), (''run'', Some ''k1''), (''hook'', Some ''k1''), (''run'', Some ''k1'')]
     (ex_db [Some ''down''])) \<le> 1"
proof -
  let ?g = "grants db_claim ''run'' ''k1'' [(''run'', Some ''k1''), (''run'', Some ''k1''), (''hook'', Some ''k1''), (''run'', Some ''k1'')]
     (ex_db [Some ''down''])"
  have "?g = (fst ?g, snd ?g)" by simp
  from db_claims_granted_once [OF _ this] show ?thesis by simp
qed

text \<open>
  The event stores agree: the ordered events of a run that are saved are listed back as
  the same payloads, from the tables and from memory.
\<close>

theorem event_stores_agree:
  assumes "\<forall>e \<in> set es. ev_run_id e = Some rid \<and>
      via_json L (py_str_dict (ev_details e)) = Inr (py_str_dict (ev_details e))"
    and "sorted (map ev_sequence es)"
    and "db_events_save L rid (map EventObject es) db = (db1, Inr ())"
    and "db_events_list rid db1 = (db2, Inr rows)"
  shows "rows = events_list rid (events_save rid (map EventObject es) records)"
  using db_events_saved [OF assms] by simp

theorem event_stores_agree_witness:
  "events_list ''r1'' (events_save ''r1'' [EventObject \<lparr>ev_sequence = 1, ev_kind = ''run.started'',
      ev_trigger_id = None, ev_run_id = Some ''r1'', ev_step_id = None, ev_attempt = None, ev_details = []\<rparr>] [])
   = (case snd (db_events_list ''r1'' (fst (db_events_save (table_libs []) ''r1'' [EventObject \<lparr>ev_sequence = 1, ev_kind = ''run.started'',
      ev_trigger_id = None, ev_run_id = Some ''r1'', ev_step_id = None, ev_attempt = None, ev_details = []\<rparr>] (ex_db [])))) of
        Inr rows \<Rightarrow> rows | Inl _ \<Rightarrow> [])"
proof -
  let ?e = "\<lparr>ev_sequence = 1, ev_kind = ''run.started'', ev_trigger_id = None, ev_run_id = Some ''r1'',
    ev_step_id = None, ev_attempt = None, ev_details = []\<rparr>"
  obtain db1 where s: "db_events_save (table_libs []) ''r1'' (map EventObject [?e]) (ex_db []) = (db1, Inr ())"
    by (simp add: db_events_save_def session_def ex_db_def make_event_row_def get_default_def table_libs_def Let_def
        py_str_dict_def)
  then have "db_faults db1 = []"
    by (auto simp: db_events_save_def session_def ex_db_def Let_def split: sum.splits)
  then obtain db2 rows where l: "db_events_list ''r1'' db1 = (db2, Inr rows)"
    by (simp add: db_events_list_def session_def Let_def)
  have "\<forall>e \<in> set [?e]. ev_run_id e = Some ''r1'' \<and>
      via_json (table_libs []) (py_str_dict (ev_details e)) = Inr (py_str_dict (ev_details e))"
    by (simp add: table_libs_def)
  from event_stores_agree [OF this _ s l, of "[]"] s l show ?thesis by simp
qed

text \<open>
  The version stores differ in what \<open>put\<close> returns for a definition whose hash is known:
  the in-memory store returns the definition stored first, the database store the new one;
  the definition that is kept and read back is the first one in both.
\<close>

theorem version_put_divergence:
  assumes "canonical_yaml_hash L y = Inr h" and "dget vs h = Some \<lparr>vr_content_hash = h, vr_yaml_definition = y0\<rparr>"
    and "db_definitions db h = Some y0" and "db_version_put L y db = (db', Inr v)"
  shows "version_put L y vs = (vs, Inr \<lparr>vr_content_hash = h, vr_yaml_definition = y0\<rparr>)
    \<and> v = \<lparr>vr_content_hash = h, vr_yaml_definition = y\<rparr> \<and> db_definitions db' h = Some y0"
  using assms by (auto simp: version_put_def db_version_put_def db_definitions_def dest!: session_commit)

theorem version_put_divergence_witness:
  "snd (version_put (table_libs [(''a: 1'', PyInt 1), (''a:  1'', PyInt 1)]) ''a:  1''
      [(''h:1'', \<lparr>vr_content_hash = ''h:1'', vr_yaml_definition = ''a: 1''\<rparr>)])
    = Inr \<lparr>vr_content_hash = ''h:1'', vr_yaml_definition = ''a: 1''\<rparr>"
proof -
  let ?L = "table_libs [(''a: 1'', PyInt 1), (''a:  1'', PyInt 1)]"
  let ?vs = "[(''h:1'', \<lparr>vr_content_hash = ''h:1'', vr_yaml_definition = ''a: 1''\<rparr>)]"
  let ?db = "fst (db_version_put ?L ''a: 1'' (ex_db []))"
  have h: "canonical_yaml_hash ?L ''a:  1'' = Inr ''h:1''" by code_simp
  have d: "db_definitions ?db ''h:1'' = Some ''a: 1''" unfolding db_definitions_def by code_simp
  have "snd (db_version_put ?L ''a:  1'' ?db) = Inr \<lparr>vr_content_hash = ''h:1'', vr_yaml_definition = ''a:  1''\<rparr>"
    by code_simp
  then obtain db' where p: "db_version_put ?L ''a:  1'' ?db = (db', Inr \<lparr>vr_content_hash = ''h:1'', vr_yaml_definition = ''a:  1''\<rparr>)"
    by (metis prod.collapse)
  from version_put_divergence [OF h _ d p, of ?vs] show ?thesis by simp
qed

end
