(* ===== verification/Runtime.thy ===== *)
theory Runtime
  imports Database Executor Auth Locks
begin

text \<open>
  \<open>runtime.py\<close> and the selection of a backend in \<open>db.py\<close>: the state of a process (API
  or worker), which holds the in-memory stores, the database it may reach, the locks and the
  limiter, and the bundles of services on it. Both bundles are interpreted as a scheduler's
  stores, so that what \<open>Scheduler\<close> proves of a tick holds for each backend.
\<close>

section \<open>Stateful operations that may raise\<close>

text \<open>An operation is a function of type \<open>'s \<Rightarrow> 's \<times> (exn + 'a)\<close>.\<close>

definition return_st :: "'a \<Rightarrow> 's \<Rightarrow> 's \<times> (exn + 'a)" where
  "return_st x s = (s, Inr x)"

definition raise_st :: "exn \<Rightarrow> 's \<Rightarrow> 's \<times> (exn + 'a)" where
  "raise_st e s = (s, Inl e)"

definition bind_st :: "('s \<Rightarrow> 's \<times> (exn + 'a)) \<Rightarrow> ('a \<Rightarrow> 's \<Rightarrow> 's \<times> (exn + 'b)) \<Rightarrow> 's \<Rightarrow> 's \<times> (exn + 'b)" where
  "bind_st m f s = (case m s of (s', Inl e) \<Rightarrow> (s', Inl e) | (s', Inr x) \<Rightarrow> f x s')"

text \<open>A \<open>try\<close> block whose handler translates some exceptions.\<close>

definition catch_st :: "('s \<Rightarrow> 's \<times> (exn + 'a)) \<Rightarrow> (exn \<Rightarrow> exn) \<Rightarrow> 's \<Rightarrow> 's \<times> (exn + 'a)" where
  "catch_st m h s = (case m s of (s', Inl e) \<Rightarrow> (s', Inl (h e)) | (s', Inr x) \<Rightarrow> (s', Inr x))"

definition lift_sum :: "exn + 'a \<Rightarrow> 's \<Rightarrow> 's \<times> (exn + 'a)" where
  "lift_sum r s = (s, r)"

lemma bind_st_Inr:
  "bind_st m f s = (s', Inr y) \<Longrightarrow> \<exists>s1 x. m s = (s1, Inr x) \<and> f x s1 = (s', Inr y)"
  by (auto simp: bind_st_def split: prod.splits sum.splits)

lemma bind_st_cases:
  assumes "bind_st m f s = (s', r)"
  obtains (raised) e where "m s = (s', Inl e)" and "r = Inl e"
    | (went) s1 x where "m s = (s1, Inr x)" and "f x s1 = (s', r)"
  using assms by (auto simp: bind_st_def split: prod.splits sum.splits)

lemma catch_st_cases:
  assumes "catch_st m h s = (s', r)"
  obtains (raised) e where "m s = (s', Inl e)" and "r = Inl (h e)"
    | (went) x where "m s = (s', Inr x)" and "r = Inr x"
  using assms by (auto simp: catch_st_def split: prod.splits sum.splits)

text \<open>An operation that does not change what \<open>v\<close> reads of the state.\<close>

definition keeps :: "('s \<Rightarrow> 'v) \<Rightarrow> ('s \<Rightarrow> 's \<times> 'r) \<Rightarrow> bool" where
  "keeps v m \<longleftrightarrow> (\<forall>s. v (fst (m s)) = v s)"

named_theorems keeps_intros \<open>what operations leave alone\<close>

lemma keepsD: "keeps v m \<Longrightarrow> m s = (s', r) \<Longrightarrow> v s' = v s"
  unfolding keeps_def by (metis fst_conv)

lemma keepsI: "(\<And>s s' r. m s = (s', r) \<Longrightarrow> v s' = v s) \<Longrightarrow> keeps v m"
  unfolding keeps_def by (metis prod.collapse)

lemma keeps_return [keeps_intros]: "keeps v (return_st x)"
  by (simp add: keeps_def return_st_def)

lemma keeps_raise [keeps_intros]: "keeps v (raise_st e)"
  by (simp add: keeps_def raise_st_def)

lemma keeps_lift_sum [keeps_intros]: "keeps v (lift_sum r)"
  by (simp add: keeps_def lift_sum_def)

lemma keeps_bind [keeps_intros]: "keeps v m \<Longrightarrow> (\<And>x. keeps v (f x)) \<Longrightarrow> keeps v (bind_st m f)"
  by (auto simp: keeps_def bind_st_def split: prod.split sum.split) (metis fst_conv)+

lemma keeps_catch [keeps_intros]: "keeps v m \<Longrightarrow> keeps v (catch_st m h)"
  by (auto simp: keeps_def catch_st_def split: prod.split sum.split) (metis fst_conv)+

lemma keeps_if [keeps_intros]: "keeps v m \<Longrightarrow> keeps v n \<Longrightarrow> keeps v (if b then m else n)"
  by simp

lemma keeps_option [keeps_intros]:
  "keeps v m \<Longrightarrow> (\<And>x. keeps v (f x)) \<Longrightarrow> keeps v (case q of None \<Rightarrow> m | Some x \<Rightarrow> f x)"
  by (cases q) simp_all

text \<open>An operation that keeps a predicate, whether it returns or raises.\<close>

definition preserves :: "('s \<Rightarrow> bool) \<Rightarrow> ('s \<Rightarrow> 's \<times> 'r) \<Rightarrow> bool" where
  "preserves P m \<longleftrightarrow> (\<forall>s. P s \<longrightarrow> P (fst (m s)))"

named_theorems preserves_intros \<open>what operations preserve\<close>

lemma preservesD: "preserves P m \<Longrightarrow> m s = (s', r) \<Longrightarrow> P s \<Longrightarrow> P s'"
  unfolding preserves_def by (metis fst_conv)

lemma preservesI: "(\<And>s s' r. P s \<Longrightarrow> m s = (s', r) \<Longrightarrow> P s') \<Longrightarrow> preserves P m"
  unfolding preserves_def by (metis prod.collapse)

lemma preserves_basic [preserves_intros]:
  "preserves P (return_st x)" "preserves P (raise_st e)" "preserves P (lift_sum r)"
  by (simp_all add: preserves_def return_st_def raise_st_def lift_sum_def)

lemma preserves_bind [preserves_intros]:
  "preserves P m \<Longrightarrow> (\<And>x. preserves P (f x)) \<Longrightarrow> preserves P (bind_st m f)"
  by (auto simp: preserves_def bind_st_def split: prod.split sum.split)

lemma preserves_catch [preserves_intros]: "preserves P m \<Longrightarrow> preserves P (catch_st m h)"
  by (auto simp: preserves_def catch_st_def split: prod.split sum.split)

lemma preserves_if [preserves_intros]: "preserves P m \<Longrightarrow> preserves P n \<Longrightarrow> preserves P (if b then m else n)"
  by simp

lemma preserves_option [preserves_intros]:
  "preserves P m \<Longrightarrow> (\<And>x. preserves P (f x)) \<Longrightarrow> preserves P (case q of None \<Rightarrow> m | Some x \<Rightarrow> f x)"
  by (cases q) simp_all

lemma preserves_prod [preserves_intros]:
  "(\<And>x y. preserves P (f x y)) \<Longrightarrow> preserves P (case q of (x, y) \<Rightarrow> f x y)"
  by (cases q) simp

section \<open>Lifting the operations of a store\<close>

definition lift_op :: "('p \<Rightarrow> 'd) \<Rightarrow> ('d \<Rightarrow> 'p \<Rightarrow> 'p) \<Rightarrow> ('d \<Rightarrow> 'd \<times> 'r) \<Rightarrow> 'p \<Rightarrow> 'p \<times> 'r" where
  "lift_op get_part set_part f p = (case f (get_part p) of (d, r) \<Rightarrow> (set_part d p, r))"

definition lift_store :: "('p \<Rightarrow> 'd) \<Rightarrow> ('d \<Rightarrow> 'p \<Rightarrow> 'p) \<Rightarrow> ('v, 'd) store_ops \<Rightarrow> ('v, 'p) store_ops" where
  "lift_store get_part set_part ops =
     \<lparr>so_put = \<lambda>v. lift_op get_part set_part (so_put ops v),
      so_get = \<lambda>n. lift_op get_part set_part (so_get ops n),
      so_delete = \<lambda>n. lift_op get_part set_part (so_delete ops n),
      so_list = lift_op get_part set_part (so_list ops)\<rparr>"

lemma lift_op_part:
  "lift_op get_part set_part f p = (p', r) \<Longrightarrow> get_part (set_part (fst (f (get_part p))) p) = fst (f (get_part p))
    \<Longrightarrow> f (get_part p) = (get_part p', r)"
  by (auto simp: lift_op_def split: prod.splits)

lemma keeps_lift_op [keeps_intros]:
  "(\<And>d p. v (set_part d p) = v p) \<Longrightarrow> keeps v (lift_op get_part set_part f)"
  by (simp add: keeps_def lift_op_def split: prod.split)

lemma keeps_lift_op_part:
  "keeps v f \<Longrightarrow> (\<And>d p. get_part (set_part d p) = d) \<Longrightarrow> keeps (v \<circ> get_part) (lift_op get_part set_part f)"
  by (auto simp: keeps_def lift_op_def split: prod.split) (metis fst_conv)

text \<open>A lifted store keeps its promises.\<close>

lemma keyed_store_lift:
  assumes "keyed_store ops name_of contents good" and gs: "\<And>d p. get_part (set_part d p) = d"
  shows "keyed_store (lift_store get_part set_part ops) name_of (contents \<circ> get_part) (good \<circ> get_part)"
proof -
  show ?thesis
    by unfold_locales
      (auto simp: lift_store_def dest!: lift_op_part simp: gs
        dest: keyed_store.named [OF assms(1)] keyed_store.put_ok [OF assms(1)] keyed_store.put_raises [OF assms(1)]
          keyed_store.get_ok [OF assms(1)] keyed_store.delete_ok [OF assms(1)]
          keyed_store.delete_raises [OF assms(1)] keyed_store.list_ok [OF assms(1)])
qed

section \<open>The state of a process\<close>

text \<open>
  The offline stores, the database and whether it was found available, the in-process
  limiter and locks, Redis, the number of identifiers drawn, and the world the tasks act on.
\<close>

record 'w process =
  pr_runs :: runs
  pr_schedules :: "(string, scheduled_workflow) dict"
  pr_webhooks :: "(string, webhook_trigger) dict"
  pr_versions :: versions
  pr_claims :: claims
  pr_events :: event_store
  pr_db :: database
  pr_db_available :: bool
  pr_limiter :: "rate_limiter option"
  pr_locks :: lock_keys
  pr_redis :: redis
  pr_uuids :: nat
  pr_world :: 'w

text \<open>
  What is fixed while a process runs: the libraries, the task registry, the generator of
  identifiers (\<open>uuid4\<close>), the clocks, the order in which parallel steps interleave, the
  message broker, the outcome of the health probes, the docstrings of the tasks, and the
  configuration (\<open>config.py\<close> and the environment).
\<close>

record 'w env =
  nv_libs :: libs
  nv_registry :: "'w registry"
  nv_uuid :: "nat \<Rightarrow> string"
  nv_clock :: "'w \<Rightarrow> int"
  nv_monotonic :: "'w \<Rightarrow> rat"
  nv_redis_clock :: "'w \<Rightarrow> int"
  nv_choices :: "'w \<Rightarrow> nat \<Rightarrow> choice list"
  nv_delay :: "string \<Rightarrow> string \<Rightarrow> string \<Rightarrow> int \<Rightarrow> 'w \<Rightarrow> 'w \<times> (string + string)"
  nv_probe :: "'w \<Rightarrow> bool"
  nv_validation_text :: string
  nv_async :: bool
  nv_beat :: bool
  nv_concurrency_limit :: int
  nv_locking :: bool
  nv_redis_locking :: bool
  nv_auth :: auth_policy
  nv_app_name :: string
  nv_db_ping :: "'w \<Rightarrow> unit option"
  nv_redis_ping :: "'w \<Rightarrow> bool option option"
  nv_task_docs :: "(string, string option) dict"

definition draw_uuid :: "'w env \<Rightarrow> 'w process \<Rightarrow> 'w process \<times> (exn + string)" where
  "draw_uuid env p = (p\<lparr>pr_uuids := Suc (pr_uuids p)\<rparr>, Inr (nv_uuid env (pr_uuids p)))"

section \<open>\<open>RuntimeServices\<close>\<close>

record 's services =
  sv_schedules :: "'s schedule_ops"
  sv_webhooks :: "'s webhook_ops"
  sv_version_put :: "string \<Rightarrow> 's \<Rightarrow> 's \<times> (exn + workflow_version)"
  sv_version_get :: "string \<Rightarrow> 's \<Rightarrow> 's \<times> (exn + workflow_version option)"
  sv_claim :: "'s claim_op"
  sv_events_save :: "string \<Rightarrow> raw_event list \<Rightarrow> 's \<Rightarrow> 's \<times> (exn + unit)"
  sv_events_list :: "string \<Rightarrow> 's \<Rightarrow> 's \<times> (exn + (string, pyval) dict list)"

definition set_schedules :: "(string, scheduled_workflow) dict \<Rightarrow> 'w process \<Rightarrow> 'w process" where
  "set_schedules d p = p\<lparr>pr_schedules := d\<rparr>"

definition set_webhooks :: "(string, webhook_trigger) dict \<Rightarrow> 'w process \<Rightarrow> 'w process" where
  "set_webhooks d p = p\<lparr>pr_webhooks := d\<rparr>"

definition set_versions :: "versions \<Rightarrow> 'w process \<Rightarrow> 'w process" where
  "set_versions d p = p\<lparr>pr_versions := d\<rparr>"

definition set_claims :: "claims \<Rightarrow> 'w process \<Rightarrow> 'w process" where
  "set_claims d p = p\<lparr>pr_claims := d\<rparr>"

definition set_events :: "event_store \<Rightarrow> 'w process \<Rightarrow> 'w process" where
  "set_events d p = p\<lparr>pr_events := d\<rparr>"

definition set_runs :: "runs \<Rightarrow> 'w process \<Rightarrow> 'w process" where
  "set_runs d p = p\<lparr>pr_runs := d\<rparr>"

definition set_db :: "database \<Rightarrow> 'w process \<Rightarrow> 'w process" where
  "set_db d p = p\<lparr>pr_db := d\<rparr>"

lemmas set_part_defs = set_schedules_def set_webhooks_def set_versions_def set_claims_def
  set_events_def set_runs_def set_db_def

definition in_memory :: "libs \<Rightarrow> 'w process services" where
  "in_memory L =
     \<lparr>sv_schedules = lift_store pr_schedules set_schedules (mem_ops sw_name),
      sv_webhooks = lift_store pr_webhooks set_webhooks (mem_ops wh_name),
      sv_version_put = \<lambda>y. lift_op pr_versions set_versions (version_put L y),
      sv_version_get = \<lambda>h. lift_op pr_versions set_versions (version_get h),
      sv_claim = \<lambda>ns key. lift_op pr_claims set_claims (claim ns key),
      sv_events_save = \<lambda>run_id events.
        lift_op pr_events set_events (\<lambda>d. (events_save run_id events d, Inr ())),
      sv_events_list = \<lambda>run_id. lift_op pr_events set_events (\<lambda>d. (d, Inr (events_list run_id d)))\<rparr>"

definition database_services :: "libs \<Rightarrow> 'w process services" where
  "database_services L =
     \<lparr>sv_schedules = lift_store pr_db set_db db_schedule_ops,
      sv_webhooks = lift_store pr_db set_db db_webhook_ops,
      sv_version_put = \<lambda>y. lift_op pr_db set_db (db_version_put L y),
      sv_version_get = \<lambda>h. lift_op pr_db set_db (db_version_get h),
      sv_claim = \<lambda>ns key. lift_op pr_db set_db (db_claim ns key),
      sv_events_save = \<lambda>run_id events. lift_op pr_db set_db (db_events_save L run_id events),
      sv_events_list = \<lambda>run_id. lift_op pr_db set_db (db_events_list run_id)\<rparr>"

definition get_runtime_services :: "libs \<Rightarrow> 'w process \<Rightarrow> 'w process services" where
  "get_runtime_services L p = (if pr_db_available p then database_services L else in_memory L)"

text \<open>\<open>get_storage\<close>; both storages draw an identifier only when no run id is given.\<close>

definition with_fresh :: "'w env \<Rightarrow> string option \<Rightarrow> (string \<Rightarrow> 'w process \<Rightarrow> 'w process \<times> (exn + 'a))
    \<Rightarrow> 'w process \<Rightarrow> 'w process \<times> (exn + 'a)" where
  "with_fresh env run_id f =
     (if run_id = None \<or> run_id = Some [] then bind_st (draw_uuid env) f else f [])"

definition offline_storage :: "'w env \<Rightarrow> 'w process storage_ops" where
  "offline_storage env =
     \<lparr>sg_save_run = \<lambda>i. with_fresh env (ri_run_id i) (\<lambda>fresh p.
        lift_op pr_runs set_runs (mem_save_run (nv_clock env (pr_world p)) fresh i) p),
      sg_get_run = \<lambda>rid. lift_op pr_runs set_runs (mem_get_run rid),
      sg_list_runs = \<lambda>n. lift_op pr_runs set_runs (mem_list_runs n),
      sg_get_dead_letters = \<lambda>rid. lift_op pr_runs set_runs (mem_get_dead_letters rid)\<rparr>"

definition database_storage :: "'w env \<Rightarrow> 'w process storage_ops" where
  "database_storage env =
     \<lparr>sg_save_run = \<lambda>i. with_fresh env (ri_run_id i) (\<lambda>fresh p.
        lift_op pr_db set_db (db_save_run (nv_libs env) (nv_clock env (pr_world p)) fresh i) p),
      sg_get_run = \<lambda>rid. lift_op pr_db set_db (db_get_run rid),
      sg_list_runs = \<lambda>n. lift_op pr_db set_db (db_list_runs n),
      sg_get_dead_letters = \<lambda>rid. lift_op pr_db set_db (db_get_dead_letters rid)\<rparr>"

definition get_storage :: "'w env \<Rightarrow> 'w process \<Rightarrow> 'w process storage_ops" where
  "get_storage env p = (if pr_db_available p then database_storage env else offline_storage env)"

section \<open>Both backends are a scheduler's stores\<close>

definition mem_scheduled :: "'w process \<Rightarrow> string \<Rightarrow> scheduled_workflow option" where
  "mem_scheduled p = map_of (pr_schedules p)"

definition mem_process_good :: "'w process \<Rightarrow> bool" where
  "mem_process_good p = mem_good sw_name (pr_schedules p)"

definition mem_claimed :: "'w process \<Rightarrow> (string \<times> string) set" where
  "mem_claimed p = set (pr_claims p)"

definition db_scheduled :: "'w process \<Rightarrow> string \<Rightarrow> scheduled_workflow option" where
  "db_scheduled p = db_schedules (pr_db p)"

definition db_process_good :: "'w process \<Rightarrow> bool" where
  "db_process_good p = db_good (pr_db p)"

definition db_process_claimed :: "'w process \<Rightarrow> (string \<times> string) set" where
  "db_process_claimed p = db_claimed (pr_db p)"

lemma mem_schedule_store:
  "keyed_store (sv_schedules (in_memory L)) sw_name mem_scheduled (mem_process_good :: 'w process \<Rightarrow> bool)"
proof -
  have eq: "(mem_scheduled :: 'w process \<Rightarrow> _) = map_of \<circ> pr_schedules"
    "(mem_process_good :: 'w process \<Rightarrow> bool) = mem_good sw_name \<circ> pr_schedules"
    by (simp_all add: mem_scheduled_def mem_process_good_def fun_eq_iff)
  show ?thesis
    unfolding eq in_memory_def services.select_convs
    by (rule keyed_store_lift [OF mem.keyed_store_axioms]) (simp add: set_schedules_def)
qed

lemma db_schedule_store:
  "keyed_store (sv_schedules (database_services L)) sw_name db_scheduled (db_process_good :: 'w process \<Rightarrow> bool)"
proof -
  have eq: "(db_scheduled :: 'w process \<Rightarrow> _) = db_schedules \<circ> pr_db"
    "(db_process_good :: 'w process \<Rightarrow> bool) = db_good \<circ> pr_db"
    by (simp_all add: db_scheduled_def db_process_good_def fun_eq_iff)
  show ?thesis
    unfolding eq database_services_def services.select_convs
    by (rule keyed_store_lift [OF db_schedule.keyed_store_axioms]) (simp add: set_db_def)
qed

lemma idempotency_lift:
  assumes "idempotency cl cd" and gs: "\<And>d p. get_part (set_part d p) = d" "\<And>p. set_part (get_part p) p = p"
  shows "idempotency (\<lambda>ns key. lift_op get_part set_part (cl ns key)) (cd \<circ> get_part)"
  by unfold_locales
    (auto simp: gs idempotency.claim_no_key [OF assms(1)] lift_op_def split: prod.splits sum.splits
      dest: idempotency.claim_taken [OF assms(1)] idempotency.claim_fresh [OF assms(1)])

lemma mem_claim_store: "idempotency (sv_claim (in_memory L)) (mem_claimed :: 'w process \<Rightarrow> _)"
proof -
  have eq: "(mem_claimed :: 'w process \<Rightarrow> _) = set \<circ> pr_claims"
    by (simp add: mem_claimed_def fun_eq_iff)
  show ?thesis
    unfolding eq in_memory_def services.select_convs
    by (rule idempotency_lift [OF mem_claims.idempotency_axioms]) (simp_all add: set_claims_def)
qed

lemma db_claim_store: "idempotency (sv_claim (database_services L)) (db_process_claimed :: 'w process \<Rightarrow> _)"
proof -
  have eq: "(db_process_claimed :: 'w process \<Rightarrow> _) = db_claimed \<circ> pr_db"
    by (simp add: db_process_claimed_def fun_eq_iff)
  show ?thesis
    unfolding eq database_services_def services.select_convs
    by (rule idempotency_lift [OF db_claims.idempotency_axioms]) (simp_all add: set_db_def)
qed

lemma keeps_session [keeps_intros]:
  assumes "\<And>t. v (fst (body t)) = v t"
  shows "keeps (v \<circ> db_tables) (session body)"
proof (rule keepsI)
  fix db db' r assume s: "session body db = (db', r)"
  show "(v \<circ> db_tables) db' = (v \<circ> db_tables) db"
  proof (cases r)
    case (Inl e)
    with session_Inl [of body db db'] s show ?thesis by simp
  next
    case (Inr x)
    with session_commit [of body db db'] s assms show ?thesis by simp
  qed
qed

lemma keeps_db_claim:
  assumes "\<And>t c. v (t\<lparr>tb_claims := c\<rparr>) = v t"
  shows "keeps (v \<circ> db_tables) (db_claim ns key)"
proof -
  have "db_claim ns key = (case key of None \<Rightarrow> return_st True
      | Some k \<Rightarrow> if k = [] then return_st True
          else session (\<lambda>t. if (ns, k) \<in> set (tb_claims t) then (t, Inr False)
                            else (t\<lparr>tb_claims := (ns, k) # tb_claims t\<rparr>, Inr True)))"
    by (auto simp: db_claim_def return_st_def fun_eq_iff split: option.split)
  then show ?thesis using assms by (auto intro!: keeps_intros)
qed

lemma db_claim_frame: "db_claim ns key db = (db', r) \<Longrightarrow> db_good db \<Longrightarrow> db_good db' \<and> db_schedules db' = db_schedules db"
  using keeps_db_claim [of tb_schedules ns key, THEN keepsD] keeps_db_claim [of tb_runs ns key, THEN keepsD]
    keeps_db_claim [of tb_webhooks ns key, THEN keepsD] keeps_db_claim [of tb_steps ns key, THEN keepsD]
  by (simp add: db_good_def db_schedules_def fun_eq_iff)

lemma keeps_db_schedule_claims:
  "keeps (tb_claims \<circ> db_tables) (db_schedule_put v)" "keeps (tb_claims \<circ> db_tables) (db_schedule_get n)"
  "keeps (tb_claims \<circ> db_tables) db_schedule_list"
  unfolding db_schedule_put_def db_schedule_get_def db_schedule_list_def by (rule keeps_session, simp)+

interpretation mem_sched: scheduling "sv_schedules (in_memory L)" mem_scheduled mem_process_good
  "sv_claim (in_memory L)" mem_claimed for L
proof (intro scheduling.intro mem_schedule_store mem_claim_store scheduling_axioms.intro)
  show "mem_process_good s' \<and> mem_scheduled s' = mem_scheduled s"
    if "mem_process_good s" "sv_claim (in_memory L) ns key s = (s', r)" for s s' :: "'w process" and ns key r
    using that by (auto simp: in_memory_def lift_op_def set_claims_def mem_process_good_def mem_scheduled_def split: prod.splits)
qed (auto simp: in_memory_def lift_store_def lift_op_def set_schedules_def mem_claimed_def split: prod.splits)

interpretation db_sched: scheduling "sv_schedules (database_services L)" db_scheduled db_process_good
  "sv_claim (database_services L)" db_process_claimed for L
proof (intro scheduling.intro db_schedule_store db_claim_store scheduling_axioms.intro)
  show "db_process_good s' \<and> db_scheduled s' = db_scheduled s"
    if "db_process_good s" "sv_claim (database_services L) ns key s = (s', r)" for s s' :: "'w process" and ns key r
    using that db_claim_frame
    by (auto simp: database_services_def lift_op_def set_db_def db_process_good_def db_scheduled_def split: prod.splits)
qed (auto simp: database_services_def lift_store_def lift_op_def set_db_def db_schedule_ops_def
      db_process_claimed_def db_claimed_def split: prod.splits dest: keeps_db_schedule_claims [THEN keepsD])

end
