(* ===== verification/Runner.thy ===== *)
theory Runner
  imports Runtime Execution
begin

text \<open>
  \<open>runner.py\<close>: parse, execute, persist. \<open>run_workflow\<close> is shared by the API and the
  worker; its optional arguments are a record. The order of its effects (the version is
  stored before the definition is parsed, the run before its events) is that of the code.
\<close>

section \<open>Arguments and results\<close>

record 'w run_args =
  ra_run_id :: "string option"
  ra_registry :: "'w registry"
  ra_concurrency :: "int option"
  ra_typed_io :: "bool option"
  ra_trace :: "trace_context option"
  ra_services :: "'w process services option"
  ra_version_hash :: "string option"
  ra_events :: "'w process services option"

definition letter_dict :: "dead_letter \<Rightarrow> (string, pyval) dict" where
  "letter_dict l =
     [(''step_id'', PyStr (dl_step_id l)), (''task'', PyStr (dl_task l)), (''error'', PyStr (dl_error l)),
      (''attempts'', PyInt (int (dl_attempts l))), (''params'', py_str_dict (dl_params l))]"

definition status_dict :: "'w exec \<Rightarrow> (string, string) dict" where
  "status_dict st = map (\<lambda>(k, v). (k, status_str v)) (ex_statuses st)"

definition py_str_values :: "(string, string) dict \<Rightarrow> pyval" where
  "py_str_values d = PyDict (map (\<lambda>(k, v). (PyStr k, PyStr v)) d)"

section \<open>\<open>execute_config\<close>\<close>

definition make_engine :: "'w env \<Rightarrow> workflow_config \<Rightarrow> 'w registry \<Rightarrow> int option \<Rightarrow> bool option \<Rightarrow> 'w engine" where
  "make_engine env config registry concurrency typed_io =
     \<lparr>en_config = config, en_registry = (if registry = [] then nv_registry env else registry),
      en_on_step = None, en_max_backoff = 8, en_concurrency = concurrency,
      en_typed_io = (case typed_io of None \<Rightarrow> wf_typed_io config | Some b \<Rightarrow> b)\<rparr>"

definition execute_config :: "'w env \<Rightarrow> workflow_config \<Rightarrow> 'w registry \<Rightarrow> int option \<Rightarrow> bool option
    \<Rightarrow> trace_context option \<Rightarrow> 'w process \<Rightarrow> 'w process \<times> (exn + 'w exec)" where
  "execute_config env config registry concurrency typed_io trace p =
     (case execute (make_engine env config registry concurrency typed_io) (nv_choices env (pr_world p))
             (init_exec config trace (pr_world p)) of
        (st, Some e) \<Rightarrow> (p\<lparr>pr_world := ex_world st\<rparr>, Inl e)
      | (st, None) \<Rightarrow> (p\<lparr>pr_world := ex_world st\<rparr>, Inr st))"

section \<open>\<open>run_workflow\<close>\<close>

text \<open>The trace gets the run's id, and the run the trace's.\<close>

definition fix_run_id :: "'w env \<Rightarrow> 'w run_args \<Rightarrow> 'w process
    \<Rightarrow> 'w process \<times> (exn + (trace_context option \<times> string option))" where
  "fix_run_id env a =
     (case ra_trace a of
        None \<Rightarrow> return_st (None, ra_run_id a)
      | Some t \<Rightarrow>
          bind_st
            (if tc_run_id t = None
             then (if ra_run_id a = None \<or> ra_run_id a = Some []
                   then bind_st (draw_uuid env) (\<lambda>u. return_st (t\<lparr>tc_run_id := Some u\<rparr>))
                   else return_st (t\<lparr>tc_run_id := ra_run_id a\<rparr>))
             else return_st t)
            (\<lambda>t'. return_st (Some t', case ra_run_id a of None \<Rightarrow> tc_run_id t' | Some r \<Rightarrow> Some r)))"

text \<open>The pinned definition, when a version hash is given.\<close>

definition pinned_definition :: "'w run_args \<Rightarrow> string \<Rightarrow> 'w process \<Rightarrow> 'w process \<times> (exn + string)" where
  "pinned_definition a yaml_definition =
     (case ra_version_hash a of
        None \<Rightarrow> return_st yaml_definition
      | Some h \<Rightarrow>
          (case ra_services a of
             None \<Rightarrow> raise_st (ValueError ''version_hash requires a workflow version store'')
           | Some sv \<Rightarrow>
               bind_st (sv_version_get sv h) (\<lambda>v.
                 case v of
                   None \<Rightarrow> raise_st (ValueError (''Workflow version '' @ [CHR 0x27] @ h @ [CHR 0x27] @ '' not found''))
                 | Some ver \<Rightarrow> return_st (vr_yaml_definition ver))))"

definition store_version :: "'w run_args \<Rightarrow> string \<Rightarrow> 'w process \<Rightarrow> 'w process \<times> (exn + workflow_version option)" where
  "store_version a yaml_definition =
     (case ra_services a of
        None \<Rightarrow> return_st None
      | Some sv \<Rightarrow> bind_st (sv_version_put sv yaml_definition) (\<lambda>v. return_st (Some v)))"

definition run_input_of :: "workflow_config \<Rightarrow> string \<Rightarrow> 'w exec \<Rightarrow> string option \<Rightarrow> string option \<Rightarrow> run_input" where
  "run_input_of config yaml_definition st run_id version_hash =
     \<lparr>ri_workflow_name = wf_name config, ri_yaml_definition = yaml_definition,
      ri_statuses = status_dict st, ri_results = ex_results st, ri_status = overall_status st,
      ri_errors = ex_errors st, ri_dead_letters = map letter_dict (ex_dead_letters st),
      ri_task_names = dict_of (map (\<lambda>s. (st_id s, st_task s)) (wf_steps config)),
      ri_run_id = run_id, ri_version_hash = version_hash\<rparr>"

definition run_result :: "workflow_config \<Rightarrow> 'w exec \<Rightarrow> string \<Rightarrow> (string, pyval) dict" where
  "run_result config st saved_id =
     [(''run_id'', PyStr saved_id), (''workflow'', PyStr (wf_name config)),
      (''status'', PyStr (overall_status st)), (''step_statuses'', py_str_values (status_dict st)),
      (''results'', py_str_values (str_values (ex_results st))), (''errors'', py_str_values (ex_errors st)),
      (''dead_letters'', PyList (map (py_str_dict \<circ> letter_dict) (ex_dead_letters st)))]"

definition save_events :: "'w run_args \<Rightarrow> string \<Rightarrow> 'w exec \<Rightarrow> (string, pyval) dict
    \<Rightarrow> 'w process \<Rightarrow> 'w process \<times> (exn + (string, pyval) dict)" where
  "save_events a saved_id st result =
     (case ex_trace st of
        None \<Rightarrow> return_st result
      | Some t \<Rightarrow>
          (let events = map (event_payload \<circ> EventObject) (tc_events t);
               result' = dset ''events'' (PyList (map py_str_dict events)) result
           in case ra_events a of
                None \<Rightarrow> return_st result'
              | Some sv \<Rightarrow> bind_st (sv_events_save sv saved_id (map EventDict events)) (\<lambda>_. return_st result')))"

definition version_entry :: "workflow_version option \<Rightarrow> (string, pyval) dict \<Rightarrow> (string, pyval) dict" where
  "version_entry version result =
     (case version of None \<Rightarrow> result | Some v \<Rightarrow> dset ''version_hash'' (PyStr (vr_content_hash v)) result)"

definition run_workflow :: "'w env \<Rightarrow> string \<Rightarrow> 'w process storage_ops \<Rightarrow> 'w run_args \<Rightarrow> 'w process
    \<Rightarrow> 'w process \<times> (exn + (string, pyval) dict)" where
  "run_workflow env yaml_definition storage a =
     bind_st (fix_run_id env a) (\<lambda>(trace, run_id).
     bind_st (pinned_definition a yaml_definition) (\<lambda>yaml.
     bind_st (store_version a yaml) (\<lambda>version.
     bind_st (lift_sum (load_workflow_yaml (nv_libs env) yaml)) (\<lambda>config.
     bind_st (execute_config env config (ra_registry a) (ra_concurrency a) (ra_typed_io a)
                (map_option (emit ''trigger.received'' None None []) trace)) (\<lambda>st.
     bind_st (sg_save_run storage (run_input_of config yaml st run_id
                (case version of Some v \<Rightarrow> Some (vr_content_hash v) | None \<Rightarrow> ra_version_hash a))) (\<lambda>saved_id.
     save_events a saved_id st (version_entry version (run_result config st saved_id))))))))"

section \<open>What a run hands to the storage\<close>

text \<open>The dictionaries of a run are keyed by its steps, and its events carry the run's id.\<close>

definition step_dicts :: "'w engine \<Rightarrow> 'w exec \<Rightarrow> bool" where
  "step_dicts en st \<longleftrightarrow>
     distinct (dkeys (ex_results st)) \<and> distinct (dkeys (ex_errors st))
     \<and> set (dkeys (ex_results st)) \<union> set (dkeys (ex_errors st)) \<subseteq> st_id ` set (wf_steps (en_config en))"

lemma worker_step_dicts:
  assumes "worker_step en t s ctx tr k err st = (st', r)"
  shows "(ex_results st' = ex_results st \<or> (\<exists>v. ex_results st' = dset (st_id s) v (ex_results st)))
    \<and> (ex_errors st' = ex_errors st \<or> (\<exists>e. ex_errors st' = dset (st_id s) e (ex_errors st)))"
  using assms
  by (auto simp: worker_step_def Let_def fail_step_def set_status_def trace_event_def
      split: if_splits sum.splits prod.splits)

lemma step_dicts_change: "step_dicts en st \<Longrightarrow> change en st st' \<Longrightarrow> step_dicts en st'"
proof (erule change.cases)
  fix s st1 t ctx tr k err st2 r
  assume eq: "st = st1" "st' = st2" and s: "s \<in> set (wf_steps (en_config en))"
    and w: "worker_step en t s ctx tr k err st1 = (st2, r)" and d: "step_dicts en st"
  have "distinct (dkeys d) \<and> set (dkeys d) \<subseteq> st_id ` set (wf_steps (en_config en)) \<Longrightarrow>
      distinct (dkeys (dset (st_id s) v d)) \<and> set (dkeys (dset (st_id s) v d)) \<subseteq> st_id ` set (wf_steps (en_config en))"
    for d :: "(string, 'b) dict" and v
    using s by simp
  with worker_step_dicts [OF w] d eq show "step_dicts en st'"
    unfolding step_dicts_def Un_subset_iff by metis
qed (simp_all add: step_dicts_def set_status_def trace_event_def emit_hook_def split: option.splits)

definition run_events :: "string \<Rightarrow> 'w exec \<Rightarrow> bool" where
  "run_events rid st \<longleftrightarrow>
     (case ex_trace st of
        None \<Rightarrow> True
      | Some t \<Rightarrow> tc_run_id t = Some rid \<and> (\<forall>e \<in> set (tc_events t). ev_run_id e = Some rid))"

lemma run_events_trace: "run_events rid st \<Longrightarrow> run_events rid (trace_event k so a d st)"
  by (auto simp: run_events_def trace_event_def emit_def Let_def split: option.splits)

lemma run_events_cong: "ex_trace st' = ex_trace st \<Longrightarrow> run_events rid st' = run_events rid st"
  by (simp add: run_events_def)

lemma run_events_change: "run_events rid st \<Longrightarrow> change en st st' \<Longrightarrow> run_events rid st'"
proof (erule change.cases)
  fix s st1 t ctx tr k err st2 r
  assume eq: "st = st1" "st' = st2" and w: "worker_step en t s ctx tr k err st1 = (st2, r)"
    and d: "run_events rid st"
  have "run_events rid (trace_event x y z v (st\<lparr>ex_world := w'\<rparr>))" for x y z v w'
    using d by (intro run_events_trace) (simp add: run_events_def)
  then show "run_events rid st'"
    using w d eq
    by (auto simp: worker_step_def Let_def fail_step_def run_events_def set_status_def trace_event_def emit_def
          split: if_splits sum.splits prod.splits option.splits)
qed (auto simp: run_events_trace intro: run_events_cong [THEN iffD2])

lemma init_step_dicts: "step_dicts en (init_exec config tr w)"
  by (simp add: step_dicts_def init_exec_def)

lemma execute_step_dicts:
  "execute en scheds (init_exec (en_config en) tr w) = (st, r) \<Longrightarrow> step_dicts en st"
  by (erule execute_induct) (rule init_step_dicts, rule step_dicts_change)

lemma execute_run_events:
  assumes "execute en scheds (init_exec (en_config en) tr w) = (st, r)"
    and "case tr of None \<Rightarrow> True | Some t \<Rightarrow> tc_run_id t = Some rid \<and> (\<forall>e \<in> set (tc_events t). ev_run_id e = Some rid)"
  shows "run_events rid st"
proof (rule execute_induct [OF assms(1)])
  show "run_events rid (init_exec (en_config en) tr w)"
    using assms(2) by (simp add: run_events_def init_exec_def)
qed (rule run_events_change)

lemma status_dict_keys: "status_keys en st \<Longrightarrow> dkeys (status_dict st) = step_ids (wf_steps (en_config en))"
  by (simp add: status_dict_def status_keys_def step_ids_def comp_def split_beta)

lemma execute_status_dict_keys:
  assumes "distinct (step_ids (wf_steps config))"
    and "execute (make_engine env config reg conc tio) scheds (init_exec config tr w) = (st, r)"
  shows "dkeys (status_dict st) = step_ids (wf_steps config)"
proof -
  let ?en = "make_engine env config reg conc tio"
  have cfg: "en_config ?en = config" by (simp add: make_engine_def)
  have ex: "execute ?en scheds (init_exec (en_config ?en) tr w) = (st, r)" using assms(2) by (simp only: cfg)
  have d: "distinct (map st_id (wf_steps (en_config ?en)))" using assms(1) by (simp add: cfg step_ids_def)
  have keys: "status_keys ?en st"
    by (rule execute_induct [OF ex]) (rule status_keys_init [OF d], rule status_keys_change)
  show ?thesis using status_dict_keys [OF keys] by (simp only: cfg)
qed

lemma run_input_of_ok:
  assumes "distinct (step_ids (wf_steps config))"
    and "execute (make_engine env config reg conc tio) scheds (init_exec config tr w) = (st, r)"
  shows "run_input_ok (run_input_of config yaml st rid h)"
proof -
  let ?en = "make_engine env config reg conc tio"
  have cfg: "en_config ?en = config" by (simp add: make_engine_def)
  have ex: "execute ?en scheds (init_exec (en_config ?en) tr w) = (st, r)" using assms(2) by (simp only: cfg)
  have d: "distinct (step_ids (wf_steps config))" by (rule assms(1))
  note k = execute_status_dict_keys [OF assms]
  have names: "dict_of (map (\<lambda>s. (st_id s, st_task s)) (wf_steps config)) = map (\<lambda>s. (st_id s, st_task s)) (wf_steps config)"
    using d by (intro dict_of_distinct) (simp add: comp_def step_ids_def)
  show ?thesis
    using execute_step_dicts [OF ex] assms(1) names
    unfolding run_input_ok_def run_input_of_def run_input.select_convs k step_dicts_def cfg
    by (auto simp: step_ids_def comp_def)
qed

text \<open>The parts of a run that returns.\<close>

lemma run_workflow_parts:
  assumes "run_workflow env y ops a p = (p', Inr result)"
  shows "\<exists>p1 trace run_id p2 yaml p3 version config p4 st p5 rid.
      fix_run_id env a p = (p1, Inr (trace, run_id))
    \<and> pinned_definition a y p1 = (p2, Inr yaml) \<and> store_version a yaml p2 = (p3, Inr version)
    \<and> load_workflow_yaml (nv_libs env) yaml = Inr config
    \<and> execute_config env config (ra_registry a) (ra_concurrency a) (ra_typed_io a)
        (map_option (emit ''trigger.received'' None None []) trace) p3 = (p4, Inr st)
    \<and> sg_save_run ops (run_input_of config yaml st run_id
        (case version of Some v \<Rightarrow> Some (vr_content_hash v) | None \<Rightarrow> ra_version_hash a)) p4 = (p5, Inr rid)
    \<and> save_events a rid st (version_entry version (run_result config st rid)) p5 = (p', Inr result)"
  using assms by (fastforce simp: run_workflow_def lift_sum_def dest!: bind_st_Inr)

section \<open>A run over any backend\<close>

text \<open>
  A run storage and a version store on the state of a process, which do not disturb each
  other and do not depend on the world or on the identifiers drawn.
\<close>

locale run_backend =
  storage: run_storage ops recorded good image_of + version: version_store L "sv_version_put sv" "sv_version_get sv" versions good
  for ops :: "'w process storage_ops" and recorded :: "'w process \<Rightarrow> string \<Rightarrow> run_record option"
    and good :: "'w process \<Rightarrow> bool" and image_of :: "(string, pyval) dict \<Rightarrow> (string, pyval) dict"
    and L :: libs and sv :: "'w process services" and versions :: "'w process \<Rightarrow> string \<Rightarrow> string option" +
  assumes world_frame: "good (p\<lparr>pr_world := w\<rparr>) = good p \<and> recorded (p\<lparr>pr_world := w\<rparr>) = recorded p
      \<and> versions (p\<lparr>pr_world := w\<rparr>) = versions p"
    and uuid_frame: "good (p\<lparr>pr_uuids := n\<rparr>) = good p \<and> recorded (p\<lparr>pr_uuids := n\<rparr>) = recorded p
      \<and> versions (p\<lparr>pr_uuids := n\<rparr>) = versions p"
    and put_frame: "sv_version_put sv y p = (p', q) \<Longrightarrow> recorded p' = recorded p"
    and get_frame: "sv_version_get sv h p = (p', g) \<Longrightarrow> recorded p' = recorded p"
    and save_frame: "sg_save_run ops i p = (p', z) \<Longrightarrow> versions p' = versions p"
    and events_frame: "good p \<Longrightarrow> sv_events_save sv rid es p = (p', u) \<Longrightarrow>
      good p' \<and> recorded p' = recorded p \<and> versions p' = versions p"
begin

definition same_store :: "'w process \<Rightarrow> 'w process \<Rightarrow> bool" where
  "same_store p p' \<longleftrightarrow> good p' \<and> recorded p' = recorded p \<and> versions p' = versions p"

lemma fix_run_id_same:
  assumes "good p" and "fix_run_id env a p = (p', r)"
  shows "same_store p p' \<and> (\<exists>t rid. r = Inr (t, rid)
    \<and> (\<forall>r0. ra_run_id a = Some r0 \<longrightarrow> rid = Some r0) \<and> (t = None \<longleftrightarrow> ra_trace a = None)
    \<and> (ra_trace a \<noteq> None \<longrightarrow> rid \<noteq> None))"
  using assms uuid_frame
  by (auto simp: fix_run_id_def return_st_def bind_st_def draw_uuid_def same_store_def
      split: option.splits if_splits)

lemma pinned_definition_same:
  assumes "good p" and "ra_services a = Some sv" and "pinned_definition a y p = (p', r)"
  shows "same_store p p' \<and> (\<forall>yaml. r = Inr yaml \<longrightarrow>
    (case ra_version_hash a of None \<Rightarrow> yaml = y | Some h \<Rightarrow> versions p h = Some yaml))"
proof (cases "ra_version_hash a")
  case None
  with assms show ?thesis by (auto simp: pinned_definition_def return_st_def same_store_def)
next
  case (Some h)
  obtain p1 g where g: "sv_version_get sv h p = (p1, g)" by force
  have ok: "good p1 \<and> versions p1 = versions p"
      "\<And>v. g = Inr v \<Longrightarrow> v = map_option (\<lambda>y. \<lparr>vr_content_hash = h, vr_yaml_definition = y\<rparr>) (versions p h)"
    using version.get_ok [OF assms(1) g] by simp_all
  with get_frame [OF g] assms(2,3) Some g show ?thesis
    by (cases "versions p h")
      (auto simp: pinned_definition_def bind_st_def return_st_def raise_st_def same_store_def split: sum.splits)
qed

text \<open>A run that returns a result: what was run, what is stored, and what the result says.\<close>

lemma run_workflow_records:
  assumes "good p" and "nv_libs env = L" and "ra_services a = Some sv" and "ra_events a \<in> {None, Some sv}"
    and "run_workflow env y ops a p = (p', Inr result)"
  shows "\<exists>yaml config h rid r. (case ra_version_hash a of None \<Rightarrow> yaml = y | Some h0 \<Rightarrow> versions p h0 = Some yaml)
    \<and> load_workflow_yaml L yaml = Inr config \<and> canonical_yaml_hash L yaml = Inr h
    \<and> good p' \<and> recorded p' = (recorded p)(rid \<mapsto> r)
    \<and> versions p' = (versions p)(h \<mapsto> (case versions p h of None \<Rightarrow> yaml | Some y0 \<Rightarrow> y0))
    \<and> (\<forall>r0. ra_run_id a = Some r0 \<longrightarrow> r0 \<noteq> [] \<longrightarrow> rid = r0)
    \<and> rr_run_id r = rid \<and> rr_workflow_name r = wf_name config \<and> rr_yaml_definition r = yaml
    \<and> rr_version_hash r = Some h \<and> dkeys (rr_step_statuses r) = step_ids (wf_steps config)
    \<and> dget result ''run_id'' = Some (PyStr rid) \<and> dget result ''status'' = Some (PyStr (rr_status r))
    \<and> dget result ''step_statuses'' = Some (py_str_values (rr_step_statuses r))
    \<and> dget result ''version_hash'' = Some (PyStr h)"
proof -
  obtain p1 trace run_id p2 yaml p3 version config p4 st p5 rid where
    f: "fix_run_id env a p = (p1, Inr (trace, run_id))"
    and f2: "pinned_definition a y p1 = (p2, Inr yaml)" and f3: "store_version a yaml p2 = (p3, Inr version)"
    and load: "load_workflow_yaml L yaml = Inr config"
    and f5: "execute_config env config (ra_registry a) (ra_concurrency a) (ra_typed_io a)
        (map_option (emit ''trigger.received'' None None []) trace) p3 = (p4, Inr st)"
    and f6: "sg_save_run ops (run_input_of config yaml st run_id
        (case version of Some v \<Rightarrow> Some (vr_content_hash v) | None \<Rightarrow> ra_version_hash a)) p4 = (p5, Inr rid)"
    and k6: "save_events a rid st (version_entry version (run_result config st rid)) p5 = (p', Inr result)"
    using run_workflow_parts [OF assms(5)] unfolding assms(2) by blast
  note s1 = fix_run_id_same [OF assms(1) f]
  have g1: "good p1" using s1 by (simp add: same_store_def)
  note s2 = pinned_definition_same [OF g1 assms(3) f2]
  obtain v where pv: "sv_version_put sv yaml p2 = (p3, Inr v)" and v: "version = Some v"
    using f3 assms(3) by (auto simp: store_version_def return_st_def dest!: bind_st_Inr)
  have g2: "good p2" using s2 by (simp add: same_store_def)
  have g3: "good p3" by (rule version.put_good [OF g2 pv])
  have h: "canonical_yaml_hash L yaml = Inr (vr_content_hash v)"
    and v3: "versions p3 = (versions p2)(vr_content_hash v \<mapsto> (case versions p2 (vr_content_hash v) of None \<Rightarrow> yaml | Some y' \<Rightarrow> y'))"
    using version.put_ok [OF g2 pv] by simp_all
  let ?en = "make_engine env config (ra_registry a) (ra_concurrency a) (ra_typed_io a)"
  obtain w scheds tr' where ex: "execute ?en scheds (init_exec config tr' w) = (st, None)"
    and p4: "p4 = p3\<lparr>pr_world := ex_world st\<rparr>"
    using f5 by (auto simp: execute_config_def split: prod.splits option.splits)
  have d: "distinct (step_ids (wf_steps config))"
    using load_wf [OF load] by (simp add: wf_workflow_def)
  let ?i = "run_input_of config yaml st run_id (Some (vr_content_hash v))"
  have iok: "run_input_ok ?i" by (rule run_input_of_ok [OF d ex])
  have sv5: "sg_save_run ops ?i p4 = (p5, Inr rid)" using f6 by (simp add: v)
  have g4: "good p4" using g3 world_frame p4 by simp
  obtain r where g5: "good p5" and rid: "\<And>r0. run_id = Some r0 \<Longrightarrow> r0 \<noteq> [] \<Longrightarrow> rid = r0"
    and r: "recorded p5 = (recorded p4)(rid \<mapsto> r)" "records_run image_of ?i rid r"
    using storage.save_ok [OF g4 iok sv5] by (auto simp: run_input_of_def)
  have s6: "same_store p5 p'" and res: "\<exists>ev. result = version_entry version (run_result config st rid) \<or>
      result = dset ''events'' ev (version_entry version (run_result config st rid))"
    using k6 g5 assms(4) events_frame [OF g5]
    by (auto simp: save_events_def return_st_def bind_st_def same_store_def Let_def
        split: option.splits prod.splits sum.splits)
  have keys: "dkeys (status_dict st) = step_ids (wf_steps config)"
    by (rule execute_status_dict_keys [OF d ex])
  have rec: "recorded p' = (recorded p)(rid \<mapsto> r)"
    using s1 s2 s6 r(1) p4 world_frame put_frame [OF pv] by (simp add: same_store_def)
  have ver: "versions p' = (versions p)(vr_content_hash v \<mapsto> (case versions p (vr_content_hash v) of None \<Rightarrow> yaml | Some y0 \<Rightarrow> y0))"
    using s1 s2 s6 p4 world_frame v3 save_frame [OF sv5] by (simp add: same_store_def)
  have pin: "case ra_version_hash a of None \<Rightarrow> yaml = y | Some h0 \<Rightarrow> versions p h0 = Some yaml"
    using s1 s2 by (simp add: same_store_def split: option.splits)
  have fields: "dget result ''run_id'' = Some (PyStr rid)" "dget result ''status'' = Some (PyStr (overall_status st))"
    "dget result ''step_statuses'' = Some (py_str_values (status_dict st))"
    "dget result ''version_hash'' = Some (PyStr (vr_content_hash v))"
    using res by (auto simp: v version_entry_def run_result_def)
  have "good p'" using s6 by (simp add: same_store_def)
  then show ?thesis
    using pin load h rec ver fields keys r(2) rid s1
    by (intro exI [of _ yaml] exI [of _ config] exI [of _ "vr_content_hash v"] exI [of _ rid] exI [of _ r])
      (simp add: records_run_def run_input_of_def)
qed

text \<open>A version that is not stored is refused, and nothing is run or stored.\<close>

lemma unknown_version_raises:
  assumes "good p" and "ra_services a = Some sv" and "ra_version_hash a = Some h" and "versions p h = None"
    and "run_workflow env y ops a p = (p', r)"
  shows "same_store p p' \<and> (\<exists>e. r = Inl e)"
proof -
  obtain p1 q where f: "fix_run_id env a p = (p1, q)" by force
  from fix_run_id_same [OF assms(1) f] obtain t rid where q: "q = Inr (t, rid)" and s1: "same_store p p1"
    by blast
  obtain p2 d where d: "pinned_definition a y p1 = (p2, d)" by force
  have g1: "good p1" using s1 by (simp add: same_store_def)
  note s2 = pinned_definition_same [OF g1 assms(2) d]
  have "\<exists>e. d = Inl e" using s1 s2 assms(3,4) by (cases d) (auto simp: same_store_def)
  with f d q assms(5) s1 s2 show ?thesis
    by (auto simp: run_workflow_def bind_st_def same_store_def)
qed

text \<open>A definition that does not load is stored before it is refused.\<close>

lemma invalid_definition_stored:
  assumes "good p" and "nv_libs env = L" and "ra_services a = Some sv" and "ra_version_hash a = None"
    and "load_workflow_yaml L y = Inl e" and "run_workflow env y ops a p = (p', r)"
  shows "good p' \<and> recorded p' = recorded p \<and> (\<exists>e'. r = Inl e'
    \<and> (versions p' = versions p \<or> e' = e \<and> (\<exists>h. canonical_yaml_hash L y = Inr h \<and> versions p' h \<noteq> None)))"
proof -
  obtain p1 q where f: "fix_run_id env a p = (p1, q)" by force
  from fix_run_id_same [OF assms(1) f] obtain t rid where q: "q = Inr (t, rid)" and s1: "same_store p p1"
    by blast
  have d: "pinned_definition a y p1 = (p1, Inr y)" by (simp add: pinned_definition_def assms(4) return_st_def)
  obtain p3 v where v: "sv_version_put sv y p1 = (p3, v)" by force
  have g1: "good p1" using s1 by (simp add: same_store_def)
  have g3: "good p3" "recorded p3 = recorded p1" using version.put_good [OF g1 v] put_frame [OF v] by simp_all
  show ?thesis
  proof (cases v)
    case (Inl e')
    with version.put_raises [OF g1] v have "versions p3 = versions p1" by blast
    with Inl f d q v assms(3,6) s1 g3 show ?thesis
      by (auto simp: run_workflow_def bind_st_def store_version_def same_store_def)
  next
    case (Inr ver)
    with version.put_ok [OF g1] v
    have "canonical_yaml_hash L y = Inr (vr_content_hash ver)" "versions p3 (vr_content_hash ver) \<noteq> None"
      by auto
    with Inr f d q v assms(2,3,5,6) s1 g3 show ?thesis
      by (auto simp: run_workflow_def bind_st_def store_version_def return_st_def lift_sum_def same_store_def)
  qed
qed

end

section \<open>Both backends\<close>

lemma offline_save:
  assumes "sg_save_run (offline_storage env) i p = (p', r)"
  shows "\<exists>now fresh n. sg_save_run (mem_storage now fresh) i (pr_runs p) = (pr_runs p', r)
    \<and> p' = p\<lparr>pr_uuids := n, pr_runs := pr_runs p'\<rparr>"
proof (cases "ri_run_id i = None \<or> ri_run_id i = Some []")
  case True
  with assms show ?thesis
    by (auto simp: offline_storage_def with_fresh_def bind_st_def draw_uuid_def lift_op_def mem_storage_def
        set_runs_def split: prod.splits
        intro!: exI [of _ "nv_clock env (pr_world p)"] exI [of _ "nv_uuid env (pr_uuids p)"] exI [of _ "Suc (pr_uuids p)"])
next
  case False
  with assms show ?thesis
    by (auto simp: offline_storage_def with_fresh_def lift_op_def mem_storage_def
        set_runs_def split: prod.splits intro!: exI [of _ "nv_clock env (pr_world p)"] exI [of _ "[]"] exI [of _ "pr_uuids p"])
qed

lemma offline_save_versions: "sg_save_run (offline_storage env) i p = (p', r) \<Longrightarrow> pr_versions p' = pr_versions p"
  by (drule offline_save, elim exE conjE, erule ssubst) simp

lemma database_save:
  assumes "sg_save_run (database_storage env) i p = (p', r)"
  shows "\<exists>now fresh n. sg_save_run (db_storage (nv_libs env) now fresh) i (pr_db p) = (pr_db p', r)
    \<and> p' = p\<lparr>pr_uuids := n, pr_db := pr_db p'\<rparr>"
proof (cases "ri_run_id i = None \<or> ri_run_id i = Some []")
  case True
  with assms show ?thesis
    by (auto simp: database_storage_def with_fresh_def bind_st_def draw_uuid_def lift_op_def db_storage_def
        set_db_def split: prod.splits
        intro!: exI [of _ "nv_clock env (pr_world p)"] exI [of _ "nv_uuid env (pr_uuids p)"] exI [of _ "Suc (pr_uuids p)"])
next
  case False
  with assms show ?thesis
    by (auto simp: database_storage_def with_fresh_def lift_op_def db_storage_def
        set_db_def split: prod.splits intro!: exI [of _ "nv_clock env (pr_world p)"] exI [of _ "[]"] exI [of _ "pr_uuids p"])
qed

definition offline_recorded :: "'w process \<Rightarrow> string \<Rightarrow> run_record option" where
  "offline_recorded p = map_of (pr_runs p)"

definition offline_versions :: "'w process \<Rightarrow> string \<Rightarrow> string option" where
  "offline_versions p = versions_stored (pr_versions p)"

definition offline_good :: "'w process \<Rightarrow> bool" where
  "offline_good p \<longleftrightarrow> mem_runs_good (pr_runs p) \<and> versions_good (pr_versions p)"

definition database_recorded :: "'w process \<Rightarrow> string \<Rightarrow> run_record option" where
  "database_recorded p = db_recorded (pr_db p)"

definition database_versions :: "'w process \<Rightarrow> string \<Rightarrow> string option" where
  "database_versions p = db_definitions (pr_db p)"

lemmas backend_views = offline_recorded_def offline_versions_def offline_good_def database_recorded_def
  database_versions_def db_process_good_def

text \<open>Lifting the two stores from their part of the state.\<close>

lemma run_storage_lift:
  assumes ops: "\<And>now fresh. run_storage (ops now fresh) recorded good im"
    and save: "\<And>i p p' r. sg_save_run ops' i p = (p', r) \<Longrightarrow>
      \<exists>now fresh. sg_save_run (ops now fresh) i (gp p) = (gp p', r) \<and> (good' p \<longrightarrow> good (gp p') \<longrightarrow> good' p')"
    and get: "\<And>rid. sg_get_run ops' rid = lift_op gp sp (sg_get_run (ops 0 []) rid)"
    and letters: "\<And>rid. sg_get_dead_letters ops' rid = lift_op gp sp (sg_get_dead_letters (ops 0 []) rid)"
    and gs: "\<And>d p. gp (sp d p) = d" and good: "\<And>p. good' p \<Longrightarrow> good (gp p)"
    and good': "\<And>d p. good' p \<Longrightarrow> good d \<Longrightarrow> good' (sp d p)"
  shows "run_storage ops' (recorded \<circ> gp) good' im"
proof
  note save_ok = run_storage.save_ok [OF ops] and save_raises = run_storage.save_raises [OF ops]
    and get_ok = run_storage.get_ok [OF ops] and letters_ok = run_storage.letters_ok [OF ops]
  show "good' s' \<and> (\<forall>r. ri_run_id i = Some r \<longrightarrow> r \<noteq> [] \<longrightarrow> rid = r)
      \<and> (\<exists>r. (recorded \<circ> gp) s' = ((recorded \<circ> gp) s)(rid \<mapsto> r) \<and> records_run im i rid r)"
    if "good' s" "run_input_ok i" "sg_save_run ops' i s = (s', Inr rid)" for s i s' rid
    using save [OF that(3)] save_ok [OF good [OF that(1)] that(2)] that(1) unfolding comp_def by metis
  show "good' s' \<and> (recorded \<circ> gp) s' = (recorded \<circ> gp) s"
    if "good' s" "sg_save_run ops' i s = (s', Inl e)" for s i s' e
    using save [OF that(2)] save_raises [OF good [OF that(1)]] that(1) unfolding comp_def by metis
  show "good' s' \<and> (recorded \<circ> gp) s' = (recorded \<circ> gp) s \<and> (\<forall>v. q = Inr v \<longrightarrow> v = (recorded \<circ> gp) s rid)"
    if g: "good' s" and q: "sg_get_run ops' rid s = (s', q)" for s rid s' q
  proof -
    obtain d where "sg_get_run (ops 0 []) rid (gp s) = (d, q)" "s' = sp d s"
      using q by (auto simp: get lift_op_def split: prod.splits)
    with get_ok [OF good [OF g]] good' [OF g] gs show ?thesis by auto
  qed
  show "good' s' \<and> (recorded \<circ> gp) s' = (recorded \<circ> gp) s
      \<and> (\<forall>ls. d = Inr ls \<longrightarrow> ls = (case (recorded \<circ> gp) s rid of None \<Rightarrow> [] | Some r \<Rightarrow> rr_dead_letters r))"
    if g: "good' s" and q: "sg_get_dead_letters ops' (Some rid) s = (s', d)" for s rid s' d
  proof -
    obtain x where "sg_get_dead_letters (ops 0 []) (Some rid) (gp s) = (x, d)" "s' = sp x s"
      using q by (auto simp: letters lift_op_def split: prod.splits)
    with letters_ok [OF good [OF g]] good' [OF g] gs show ?thesis by auto
  qed
qed

lemma version_store_lift:
  assumes vs: "version_store L put get stored good"
    and gs: "\<And>d p. gp (sp d p) = d" and good: "\<And>p. good' p \<Longrightarrow> good (gp p)"
    and good': "\<And>d p. good' p \<Longrightarrow> good d \<Longrightarrow> good' (sp d p)"
  shows "version_store L (\<lambda>y. lift_op gp sp (put y)) (\<lambda>h. lift_op gp sp (get h)) (stored \<circ> gp) good'"
  by unfold_locales
    (auto simp: lift_op_def gs split: prod.splits
      dest: version_store.put_good [OF vs good] version_store.put_ok [OF vs good]
        version_store.put_raises [OF vs good] version_store.get_ok [OF vs good] intro!: good')

interpretation offline: run_backend "offline_storage env" offline_recorded offline_good id "nv_libs env"
  "in_memory (nv_libs env)" offline_versions for env :: "'w env"
proof (intro run_backend.intro run_backend_axioms.intro)
  have eq: "(offline_recorded :: 'w process \<Rightarrow> _) = map_of \<circ> pr_runs"
    "(offline_versions :: 'w process \<Rightarrow> _) = versions_stored \<circ> pr_versions"
    by (simp_all add: backend_views fun_eq_iff)
  show "run_storage (offline_storage env) offline_recorded offline_good id"
    unfolding eq
  proof (rule run_storage_lift [OF mem_runs.run_storage_axioms, where sp = set_runs])
    show "\<exists>now fresh. sg_save_run (mem_storage now fresh) i (pr_runs p) = (pr_runs p', r)
        \<and> (offline_good p \<longrightarrow> mem_runs_good (pr_runs p') \<longrightarrow> offline_good p')"
      if "sg_save_run (offline_storage env) i p = (p', r)" for i p p' r
      using offline_save [OF that] offline_save_versions [OF that] by (auto simp: backend_views)
  qed (auto simp: backend_views offline_storage_def set_runs_def mem_storage_def)
  show "version_store (nv_libs env) (sv_version_put (in_memory (nv_libs env))) (sv_version_get (in_memory (nv_libs env)))
      offline_versions (offline_good :: 'w process \<Rightarrow> bool)"
    unfolding eq in_memory_def services.select_convs
    by (rule version_store_lift [OF mem_versions.version_store_axioms]) (auto simp: backend_views set_versions_def)
qed (auto simp: backend_views in_memory_def lift_op_def set_versions_def set_events_def split: prod.splits
    dest: offline_save_versions)

lemma keeps_db_events:
  assumes "\<And>t es. v (t\<lparr>tb_events := es\<rparr>) = v t"
  shows "keeps (v \<circ> db_tables) (db_events_save L rid es)"
  unfolding db_events_save_def using assms
  by (intro keeps_session) (simp add: Let_def split: sum.split)

lemma db_events_frame:
  assumes "db_events_save L rid es db = (db', r)" and "db_good db"
  shows "db_good db' \<and> db_recorded db' = db_recorded db \<and> db_definitions db' = db_definitions db"
proof -
  have k: "v (db_tables db') = v (db_tables db)" if "\<And>t es. v (t\<lparr>tb_events := es\<rparr>) = v t" for v :: "tables \<Rightarrow> 'b"
    using keepsD [OF keeps_db_events [of v, OF that] assms(1)] by simp
  show ?thesis
    using assms(2) k [of tb_runs] k [of tb_schedules] k [of tb_webhooks] k [of tb_steps] k [of tb_definitions]
    by (simp add: db_views read_run_def run_steps_def fun_eq_iff)
qed

lemma keeps_db_version_put:
  assumes "\<And>t d. v (t\<lparr>tb_definitions := d\<rparr>) = v t"
  shows "keeps (v \<circ> db_tables) (db_version_put L y)"
proof -
  have "db_version_put L y = (case canonical_yaml_hash L y of Inl e \<Rightarrow> raise_st e
      | Inr h \<Rightarrow> session (\<lambda>t. (if dget (tb_definitions t) h = None
             then t\<lparr>tb_definitions := dset h y (tb_definitions t)\<rparr> else t,
             Inr \<lparr>vr_content_hash = h, vr_yaml_definition = y\<rparr>)))"
    by (simp add: db_version_put_def raise_st_def fun_eq_iff split: sum.split)
  then show ?thesis using assms by (auto intro!: keeps_intros split: sum.split)
qed

lemma db_version_put_frame:
  assumes "db_version_put L y db = (db', r)"
  shows "db_recorded db' = db_recorded db \<and> (db_good db \<longrightarrow> db_good db')"
proof -
  have k: "v (db_tables db') = v (db_tables db)" if "\<And>t es. v (t\<lparr>tb_definitions := es\<rparr>) = v t" for v :: "tables \<Rightarrow> 'b"
    using keepsD [OF keeps_db_version_put [of v, OF that] assms(1)] by simp
  show ?thesis
    using k [of tb_runs] k [of tb_schedules] k [of tb_webhooks] k [of tb_steps]
    by (simp add: db_views read_run_def run_steps_def fun_eq_iff)
qed

lemma db_version_get_frame: "db_version_get h db = (db', r) \<Longrightarrow> db_tables db' = db_tables db"
  by (simp add: db_version_get_def session_read)

lemma db_save_run_definitions: "db_save_run L now fresh i db = (db', r) \<Longrightarrow> db_definitions db' = db_definitions db"
  unfolding db_definitions_def db_save_run_def
  by (drule keepsD [OF keeps_session [of tb_definitions], rotated])
    (simp_all add: save_run_body_def Let_def delete_run_def split: sum.split)

interpretation online: run_backend "database_storage env" database_recorded db_process_good
  "stored_letter (nv_libs env)" "nv_libs env" "database_services (nv_libs env)" database_versions for env :: "'w env"
proof (intro run_backend.intro run_backend_axioms.intro)
  have eq: "(database_recorded :: 'w process \<Rightarrow> _) = db_recorded \<circ> pr_db"
    "(database_versions :: 'w process \<Rightarrow> _) = db_definitions \<circ> pr_db"
    by (simp_all add: backend_views fun_eq_iff)
  show "run_storage (database_storage env) database_recorded db_process_good (stored_letter (nv_libs env))"
    unfolding eq
  proof (rule run_storage_lift [OF db_runs.run_storage_axioms, where sp = set_db])
    show "\<exists>now fresh. sg_save_run (db_storage (nv_libs env) now fresh) i (pr_db p) = (pr_db p', r)
        \<and> (db_process_good p \<longrightarrow> db_good (pr_db p') \<longrightarrow> db_process_good p')"
      if "sg_save_run (database_storage env) i p = (p', r)" for i p p' r
      using database_save [OF that] by (auto simp: backend_views)
  qed (auto simp: backend_views database_storage_def set_db_def db_storage_def)
  have vs: "version_store (nv_libs env) (db_version_put (nv_libs env)) db_version_get db_definitions db_good"
  proof
    show "db_good s'" if "db_good s" "db_version_put (nv_libs env) y s = (s', q)" for s y s' q
      using db_version_put_frame [OF that(2)] that(1) by simp
    show "db_good s' \<and> db_definitions s' = db_definitions s \<and>
        (\<forall>v. r = Inr v \<longrightarrow> v = map_option (\<lambda>y. \<lparr>vr_content_hash = h, vr_yaml_definition = y\<rparr>) (db_definitions s h))"
      if "db_good s" "db_version_get h s = (s', r)" for s h s' r
      using db_versions.get_ok [OF _ that(2)] db_views_cong [OF db_version_get_frame [OF that(2)]] that(1) by simp
  qed (use db_versions.put_ok db_versions.put_raises in blast)+
  show "version_store (nv_libs env) (sv_version_put (database_services (nv_libs env)))
      (sv_version_get (database_services (nv_libs env))) database_versions (db_process_good :: 'w process \<Rightarrow> bool)"
    unfolding eq database_services_def services.select_convs
    by (rule version_store_lift [OF vs]) (auto simp: backend_views set_db_def)
  show "database_versions p' = database_versions p" if "sg_save_run (database_storage env) i p = (p', z)" for i p p' z
    using database_save [OF that] by (auto simp: backend_views db_storage_def dest: db_save_run_definitions)
qed (auto simp: backend_views database_services_def lift_op_def set_db_def split: prod.splits
    dest: db_version_put_frame db_events_frame db_views_cong [OF db_version_get_frame])

section \<open>What a run leaves alone\<close>

text \<open>
  A predicate that the storage, the version store and the event store preserve, and that
  does not depend on the world or the identifiers, is preserved by a run however it ends.
\<close>

lemma preserves_run_workflow:
  assumes world: "\<And>p w. P p \<Longrightarrow> P (p\<lparr>pr_world := w\<rparr>)" and uuid: "\<And>p n. P p \<Longrightarrow> P (p\<lparr>pr_uuids := n\<rparr>)"
    and save: "\<And>i. preserves P (sg_save_run ops i)"
    and services: "\<And>sv y. ra_services a = Some sv \<Longrightarrow> preserves P (sv_version_put sv y)"
    "\<And>sv h. ra_services a = Some sv \<Longrightarrow> preserves P (sv_version_get sv h)"
    "\<And>sv rid es. ra_events a = Some sv \<Longrightarrow> preserves P (sv_events_save sv rid es)"
  shows "preserves P (run_workflow env y ops a)"
proof -
  have draw: "preserves P (draw_uuid env)"
    by (rule preservesI) (auto simp: draw_uuid_def uuid)
  have exec: "preserves P (execute_config env config reg conc tio tr)" for config reg conc tio tr
    by (rule preservesI) (auto simp: execute_config_def world split: prod.splits option.splits)
  have "preserves P (fix_run_id env a)"
    unfolding fix_run_id_def by (intro preserves_intros draw)
  moreover have "preserves P (pinned_definition a y)"
    unfolding pinned_definition_def using services(2)
    by (auto split: option.split intro!: preserves_intros)
  moreover have "preserves P (store_version a yaml)" for yaml
    unfolding store_version_def using services(1)
    by (auto split: option.split intro!: preserves_intros)
  moreover have "preserves P (save_events a rid st result)" for rid st result
    unfolding save_events_def Let_def using services(3)
    by (auto split: option.split intro!: preserves_intros)
  ultimately show ?thesis
    unfolding run_workflow_def by (intro preserves_intros exec save)
qed

section \<open>The active backend\<close>

definition stored_runs :: "'w process \<Rightarrow> string \<Rightarrow> run_record option" where
  "stored_runs p = (if pr_db_available p then database_recorded p else offline_recorded p)"

definition stored_versions :: "'w process \<Rightarrow> string \<Rightarrow> string option" where
  "stored_versions p = (if pr_db_available p then database_versions p else offline_versions p)"

definition consistent :: "'w process \<Rightarrow> bool" where
  "consistent p = (if pr_db_available p then db_process_good p else offline_good p)"

lemma preserves_lift_op [preserves_intros]:
  "(\<And>d p. P p \<Longrightarrow> P (sp d p)) \<Longrightarrow> preserves P (lift_op gp sp f)"
  by (auto simp: preserves_def lift_op_def split: prod.split)

lemma preserves_fresh:
  "(\<And>p n. P p \<Longrightarrow> P (p\<lparr>pr_uuids := n\<rparr>)) \<Longrightarrow> (\<And>u. preserves P (f u)) \<Longrightarrow> preserves P (with_fresh env run_id f)"
  unfolding with_fresh_def
  by (intro preserves_intros) (auto simp: preserves_def draw_uuid_def)

lemma preserves_read: "(\<And>p. preserves P (g p)) \<Longrightarrow> preserves P (\<lambda>p. g p p)"
  by (simp add: preserves_def)

lemma preserves_storage:
  assumes "\<And>p n. P p \<Longrightarrow> P (p\<lparr>pr_uuids := n\<rparr>)" and "\<And>d p. P p \<Longrightarrow> P (set_runs d p)"
    and "\<And>d p. P p \<Longrightarrow> P (set_db d p)"
  shows "preserves P (sg_save_run (get_storage env q) i)"
    and "preserves P (sg_get_run (get_storage env q) rid)"
    and "preserves P (sg_list_runs (get_storage env q) k)"
    and "preserves P (sg_get_dead_letters (get_storage env q) orid)"
proof -
  have mem: "preserves P (\<lambda>p. lift_op pr_runs set_runs (mem_save_run (nv_clock env (pr_world p)) u i) p)" for u
    by (rule preserves_read, rule preserves_lift_op, rule assms(2))
  have db: "preserves P (\<lambda>p. lift_op pr_db set_db (db_save_run (nv_libs env) (nv_clock env (pr_world p)) u i) p)" for u
    by (rule preserves_read, rule preserves_lift_op, rule assms(3))
  show "preserves P (sg_save_run (get_storage env q) i)"
    using preserves_fresh [OF assms(1) mem] preserves_fresh [OF assms(1) db]
    by (simp add: get_storage_def database_storage_def offline_storage_def)
  show "preserves P (sg_get_run (get_storage env q) rid)" "preserves P (sg_list_runs (get_storage env q) k)"
    "preserves P (sg_get_dead_letters (get_storage env q) orid)"
    by (simp_all add: get_storage_def database_storage_def offline_storage_def preserves_lift_op assms(2,3))
qed

lemma available_preserved:
  assumes "ra_services a = Some (get_runtime_services L q)" and "ra_events a \<in> {None, Some (get_runtime_services L q)}"
  shows "preserves (\<lambda>p. pr_db_available p = b) (run_workflow env y (get_storage env q) a)"
proof (rule preserves_run_workflow)
  let ?P = "\<lambda>p :: 'a process. pr_db_available p = b"
  show "preserves ?P (sg_save_run (get_storage env q) i)" for i
    by (rule preserves_storage) (simp_all add: set_part_defs)
  fix sv :: "'a process services"
  show "preserves ?P (sv_version_put sv z)" "preserves ?P (sv_version_get sv h)" if "ra_services a = Some sv" for z h
    using that assms(1)
    by (auto simp: get_runtime_services_def database_services_def in_memory_def set_part_defs intro!: preserves_intros)
  show "preserves ?P (sv_events_save sv rid es)" if "ra_events a = Some sv" for rid es
    using that assms(2)
    by (auto simp: get_runtime_services_def database_services_def in_memory_def set_part_defs intro!: preserves_intros)
qed simp_all

text \<open>Whichever backend is in use, it is a \<open>run_backend\<close>.\<close>

lemma active_backend:
  fixes p :: "'w process"
  assumes "consistent p"
  obtains ops recorded good image_of sv versions
  where "run_backend ops recorded good image_of (nv_libs env) sv versions" and "get_storage env p = ops"
    and "get_runtime_services (nv_libs env) p = sv" and "good p"
    and "\<forall>p'. pr_db_available p' = pr_db_available p \<longrightarrow>
      stored_runs p' = recorded p' \<and> stored_versions p' = versions p' \<and> consistent p' = good p'"
proof (cases "pr_db_available p")
  case True
  show thesis
    by (rule that [OF online.run_backend_axioms [of env]])
      (use assms True in \<open>simp_all add: get_storage_def get_runtime_services_def stored_runs_def
        stored_versions_def consistent_def\<close>)
next
  case False
  show thesis
    by (rule that [OF offline.run_backend_axioms [of env]])
      (use assms False in \<open>simp_all add: get_storage_def get_runtime_services_def stored_runs_def
        stored_versions_def consistent_def\<close>)
qed

lemma run_workflow_active:
  assumes "consistent p"
    and "ra_services a = Some (get_runtime_services (nv_libs env) p)"
    and "ra_events a \<in> {None, Some (get_runtime_services (nv_libs env) p)}"
    and "run_workflow env y (get_storage env p) a p = (p', Inr result)"
  shows "pr_db_available p' = pr_db_available p \<and> (\<exists>yaml config h rid r.
      (case ra_version_hash a of None \<Rightarrow> yaml = y | Some h0 \<Rightarrow> stored_versions p h0 = Some yaml)
    \<and> load_workflow_yaml (nv_libs env) yaml = Inr config \<and> canonical_yaml_hash (nv_libs env) yaml = Inr h
    \<and> consistent p' \<and> stored_runs p' = (stored_runs p)(rid \<mapsto> r)
    \<and> stored_versions p' = (stored_versions p)(h \<mapsto> (case stored_versions p h of None \<Rightarrow> yaml | Some y0 \<Rightarrow> y0))
    \<and> (\<forall>r0. ra_run_id a = Some r0 \<longrightarrow> r0 \<noteq> [] \<longrightarrow> rid = r0)
    \<and> rr_run_id r = rid \<and> rr_workflow_name r = wf_name config \<and> rr_yaml_definition r = yaml
    \<and> rr_version_hash r = Some h \<and> dkeys (rr_step_statuses r) = step_ids (wf_steps config)
    \<and> dget result ''run_id'' = Some (PyStr rid) \<and> dget result ''status'' = Some (PyStr (rr_status r))
    \<and> dget result ''step_statuses'' = Some (py_str_values (rr_step_statuses r))
    \<and> dget result ''version_hash'' = Some (PyStr h))"
proof -
  have av: "pr_db_available p' = pr_db_available p"
    using preservesD [OF available_preserved [OF assms(2,3)] assms(4), of "pr_db_available p"] by simp
  obtain ops recorded good image_of sv versions where b: "run_backend ops recorded good image_of (nv_libs env) sv versions"
    and ops: "get_storage env p = ops" and sv: "get_runtime_services (nv_libs env) p = sv" and g: "good p"
    and views: "\<forall>p'. pr_db_available p' = pr_db_available p \<longrightarrow>
      stored_runs p' = recorded p' \<and> stored_versions p' = versions p' \<and> consistent p' = good p'"
    using active_backend [OF assms(1), of env] .
  have views': "stored_runs p = recorded p" "stored_runs p' = recorded p'" "stored_versions p = versions p"
    "stored_versions p' = versions p'" "consistent p' = good p'"
    using views av by simp_all
  show ?thesis
    unfolding views'
    using av run_backend.run_workflow_records [OF b g refl assms(2,3) [unfolded sv] assms(4) [unfolded ops]]
    by (rule conjI)
qed

lemma unknown_version_active:
  assumes "consistent p"
    and "ra_services a = Some (get_runtime_services (nv_libs env) p)"
    and "ra_events a \<in> {None, Some (get_runtime_services (nv_libs env) p)}"
    and "run_workflow env y (get_storage env p) a p = (p', r)"
    and "ra_version_hash a = Some h" and "stored_versions p h = None"
  shows "pr_db_available p' = pr_db_available p
    \<and> consistent p' \<and> stored_runs p' = stored_runs p \<and> stored_versions p' = stored_versions p \<and> (\<exists>e. r = Inl e)"
proof -
  have av: "pr_db_available p' = pr_db_available p"
    using preservesD [OF available_preserved [OF assms(2,3)] assms(4), of "pr_db_available p"] by simp
  obtain ops recorded good image_of sv versions where b: "run_backend ops recorded good image_of (nv_libs env) sv versions"
    and ops: "get_storage env p = ops" and sv: "get_runtime_services (nv_libs env) p = sv" and g: "good p"
    and views: "\<forall>p'. pr_db_available p' = pr_db_available p \<longrightarrow>
      stored_runs p' = recorded p' \<and> stored_versions p' = versions p' \<and> consistent p' = good p'"
    using active_backend [OF assms(1), of env] .
  have views': "stored_runs p = recorded p" "stored_runs p' = recorded p'" "stored_versions p = versions p"
    "stored_versions p' = versions p'" "consistent p' = good p'"
    using views av by simp_all
  have "versions p h = None" using assms(6) views' by simp
  from run_backend.unknown_version_raises [OF b g assms(2) [unfolded sv] assms(5) this assms(4) [unfolded ops]] av
  show ?thesis unfolding views' by (simp add: run_backend.same_store_def [OF b])
qed

lemma invalid_definition_active:
  assumes "consistent p"
    and "ra_services a = Some (get_runtime_services (nv_libs env) p)"
    and "ra_events a \<in> {None, Some (get_runtime_services (nv_libs env) p)}"
    and "run_workflow env y (get_storage env p) a p = (p', r)"
    and "ra_version_hash a = None" and "load_workflow_yaml (nv_libs env) y = Inl e"
  shows "pr_db_available p' = pr_db_available p \<and> consistent p' \<and> stored_runs p' = stored_runs p \<and> (\<exists>e'. r = Inl e'
    \<and> (stored_versions p' = stored_versions p
      \<or> e' = e \<and> (\<exists>h. canonical_yaml_hash (nv_libs env) y = Inr h \<and> stored_versions p' h \<noteq> None)))"
proof -
  have av: "pr_db_available p' = pr_db_available p"
    using preservesD [OF available_preserved [OF assms(2,3)] assms(4), of "pr_db_available p"] by simp
  obtain ops recorded good image_of sv versions where b: "run_backend ops recorded good image_of (nv_libs env) sv versions"
    and ops: "get_storage env p = ops" and sv: "get_runtime_services (nv_libs env) p = sv" and g: "good p"
    and views: "\<forall>p'. pr_db_available p' = pr_db_available p \<longrightarrow>
      stored_runs p' = recorded p' \<and> stored_versions p' = versions p' \<and> consistent p' = good p'"
    using active_backend [OF assms(1), of env] .
  have views': "stored_runs p = recorded p" "stored_runs p' = recorded p'" "stored_versions p = versions p"
    "stored_versions p' = versions p'" "consistent p' = good p'"
    using views av by simp_all
  show ?thesis
    unfolding views'
    using av run_backend.invalid_definition_stored [OF b g refl assms(2) [unfolded sv] assms(5,6) assms(4) [unfolded ops]]
    by (rule conjI)
qed

section \<open>An example process\<close>

definition ex_env :: "nat env" where
  "ex_env =
     \<lparr>nv_libs = ex_libs,
      nv_registry = [(''parse_text'', task_of (\<lambda>w ctx ps. (Suc w, Inr (PyStr ''parsed'')))),
                     (''classify_with_llm'', task_of (\<lambda>w ctx ps. (Suc w, Inl ''boom'')))],
      nv_uuid = (\<lambda>n. ''uuid-'' @ nat_digits n), nv_clock = int, nv_monotonic = of_nat, nv_redis_clock = int,
      nv_choices = (\<lambda>w n. []), nv_delay = (\<lambda>y r h c w. (w, Inl ''no broker'')), nv_probe = (\<lambda>w. False),
      nv_validation_text = ''validation error'', nv_async = False, nv_beat = False, nv_concurrency_limit = 1,
      nv_locking = True, nv_redis_locking = False, nv_auth = \<lparr>ap_api_keys = [], ap_required = False\<rparr>,
      nv_app_name = ''engine'', nv_db_ping = (\<lambda>w. Some ()), nv_redis_ping = (\<lambda>w. None), nv_task_docs = []\<rparr>"

definition ex_process :: "bool \<Rightarrow> nat process" where
  "ex_process available =
     \<lparr>pr_runs = [], pr_schedules = [], pr_webhooks = [], pr_versions = [], pr_claims = [], pr_events = [],
      pr_db = ex_db [], pr_db_available = available, pr_limiter = None, pr_locks = [],
      pr_redis = \<lparr>rd_data = [], rd_ttls = []\<rparr>, pr_uuids = 0, pr_world = 0\<rparr>"

definition ex_args :: "bool \<Rightarrow> string option \<Rightarrow> nat run_args" where
  "ex_args available h =
     \<lparr>ra_run_id = Some ''r1'', ra_registry = [], ra_concurrency = None, ra_typed_io = None,
      ra_trace = Some (new_trace None None),
      ra_services = Some (get_runtime_services (nv_libs ex_env) (ex_process available)), ra_version_hash = h,
      ra_events = Some (get_runtime_services (nv_libs ex_env) (ex_process available))\<rparr>"

lemma ex_consistent: "consistent (ex_process available)"
  by (simp add: consistent_def ex_process_def backend_views ex_db_good mem_runs_good_def versions_good_def)

lemma ex_run_returns:
  "case run_workflow ex_env ''leads.yaml'' (get_storage ex_env (ex_process False)) (ex_args False None) (ex_process False) of
     (p, Inr result) \<Rightarrow> map_option rr_step_statuses (dget (pr_runs p) ''r1'') = Some [(''a'', ''COMPLETED''), (''b'', ''FAILED'')]
   | (p, Inl e) \<Rightarrow> False"
  by code_simp

lemma ex_run_returns_database:
  "case run_workflow ex_env ''leads.yaml'' (get_storage ex_env (ex_process True)) (ex_args True None) (ex_process True) of
     (p, Inr result) \<Rightarrow> map_option rr_step_statuses (read_run ''r1'' (db_tables (pr_db p))) = Some [(''a'', ''COMPLETED''), (''b'', ''FAILED'')]
   | (p, Inl e) \<Rightarrow> False"
  by code_simp

section \<open>Properties\<close>

lemma get_run_active:
  assumes "consistent p" and "sg_get_run (get_storage env p) rid p = (q, Inr g)"
  shows "g = stored_runs p rid"
proof -
  obtain ops recorded good image_of sv versions where b: "run_backend ops recorded good image_of (nv_libs env) sv versions"
    and ops: "get_storage env p = ops" and g: "good p"
    and views: "\<forall>p'. pr_db_available p' = pr_db_available p \<longrightarrow>
      stored_runs p' = recorded p' \<and> stored_versions p' = versions p' \<and> consistent p' = good p'"
    using active_backend [OF assms(1), of env] .
  show ?thesis
    using run_storage.get_ok [OF run_backend.axioms(1) [OF b] g assms(2) [unfolded ops]] views by simp
qed



text \<open>
  C33: re-running by version hash. If every stored version is content-addressed and a run of
  a definition reported the version hash \<open>h\<close>, a later run pinned to \<open>h\<close> runs the definition
  stored under \<open>h\<close> whatever text it is given: the one that was just run if \<open>h\<close> was new, and in
  any case one with the same canonical hash, which it records and reports.
\<close>

theorem rerun_same_version:
  assumes "consistent p" and "\<And>h y. stored_versions p h = Some y \<Longrightarrow> canonical_yaml_hash (nv_libs env) y = Inr h"
    and "ra_services a = Some (get_runtime_services (nv_libs env) p)"
    and "ra_events a \<in> {None, Some (get_runtime_services (nv_libs env) p)}" and "ra_version_hash a = None"
    and "run_workflow env y (get_storage env p) a p = (p1, Inr result)"
    and "dget result ''version_hash'' = Some (PyStr h)"
    and "ra_services b = Some (get_runtime_services (nv_libs env) p1)"
    and "ra_events b \<in> {None, Some (get_runtime_services (nv_libs env) p1)}" and "ra_version_hash b = Some h"
    and "run_workflow env y' (get_storage env p1) b p1 = (p2, Inr result')"
  shows "dget result' ''version_hash'' = Some (PyStr h)
    \<and> (\<exists>rid r yaml. dget result' ''run_id'' = Some (PyStr rid) \<and> stored_runs p2 rid = Some r
      \<and> rr_version_hash r = Some h \<and> rr_yaml_definition r = yaml \<and> canonical_yaml_hash (nv_libs env) yaml = Inr h
      \<and> yaml = (case stored_versions p h of None \<Rightarrow> y | Some y0 \<Rightarrow> y0))"
proof -
  let ?yaml = "case stored_versions p h of None \<Rightarrow> y | Some y0 \<Rightarrow> y0"
  obtain c1: "consistent p1" and hash: "canonical_yaml_hash (nv_libs env) y = Inr h"
    and v: "stored_versions p1 = (stored_versions p)(h \<mapsto> ?yaml)"
    using run_workflow_active [OF assms(1,3,4,6)] assms(5,7) by auto
  obtain yaml h' rid r where y2: "stored_versions p1 h = Some yaml" and h': "canonical_yaml_hash (nv_libs env) yaml = Inr h'"
    and r: "stored_runs p2 = (stored_runs p1)(rid \<mapsto> r)" "rr_yaml_definition r = yaml" "rr_version_hash r = Some h'"
    and res: "dget result' ''run_id'' = Some (PyStr rid)" "dget result' ''version_hash'' = Some (PyStr h')"
    using run_workflow_active [OF c1 assms(8,9,11)] assms(10) by auto
  have yaml: "yaml = ?yaml" using y2 v by simp
  have "canonical_yaml_hash (nv_libs env) yaml = Inr h"
    using yaml hash assms(2) by (auto split: option.splits)
  with h' r res yaml show ?thesis by simp
qed

lemma ex_rerun:
  "case run_workflow ex_env ''leads.yaml'' (get_storage ex_env (ex_process False)) (ex_args False None) (ex_process False) of
     (p1, Inr result) \<Rightarrow>
       (case dget result ''version_hash'' of
          Some (PyStr h) \<Rightarrow>
            \<not> isl (snd (run_workflow ex_env ''other'' (get_storage ex_env p1)
              ((ex_args False (Some h))\<lparr>ra_services := Some (get_runtime_services (nv_libs ex_env) p1),
                ra_events := Some (get_runtime_services (nv_libs ex_env) p1)\<rparr>) p1))
        | _ \<Rightarrow> False)
   | (p1, Inl e) \<Rightarrow> False"
  by code_simp

theorem rerun_same_version_witness:
  "\<exists>p1 p2 result result' h. run_workflow ex_env ''leads.yaml'' (get_storage ex_env (ex_process False)) (ex_args False None)
      (ex_process False) = (p1, Inr result)
    \<and> run_workflow ex_env ''other'' (get_storage ex_env p1)
      ((ex_args False (Some h))\<lparr>ra_services := Some (get_runtime_services (nv_libs ex_env) p1),
        ra_events := Some (get_runtime_services (nv_libs ex_env) p1)\<rparr>) p1 = (p2, Inr result')
    \<and> dget result' ''version_hash'' = Some (PyStr h)
    \<and> (\<exists>r. stored_runs p2 ''r1'' = Some r \<and> rr_yaml_definition r = ''leads.yaml'')"
proof -
  obtain p1 result where run: "run_workflow ex_env ''leads.yaml'' (get_storage ex_env (ex_process False)) (ex_args False None)
      (ex_process False) = (p1, Inr result)"
    using ex_rerun by (auto split: prod.splits sum.splits)
  let ?b = "\<lambda>h. (ex_args False (Some h))\<lparr>ra_services := Some (get_runtime_services (nv_libs ex_env) p1),
      ra_events := Some (get_runtime_services (nv_libs ex_env) p1)\<rparr>"
  obtain h p2 result' where h: "dget result ''version_hash'' = Some (PyStr h)"
    and again: "run_workflow ex_env ''other'' (get_storage ex_env p1) (?b h) p1 = (p2, Inr result')"
    using ex_rerun run by (auto split: option.splits pyval.splits) (metis prod.collapse sum.collapse(2))
  have new: "stored_versions (ex_process False) x = None" for x
    by (simp add: stored_versions_def ex_process_def backend_views versions_stored_def)
  have args: "ra_services (ex_args False None) = Some (get_runtime_services (nv_libs ex_env) (ex_process False))"
    "ra_events (ex_args False None) \<in> {None, Some (get_runtime_services (nv_libs ex_env) (ex_process False))}"
    "ra_version_hash (ex_args False None) = None"
    by (simp_all add: ex_args_def)
  note same = rerun_same_version [OF ex_consistent _ args run h _ _ _ again, unfolded new, simplified]
  have "consistent p1" using run_workflow_active [OF ex_consistent args(1,2) run] by blast
  from run_workflow_active [OF this _ _ again] have "dget result' ''run_id'' = Some (PyStr ''r1'')"
    by (auto simp: ex_args_def)
  with same run again show ?thesis by (auto simp: ex_args_def)
qed

text \<open>
  A run pinned to a version that is not stored is refused, and no run or version changes.
\<close>

theorem unknown_version_refused:
  assumes "consistent p"
    and "ra_services a = Some (get_runtime_services (nv_libs env) p)"
    and "ra_events a \<in> {None, Some (get_runtime_services (nv_libs env) p)}"
    and "ra_version_hash a = Some h" and "stored_versions p h = None"
    and "run_workflow env y (get_storage env p) a p = (p', r)"
  shows "stored_runs p' = stored_runs p \<and> stored_versions p' = stored_versions p \<and> (\<exists>e. r = Inl e)"
  using unknown_version_active [OF assms(1-3,6,4,5)] by simp

theorem unknown_version_refused_witness:
  "\<exists>e. snd (run_workflow ex_env ''leads.yaml'' (get_storage ex_env (ex_process True)) (ex_args True (Some ''x''))
     (ex_process True)) = Inl e"
proof -
  obtain p' r where run: "run_workflow ex_env ''leads.yaml'' (get_storage ex_env (ex_process True))
      (ex_args True (Some ''x'')) (ex_process True) = (p', r)" by force
  have "stored_versions (ex_process True) ''x'' = None"
    by (simp add: stored_versions_def ex_process_def backend_views db_definitions_def ex_db_def)
  with unknown_version_refused [OF ex_consistent _ _ _ _ run] run show ?thesis
    by (auto simp: ex_args_def)
qed

text \<open>
  A definition that is not a valid workflow is refused, but its version may have been
  stored by then: the caller sees the error of the parser only once the version is stored.
\<close>

theorem invalid_definition_leaves_version:
  assumes "consistent p"
    and "ra_services a = Some (get_runtime_services (nv_libs env) p)"
    and "ra_events a \<in> {None, Some (get_runtime_services (nv_libs env) p)}"
    and "ra_version_hash a = None" and "load_workflow_yaml (nv_libs env) y = Inl e"
    and "run_workflow env y (get_storage env p) a p = (p', r)"
  shows "stored_runs p' = stored_runs p \<and> (\<exists>e'. r = Inl e' \<and> (stored_versions p' = stored_versions p
      \<or> e' = e \<and> (\<exists>h. canonical_yaml_hash (nv_libs env) y = Inr h \<and> stored_versions p' h \<noteq> None)))"
  using invalid_definition_active [OF assms(1-3,6,4,5)] by simp

definition ex_bad_env :: "nat env" where
  "ex_bad_env = ex_env\<lparr>nv_libs := table_libs [(''1'', PyInt 1)]\<rparr>"

definition ex_bad_args :: "nat run_args" where
  "ex_bad_args = (ex_args False None)\<lparr>
     ra_services := Some (get_runtime_services (nv_libs ex_bad_env) (ex_process False)), ra_events := None\<rparr>"

lemma ex_bad_stored:
  "dget (pr_versions (fst (run_workflow ex_bad_env ''1'' (get_storage ex_bad_env (ex_process False)) ex_bad_args
     (ex_process False)))) ''h:1'' \<noteq> None"
  by code_simp

theorem invalid_definition_leaves_version_witness:
  "\<exists>p' e. run_workflow ex_bad_env ''1'' (get_storage ex_bad_env (ex_process False)) ex_bad_args (ex_process False)
      = (p', Inl e)
    \<and> stored_runs p' = stored_runs (ex_process False) \<and> dget (pr_versions p') ''h:1'' \<noteq> None"
proof -
  obtain p' r where run: "run_workflow ex_bad_env ''1'' (get_storage ex_bad_env (ex_process False)) ex_bad_args
      (ex_process False) = (p', r)" by force
  have bad: "\<exists>e. load_workflow_yaml (nv_libs ex_bad_env) ''1'' = Inl e"
    by (simp add: ex_bad_env_def load_workflow_yaml_def table_libs_def)
  then obtain e where e: "load_workflow_yaml (nv_libs ex_bad_env) ''1'' = Inl e" by blast
  have args: "ra_services ex_bad_args = Some (get_runtime_services (nv_libs ex_bad_env) (ex_process False))"
    "ra_events ex_bad_args \<in> {None, Some (get_runtime_services (nv_libs ex_bad_env) (ex_process False))}"
    "ra_version_hash ex_bad_args = None"
    by (simp_all add: ex_bad_args_def ex_args_def)
  show ?thesis
    using invalid_definition_leaves_version [OF ex_consistent args e run] run ex_bad_stored by auto
qed

end
