(* ===== verification/Dag.thy ===== *)
theory Dag
  imports Parser
begin

text \<open>
  \<open>dag.py\<close>: the graph a dashboard draws of a workflow, as a list of nodes and a list of
  edges built in one pass over the steps. For a workflow that loads, the edges are the
  relation whose acyclicity the parser has checked.
\<close>

section \<open>\<open>build_dag\<close>\<close>

record dag =
  dag_nodes :: "(string, pyval) dict list"
  dag_edges :: "(string, string) dict list"

definition make_node :: "(string, string) dict \<Rightarrow> step_config \<Rightarrow> (string, pyval) dict" where
  "make_node statuses s =
     [(''id'', PyStr (st_id s)), (''task'', PyStr (st_task s)),
      (''status'', PyStr (get_default ''PENDING'' statuses (st_id s))),
      (''conditional'', PyBool (st_condition s \<noteq> None)), (''retries'', PyInt (st_retries s))]"

definition make_edge :: "string \<Rightarrow> string \<Rightarrow> string \<Rightarrow> (string, string) dict" where
  "make_edge source target kind = [(''from'', source), (''to'', target), (''type'', kind)]"

definition dag_body :: "(string, string) dict \<Rightarrow> dag \<Rightarrow> step_config \<Rightarrow> dag" where
  "dag_body statuses g s =
     (let g1 = g\<lparr>dag_nodes := dag_nodes g @ [make_node statuses s]\<rparr>;
          g2 = foldl (\<lambda>g d. g\<lparr>dag_edges := dag_edges g @ [make_edge d (st_id s) ''dependency'']\<rparr>)
                 g1 (depends_on s)
      in case st_condition s of
           None \<Rightarrow> g2
         | Some c \<Rightarrow> g2\<lparr>dag_edges := dag_edges g2 @ [make_edge (sc_step c) (st_id s) ''conditional'']\<rparr>)"

definition build_dag :: "workflow_config \<Rightarrow> (string, string) dict option \<Rightarrow> dag" where
  "build_dag config statuses =
     (let statuses = (case statuses of None \<Rightarrow> [] | Some d \<Rightarrow> d)
      in foldl (dag_body statuses) \<lparr>dag_nodes = [], dag_edges = []\<rparr> (wf_steps config))"

section \<open>What the graph holds\<close>

definition edges_of :: "step_config \<Rightarrow> (string, string) dict list" where
  "edges_of s = map (\<lambda>d. make_edge d (st_id s) ''dependency'') (depends_on s)
     @ (case st_condition s of None \<Rightarrow> [] | Some c \<Rightarrow> [make_edge (sc_step c) (st_id s) ''conditional''])"

lemma foldl_edges:
  "foldl (\<lambda>g d. g\<lparr>dag_edges := dag_edges g @ [f d]\<rparr>) g ds = g\<lparr>dag_edges := dag_edges g @ map f ds\<rparr>"
  by (induction ds arbitrary: g) simp_all

lemma dag_body_appends:
  "dag_body statuses g s =
     g\<lparr>dag_nodes := dag_nodes g @ [make_node statuses s], dag_edges := dag_edges g @ edges_of s\<rparr>"
  by (simp add: dag_body_def foldl_edges edges_of_def Let_def split: option.split)

lemma foldl_dag:
  "foldl (dag_body statuses) g steps =
     g\<lparr>dag_nodes := dag_nodes g @ map (make_node statuses) steps,
       dag_edges := dag_edges g @ concat (map edges_of steps)\<rparr>"
  by (induction steps arbitrary: g) (simp_all add: dag_body_appends)

lemma build_dag_parts:
  "dag_nodes (build_dag c statuses) = map (make_node (case statuses of None \<Rightarrow> [] | Some d \<Rightarrow> d)) (wf_steps c)"
  "dag_edges (build_dag c statuses) = concat (map edges_of (wf_steps c))"
  by (simp_all add: build_dag_def foldl_dag)

definition edge_rel :: "(string, string) dict list \<Rightarrow> (string \<times> string) set" where
  "edge_rel edges = {(a, b). \<exists>e \<in> set edges. dget e ''from'' = Some a \<and> dget e ''to'' = Some b}"

lemma edge_rel_of: "edge_rel (edges_of s) = {(d, st_id s) | d. d \<in> set (step_deps s)}"
  by (auto simp: edge_rel_def edges_of_def make_edge_def step_deps_def Let_def split: option.splits if_splits)

lemma edge_rel_concat: "edge_rel (concat ess) = (\<Union>es \<in> set ess. edge_rel es)"
  by (auto simp: edge_rel_def)

lemma edge_rel_build: "edge_rel (dag_edges (build_dag c statuses)) = dep_rel (wf_steps c)"
  unfolding build_dag_parts edge_rel_concat set_map image_image edge_rel_of dep_rel_def by auto

text \<open>
  C34: the graph of a definition that loads has one node per step, in order and with distinct
  ids, each with the status recorded for its step (PENDING if none is), and its edges,
  conditional ones included, join nodes of the graph and form no cycle: they are exactly
  the relation the parser has checked.
\<close>

theorem build_dag_faithful:
  assumes "load_workflow_yaml L y = Inr c"
  shows "map (\<lambda>n. dget n ''id'') (dag_nodes (build_dag c statuses)) = map (Some \<circ> PyStr \<circ> st_id) (wf_steps c)
    \<and> distinct (map (\<lambda>n. dget n ''id'') (dag_nodes (build_dag c statuses)))
    \<and> map (\<lambda>n. dget n ''status'') (dag_nodes (build_dag c statuses))
        = map (\<lambda>s. Some (PyStr (case statuses of None \<Rightarrow> ''PENDING'' | Some d \<Rightarrow> get_default ''PENDING'' d (st_id s)))) (wf_steps c)
    \<and> edge_rel (dag_edges (build_dag c statuses)) = dep_rel (wf_steps c)
    \<and> acyclic (edge_rel (dag_edges (build_dag c statuses)))
    \<and> Field (edge_rel (dag_edges (build_dag c statuses))) \<subseteq> set (step_ids (wf_steps c))"
proof -
  have wf: "wf_workflow c" by (rule load_wf [OF assms])
  have ids: "map (\<lambda>n. dget n ''id'') (dag_nodes (build_dag c statuses)) = map (Some \<circ> PyStr) (step_ids (wf_steps c))"
    by (simp add: build_dag_parts make_node_def step_ids_def)
  have "inj (Some \<circ> PyStr)" by (simp add: inj_def)
  then have d: "distinct (map (\<lambda>n. dget n ''id'') (dag_nodes (build_dag c statuses)))"
    unfolding ids using wf by (subst distinct_map) (auto simp: wf_workflow_def inj_on_def)
  have st: "map (\<lambda>n. dget n ''status'') (dag_nodes (build_dag c statuses))
      = map (\<lambda>s. Some (PyStr (case statuses of None \<Rightarrow> ''PENDING'' | Some d \<Rightarrow> get_default ''PENDING'' d (st_id s)))) (wf_steps c)"
    by (simp add: build_dag_parts make_node_def split: option.split)
  have "Field (dep_rel (wf_steps c)) \<subseteq> set (step_ids (wf_steps c))"
    using wf by (auto simp: Field_def dep_rel_def wf_workflow_def known_deps_def step_ids_def)
  with ids d st wf show ?thesis
    unfolding edge_rel_build by (simp add: wf_workflow_def step_ids_def comp_assoc)
qed

theorem build_dag_faithful_witness:
  "edge_rel (dag_edges (build_dag ex_config (Some [(''a'', ''COMPLETED'')]))) = {(''a'', ''b'')}
   \<and> map (\<lambda>n. dget n ''status'') (dag_nodes (build_dag ex_config (Some [(''a'', ''COMPLETED'')])))
     = [Some (PyStr ''COMPLETED''), Some (PyStr ''PENDING'')]"
proof -
  have "dep_rel (wf_steps ex_config) = (\<Union>s \<in> set (wf_steps ex_config). (\<lambda>d. (d, st_id s)) ` set (step_deps s))"
    by (auto simp: dep_rel_def)
  also have "\<dots> = {(''a'', ''b'')}" by (simp add: ex_config_def step_deps_def depends_on_def)
  finally have "dep_rel (wf_steps ex_config) = {(''a'', ''b'')}" .
  with build_dag_faithful [OF ex_config_loads, of "Some [(''a'', ''COMPLETED'')]"] show ?thesis
    by (simp add: ex_config_def get_default_def)
qed

end
