(* ===== verification/Vendor.thy ===== *)
theory Vendor
  imports PyValue
begin

text \<open>
  Parts of the vendored core the engine's API rests on: the application errors and their
  handler (\<open>errors.py\<close>), the health indicators (\<open>health.py\<close>) and the rewriting of a
  database URL to its asynchronous driver (\<open>database.py\<close>).
\<close>

section \<open>Application errors\<close>

datatype application_error =
    BaseApplicationError string string nat
  | DatabaseError string
  | ConfigurationError string
  | ExternalAPIError string string
  | ValidationError string
  | NotFoundError string
  | ConflictError string
  | UnauthorizedError string
  | ForbiddenError string
  | ExternalServiceError string

fun error_message :: "application_error \<Rightarrow> string" where
  "error_message (BaseApplicationError m c s) = m"
| "error_message (ExternalAPIError m provider) = ''Error communicating with '' @ provider @ '': '' @ m"
| "error_message (DatabaseError m) = m"
| "error_message (ConfigurationError m) = m"
| "error_message (ValidationError m) = m"
| "error_message (NotFoundError m) = m"
| "error_message (ConflictError m) = m"
| "error_message (UnauthorizedError m) = m"
| "error_message (ForbiddenError m) = m"
| "error_message (ExternalServiceError m) = m"

fun error_code :: "application_error \<Rightarrow> string" where
  "error_code (BaseApplicationError m c s) = c"
| "error_code (DatabaseError m) = ''DATABASE_ERROR''"
| "error_code (ConfigurationError m) = ''CONFIGURATION_ERROR''"
| "error_code (ExternalAPIError m provider) = ''EXTERNAL_API_ERROR''"
| "error_code (ValidationError m) = ''VALIDATION_ERROR''"
| "error_code (NotFoundError m) = ''NOT_FOUND''"
| "error_code (ConflictError m) = ''CONFLICT''"
| "error_code (UnauthorizedError m) = ''UNAUTHORIZED''"
| "error_code (ForbiddenError m) = ''FORBIDDEN''"
| "error_code (ExternalServiceError m) = ''EXTERNAL_SERVICE_ERROR''"

fun error_status :: "application_error \<Rightarrow> nat" where
  "error_status (BaseApplicationError m c s) = s"
| "error_status (DatabaseError m) = 500"
| "error_status (ConfigurationError m) = 500"
| "error_status (ExternalAPIError m provider) = 502"
| "error_status (ValidationError m) = 400"
| "error_status (NotFoundError m) = 404"
| "error_status (ConflictError m) = 409"
| "error_status (UnauthorizedError m) = 401"
| "error_status (ForbiddenError m) = 403"
| "error_status (ExternalServiceError m) = 502"

definition application_error_handler :: "application_error \<Rightarrow> nat \<times> (string, pyval) dict" where
  "application_error_handler exc =
     (error_status exc,
      [(''error'', PyStr (error_code exc)), (''message'', PyStr (error_message exc)),
       (''status'', PyInt (int (error_status exc)))])"

section \<open>Health\<close>

text \<open>
  A probe has an outcome: \<open>None\<close> when it raises. A manager that is absent is an outer
  \<open>None\<close>: the synchronous indicator calls \<open>ping\<close> on it, which raises.
\<close>

definition health_body :: "bool \<Rightarrow> bool \<Rightarrow> string \<Rightarrow> (string, pyval) dict" where
  "health_body db_healthy redis_healthy service_name =
     [(''status'', PyStr (if db_healthy \<and> redis_healthy then ''healthy'' else ''degraded'')),
      (''service'', PyStr service_name),
      (''dependencies'', PyDict
         [(PyStr ''database'', PyStr (if db_healthy then ''online'' else ''offline'')),
          (PyStr ''redis'', PyStr (if redis_healthy then ''online'' else ''offline''))])]"

definition check_health :: "unit option \<Rightarrow> bool option option \<Rightarrow> string \<Rightarrow> (string, pyval) dict" where
  "check_health select_1 redis_manager service_name =
     (let db_healthy = select_1 \<noteq> None;
          redis_healthy = (case redis_manager of
            None \<Rightarrow> False
          | Some ping \<Rightarrow> (case ping of None \<Rightarrow> False | Some b \<Rightarrow> b))
      in health_body db_healthy redis_healthy service_name)"

definition async_check_health :: "unit option \<Rightarrow> bool option option \<Rightarrow> string \<Rightarrow> (string, pyval) dict" where
  "async_check_health select_1 redis_manager service_name =
     (let db_healthy = select_1 \<noteq> None;
          redis_healthy = (case redis_manager of
            None \<Rightarrow> True
          | Some ping \<Rightarrow> (case ping of None \<Rightarrow> False | Some b \<Rightarrow> b))
      in health_body db_healthy redis_healthy service_name)"

lemma health_indicators_agree_iff:
  "check_health select_1 redis name = async_check_health select_1 redis name \<longleftrightarrow> redis \<noteq> None"
  by (cases redis) (simp_all add: check_health_def async_check_health_def health_body_def)

section \<open>Asynchronous database URLs\<close>

text \<open>\<open>url.replace(old, new, 1)\<close> where \<open>url\<close> starts with \<open>old\<close>.\<close>

definition to_async_url :: "string \<Rightarrow> string" where
  "to_async_url db_url =
     (if startswith db_url ''postgresql+psycopg://'' then ''postgresql+asyncpg://'' @ drop 21 db_url
      else if startswith db_url ''postgresql://'' then ''postgresql+asyncpg://'' @ drop 13 db_url
      else if startswith db_url ''postgres://'' then ''postgresql+asyncpg://'' @ drop 11 db_url
      else if startswith db_url ''sqlite:///'' then ''sqlite+aiosqlite:///'' @ drop 10 db_url
      else db_url)"

lemma to_async_url_idempotent: "to_async_url (to_async_url url) = to_async_url url"
proof -
  have "to_async_url (''postgresql+asyncpg://'' @ s) = ''postgresql+asyncpg://'' @ s"
    "to_async_url (''sqlite+aiosqlite:///'' @ s) = ''sqlite+aiosqlite:///'' @ s" for s
    by (simp_all add: to_async_url_def)
  then show ?thesis by (subst (2 3) to_async_url_def) (auto simp: to_async_url_def)
qed

end
