(* ===== verification/Api.thy ===== *)
theory Api
  imports Runner Dag Vendor
begin

text \<open>
  \<open>main.py\<close>: the HTTP surface. Every endpoint is a stateful operation on a process that
  returns a response body or raises; \<open>respond\<close> is the exception handling of the
  application. FastAPI's routing and the validation of request bodies are not modelled: a
  call is an endpoint with its parsed arguments. Calls run one after another (locks and
  claims under interleaving are the subject of \<open>Locks\<close> and \<open>Contracts\<close>).
\<close>

section \<open>Requests and errors\<close>

record request =
  rq_api_key :: "string option"
  rq_client :: "string option"
  rq_idempotency_key :: "string option"
  rq_signature :: "string option"
  rq_body :: string

type_synonym 'w operation = "'w process \<Rightarrow> 'w process \<times> (exn + (string, pyval) dict)"

text \<open>\<open>str(exc)\<close>.\<close>

fun exn_str :: "'w env \<Rightarrow> exn \<Rightarrow> string" where
  "exn_str env (ValueError m) = m"
| "exn_str env (WorkflowValidationError m) = m"
| "exn_str env PydanticError = nv_validation_text env"
| "exn_str env (KeyError k) = repr_str k"
| "exn_str env (TypeError m) = m"
| "exn_str env (RuntimeError m) = m"
| "exn_str env (OverflowError m) = m"
| "exn_str env (SQLAlchemyError m) = m"
| "exn_str env (HTTPException status detail code) = str_int (int status) @ '': '' @ detail"

text \<open>\<open>_persistence_errors\<close> and the \<open>except\<close> clauses of the endpoints.\<close>

fun persistence_error :: "exn \<Rightarrow> exn" where
  "persistence_error (SQLAlchemyError m) = HTTPException 503 (''Persistence failed: '' @ m) ''persistence_failed''"
| "persistence_error e = e"

definition persistence_errors :: "('w process \<Rightarrow> 'w process \<times> (exn + 'a)) \<Rightarrow> 'w process \<Rightarrow> 'w process \<times> (exn + 'a)" where
  "persistence_errors handler = catch_st handler persistence_error"

fun is_validation_error :: "exn \<Rightarrow> bool" where
  "is_validation_error (WorkflowValidationError m) = True"
| "is_validation_error e = is_value_error e"

definition validation_error :: "'w env \<Rightarrow> exn \<Rightarrow> exn" where
  "validation_error env e =
     (if is_validation_error e then HTTPException 422 (exn_str env e) ''validation_failed'' else e)"

definition validation_errors :: "'w env \<Rightarrow> ('w process \<Rightarrow> 'w process \<times> (exn + 'a)) \<Rightarrow> 'w process \<Rightarrow> 'w process \<times> (exn + 'a)" where
  "validation_errors env body = catch_st body (validation_error env)"

text \<open>\<open>compatible_http_error\<close>; an exception no handler knows is answered by the framework.\<close>

definition respond :: "exn + (string, pyval) dict \<Rightarrow> nat \<times> pyval" where
  "respond r =
     (case r of
        Inr body \<Rightarrow> (200, py_str_dict body)
      | Inl (HTTPException status detail code) \<Rightarrow>
          (status, py_str_dict
             [(''detail'', PyStr detail),
              (''error'', py_str_dict [(''code'', PyStr code), (''message'', PyStr detail)])])
      | Inl _ \<Rightarrow> (500, PyStr ''Internal Server Error''))"

section \<open>Access, idempotency and locks\<close>

definition active_services :: "'w env \<Rightarrow> 'w process \<Rightarrow> 'w process services" where
  "active_services env p = get_runtime_services (nv_libs env) p"

definition empty_key :: "string option \<Rightarrow> bool" where
  "empty_key key = (key = None \<or> key = Some [])"

definition limit_rate :: "'w env \<Rightarrow> request \<Rightarrow> 'w process \<Rightarrow> 'w process \<times> (exn + unit)" where
  "limit_rate env rq p =
     (case pr_limiter p of
        None \<Rightarrow> (p, Inr ())
      | Some l \<Rightarrow>
          (case allow l (rq_api_key rq) (rq_client rq) (nv_monotonic env (pr_world p)) of
             (l', ok) \<Rightarrow> (p\<lparr>pr_limiter := Some l'\<rparr>,
               if ok then Inr () else Inl (HTTPException 429 ''Rate limit exceeded'' ''rate_limited''))))"

definition check_access :: "'w env \<Rightarrow> request \<Rightarrow> role \<Rightarrow> 'w process \<Rightarrow> 'w process \<times> (exn + unit)" where
  "check_access env rq minimum =
     bind_st (limit_rate env rq) (\<lambda>_.
       if authorize (nv_auth env) (rq_api_key rq) minimum then return_st ()
       else if empty_key (rq_api_key rq)
            then raise_st (HTTPException 401 ''Authentication required'' ''unauthorized'')
            else raise_st (HTTPException 403 ''Insufficient role'' ''forbidden''))"

definition claim_idempotency :: "'w env \<Rightarrow> string \<Rightarrow> string option \<Rightarrow> 'w process \<Rightarrow> 'w process \<times> (exn + unit)" where
  "claim_idempotency env namespace key p =
     (if empty_key key then (p, Inr ())
      else bind_st (sv_claim (active_services env p) namespace key) (\<lambda>granted.
             if granted then return_st ()
             else raise_st (HTTPException 409 ''Duplicate idempotency key'' ''idempotency_conflict'')) p)"

text \<open>\<open>with _lock_provider().acquire(key) as held\<close>: the exit runs however the block ends.\<close>

definition with_memory_lock :: "string \<Rightarrow> (bool \<Rightarrow> 'w process \<Rightarrow> 'w process \<times> (exn + 'a))
    \<Rightarrow> 'w process \<Rightarrow> 'w process \<times> (exn + 'a)" where
  "with_memory_lock key body p =
     (case lock_enter key (pr_locks p) of
        (keys, acquired) \<Rightarrow>
          (case body acquired (p\<lparr>pr_locks := keys\<rparr>) of
             (p', r) \<Rightarrow> (p'\<lparr>pr_locks := lock_exit acquired key (pr_locks p')\<rparr>, r)))"

definition with_redis_lock :: "'w env \<Rightarrow> string \<Rightarrow> (bool \<Rightarrow> 'w process \<Rightarrow> 'w process \<times> (exn + 'a))
    \<Rightarrow> 'w process \<Rightarrow> 'w process \<times> (exn + 'a)" where
  "with_redis_lock env key body =
     bind_st (draw_uuid env) (\<lambda>owner_token p.
       case redis_enter (nv_redis_clock env (pr_world p)) key owner_token 60 (pr_redis p) of
         (rd, acquired) \<Rightarrow>
           (case body acquired (p\<lparr>pr_redis := rd\<rparr>) of
              (p', r) \<Rightarrow>
                (p'\<lparr>pr_redis := redis_exit (nv_redis_clock env (pr_world p')) acquired key owner_token (pr_redis p')\<rparr>, r)))"

definition with_lock :: "'w env \<Rightarrow> string \<Rightarrow> (bool \<Rightarrow> 'w process \<Rightarrow> 'w process \<times> (exn + 'a))
    \<Rightarrow> 'w process \<Rightarrow> 'w process \<times> (exn + 'a)" where
  "with_lock env key body =
     (if nv_redis_locking env then with_redis_lock env key body else with_memory_lock key body)"

section \<open>\<open>_dispatch\<close>\<close>

definition celery_delay :: "'w env \<Rightarrow> string \<Rightarrow> string \<Rightarrow> string \<Rightarrow> 'w process \<Rightarrow> 'w process \<times> (exn + string)" where
  "celery_delay env yaml_definition run_id version_hash p =
     (case nv_delay env yaml_definition run_id version_hash (nv_concurrency_limit env) (pr_world p) of
        (w, r) \<Rightarrow> (p\<lparr>pr_world := w\<rparr>, case r of Inl m \<Rightarrow> Inl (RuntimeError m) | Inr task_id \<Rightarrow> Inr task_id))"

definition dispatch_async :: "'w env \<Rightarrow> 'w process services \<Rightarrow> string \<Rightarrow> string \<Rightarrow> string option \<Rightarrow> 'w operation" where
  "dispatch_async env sv yaml_definition run_id version_hash =
     catch_st
       (bind_st (sv_version_put sv yaml_definition) (\<lambda>version.
        bind_st (celery_delay env yaml_definition run_id
                   (case version_hash of
                      None \<Rightarrow> vr_content_hash version
                    | Some h \<Rightarrow> if h = [] then vr_content_hash version else h)) (\<lambda>task_id.
        return_st [(''dispatched'', PyStr ''async''), (''task_id'', PyStr task_id), (''run_id'', PyStr run_id),
                   (''version_hash'', PyStr (vr_content_hash version))])))
       (\<lambda>e. HTTPException 503 (''Async dispatch failed: '' @ exn_str env e) ''dispatch_failed'')"

definition dispatch_args :: "'w env \<Rightarrow> 'w process services \<Rightarrow> string \<Rightarrow> string \<Rightarrow> string option \<Rightarrow> 'w run_args" where
  "dispatch_args env sv trigger_id run_id version_hash =
     \<lparr>ra_run_id = Some run_id, ra_registry = [], ra_concurrency = Some (nv_concurrency_limit env),
      ra_typed_io = None, ra_trace = Some (new_trace (Some trigger_id) (Some run_id)),
      ra_services = Some sv, ra_version_hash = version_hash, ra_events = Some sv\<rparr>"

definition dispatch_execute :: "'w env \<Rightarrow> string \<Rightarrow> 'w run_args \<Rightarrow> 'w operation" where
  "dispatch_execute env yaml_definition a p = run_workflow env yaml_definition (get_storage env p) a p"

definition locked_execute :: "'w env \<Rightarrow> string \<Rightarrow> 'w run_args \<Rightarrow> bool \<Rightarrow> 'w operation" where
  "locked_execute env yaml_definition a held =
     (if held then dispatch_execute env yaml_definition a
      else raise_st (HTTPException 409 ''Workflow is already running'' ''lock_conflict''))"

definition dispatch_sync :: "'w env \<Rightarrow> 'w process services \<Rightarrow> string \<Rightarrow> string \<Rightarrow> string option \<Rightarrow> 'w operation" where
  "dispatch_sync env sv yaml_definition run_id version_hash =
     bind_st (draw_uuid env) (\<lambda>trigger_id.
     bind_st
       (let a = dispatch_args env sv trigger_id run_id version_hash
        in if nv_locking env
           then bind_st (lift_sum (canonical_yaml_hash (nv_libs env) yaml_definition)) (\<lambda>h.
                  with_lock env (''workflow:'' @ h) (locked_execute env yaml_definition a))
           else dispatch_execute env yaml_definition a)
       (\<lambda>result. return_st (dset ''dispatched'' (PyStr ''sync'') result)))"

definition dispatch :: "'w env \<Rightarrow> string \<Rightarrow> string option \<Rightarrow> bool \<Rightarrow> string option \<Rightarrow> 'w operation" where
  "dispatch env yaml_definition run_id force_async version_hash p =
     (let sv = active_services env p
      in bind_st (if empty_key run_id then draw_uuid env else return_st (the run_id)) (\<lambda>rid.
           if force_async \<or> nv_async env
           then dispatch_async env sv yaml_definition rid version_hash
           else dispatch_sync env sv yaml_definition rid version_hash) p)"

section \<open>Endpoints\<close>

definition not_found :: "string \<Rightarrow> exn" where
  "not_found what = HTTPException 404 (what @ '' not found'') ''not_found''"

definition quoted :: "string \<Rightarrow> string" where
  "quoted s = [CHR 0x27] @ s @ [CHR 0x27]"

definition step_summary :: "step_config \<Rightarrow> pyval" where
  "step_summary s =
     py_str_dict [(''id'', PyStr (st_id s)), (''task'', PyStr (st_task s)),
       (''depends_on'', case st_depends_on s of None \<Rightarrow> PyNone | Some ds \<Rightarrow> PyList (map PyStr ds))]"

definition validate_workflow :: "'w env \<Rightarrow> request \<Rightarrow> string \<Rightarrow> 'w operation" where
  "validate_workflow env rq yaml_definition =
     bind_st (check_access env rq VIEWER) (\<lambda>_.
     validation_errors env
       (bind_st (lift_sum (load_workflow_yaml (nv_libs env) yaml_definition)) (\<lambda>workflow.
          case validate_registry (make_engine env workflow (nv_registry env) None (Some False)) of
            Some e \<Rightarrow> raise_st e
          | None \<Rightarrow> return_st
              [(''valid'', PyBool True), (''workflow'', PyStr (wf_name workflow)),
               (''steps'', PyList (map step_summary (wf_steps workflow)))])))"

definition run_endpoint :: "'w env \<Rightarrow> request \<Rightarrow> string \<Rightarrow> bool \<Rightarrow> 'w operation" where
  "run_endpoint env rq yaml_definition async_dispatch =
     bind_st (check_access env rq OPERATOR) (\<lambda>_.
     persistence_errors (validation_errors env
       (bind_st (claim_idempotency env ''workflow:run'' (rq_idempotency_key rq)) (\<lambda>_.
          dispatch env yaml_definition None async_dispatch None))))"

text \<open>The stored run, or 404.\<close>

definition find_run :: "'w env \<Rightarrow> string \<Rightarrow> 'w process \<Rightarrow> 'w process \<times> (exn + run_record)" where
  "find_run env run_id p =
     bind_st (sg_get_run (get_storage env p) run_id) (\<lambda>record.
       case record of
         None \<Rightarrow> raise_st (not_found (''Run '' @ quoted run_id))
       | Some r \<Rightarrow> return_st r) p"

definition rerun_workflow :: "'w env \<Rightarrow> request \<Rightarrow> string \<Rightarrow> bool \<Rightarrow> 'w operation" where
  "rerun_workflow env rq run_id async_dispatch =
     persistence_errors
       (bind_st (check_access env rq OPERATOR) (\<lambda>_.
        bind_st (find_run env run_id) (\<lambda>record.
          if rr_yaml_definition record = []
          then raise_st (HTTPException 409 ''Original run has no stored definition to rerun'' ''rerun_unavailable'')
          else validation_errors env
                 (dispatch env (rr_yaml_definition record) (Some run_id) async_dispatch (rr_version_hash record)))))"

definition list_workflows :: "'w env \<Rightarrow> request \<Rightarrow> 'w operation" where
  "list_workflows env rq =
     persistence_errors
       (bind_st (check_access env rq VIEWER) (\<lambda>_.
        bind_st (\<lambda>p. sg_list_runs (get_storage env p) 50 p) (\<lambda>runs.
          return_st [(''runs'', PyList (map py_str_dict runs))])))"

definition list_dead_letters :: "'w env \<Rightarrow> request \<Rightarrow> string option \<Rightarrow> 'w operation" where
  "list_dead_letters env rq run_id =
     persistence_errors
       (bind_st (check_access env rq VIEWER) (\<lambda>_.
        bind_st (\<lambda>p. sg_get_dead_letters (get_storage env p) run_id p) (\<lambda>letters.
          return_st [(''dead_letters'', PyList (map py_str_dict letters))])))"

text \<open>A record as both storages return it, up to the order of its keys.\<close>

definition record_dict :: "run_record \<Rightarrow> (string, pyval) dict" where
  "record_dict r =
     [(''run_id'', PyStr (rr_run_id r)), (''workflow_name'', PyStr (rr_workflow_name r)),
      (''yaml_definition'', PyStr (rr_yaml_definition r)), (''status'', PyStr (rr_status r)),
      (''step_statuses'', py_str_values (rr_step_statuses r)), (''results'', py_str_values (rr_results r)),
      (''errors'', py_str_values (rr_errors r)),
      (''dead_letters'', PyList (map py_str_dict (rr_dead_letters r))),
      (''task_names'', py_str_values (rr_task_names r)), (''version_hash'', py_opt_str (rr_version_hash r)),
      (''created_at'', PyStr (rr_created_at r)), (''completed_at'', PyStr (rr_completed_at r))]"

definition get_workflow_run :: "'w env \<Rightarrow> request \<Rightarrow> string \<Rightarrow> 'w operation" where
  "get_workflow_run env rq run_id =
     persistence_errors
       (bind_st (check_access env rq VIEWER) (\<lambda>_.
        bind_st (find_run env run_id) (\<lambda>record.
        bind_st (\<lambda>p. sv_events_list (active_services env p) run_id p) (\<lambda>events.
          return_st (record_dict record @ [(''events'', PyList (map py_str_dict events))])))))"

definition dag_dict :: "dag \<Rightarrow> (string, pyval) dict" where
  "dag_dict g = [(''nodes'', PyList (map py_str_dict (dag_nodes g))), (''edges'', PyList (map py_str_values (dag_edges g)))]"

definition get_workflow_dag :: "'w env \<Rightarrow> request \<Rightarrow> string \<Rightarrow> 'w operation" where
  "get_workflow_dag env rq run_id =
     persistence_errors
       (bind_st (check_access env rq VIEWER) (\<lambda>_.
        bind_st (find_run env run_id) (\<lambda>record.
          if rr_yaml_definition record = []
          then raise_st (HTTPException 409 ''Run has no stored definition'' ''dag_unavailable'')
          else bind_st (lift_sum (load_workflow_yaml (nv_libs env) (rr_yaml_definition record))) (\<lambda>workflow.
                 return_st (dag_dict (build_dag workflow (Some (rr_step_statuses record))))))))"

definition register_webhook :: "'w env \<Rightarrow> request \<Rightarrow> string \<Rightarrow> string \<Rightarrow> string \<Rightarrow> string option \<Rightarrow> 'w operation" where
  "register_webhook env rq name yaml_definition description secret =
     bind_st (check_access env rq OPERATOR) (\<lambda>_.
     bind_st
       (persistence_errors (validation_errors env
          (bind_st (lift_sum (load_workflow_yaml (nv_libs env) yaml_definition)) (\<lambda>_ p.
             webhook_register (sv_webhooks (active_services env p)) name yaml_definition description secret p))))
       (\<lambda>_. return_st [(''registered'', PyStr name)]))"

definition list_webhooks :: "'w env \<Rightarrow> request \<Rightarrow> 'w operation" where
  "list_webhooks env rq =
     persistence_errors
       (bind_st (check_access env rq VIEWER) (\<lambda>_.
        bind_st (\<lambda>p. list_triggers (sv_webhooks (active_services env p)) p) (\<lambda>ts.
          return_st [(''webhooks'', PyList
            (map (\<lambda>(n, d). py_str_dict [(''name'', PyStr n), (''description'', PyStr d)]) ts))])))"

definition trigger_webhook :: "'w env \<Rightarrow> request \<Rightarrow> string \<Rightarrow> 'w operation" where
  "trigger_webhook env rq name =
     persistence_errors
       (bind_st (check_access env rq OPERATOR) (\<lambda>_.
        bind_st (\<lambda>p. webhook_get (sv_webhooks (active_services env p)) name p) (\<lambda>trigger.
          case trigger of
            None \<Rightarrow> raise_st (HTTPException 404 (''Webhook '' @ quoted name @ '' not registered'') ''not_found'')
          | Some t \<Rightarrow>
              bind_st (\<lambda>p. verify_signature (nv_libs env) (sv_webhooks (active_services env p)) name
                             (rq_body rq) (rq_signature rq) p) (\<lambda>ok.
                if \<not> ok
                then raise_st (HTTPException 401 ''Webhook signature is invalid'' ''webhook_signature_invalid'')
                else bind_st (claim_idempotency env (''webhook:'' @ name) (rq_idempotency_key rq)) (\<lambda>_.
                     bind_st (validation_errors env (dispatch env (wh_yaml_definition t) None False None)) (\<lambda>result.
                       return_st (dict_of ((''triggered'', PyStr name) # result))))))))"

definition create_schedule :: "'w env \<Rightarrow> request \<Rightarrow> string \<Rightarrow> string \<Rightarrow> string \<Rightarrow> 'w operation" where
  "create_schedule env rq name cron yaml_definition =
     bind_st (check_access env rq OPERATOR) (\<lambda>_.
       if \<not> is_valid_cron (nv_libs env) cron
       then raise_st (HTTPException 422 (''Invalid cron expression: '' @ cron) ''validation_failed'')
       else bind_st
         (persistence_errors (validation_errors env
            (bind_st (lift_sum (load_workflow_yaml (nv_libs env) yaml_definition)) (\<lambda>_ p.
               register (nv_libs env) (sv_schedules (active_services env p)) name cron yaml_definition
                 (nv_clock env (pr_world p)) p))))
         (\<lambda>schedule. return_st
            [(''name'', PyStr (sw_name schedule)), (''cron'', PyStr (sw_cron schedule)),
             (''next_run'', py_opt_str (map_option isoformat (sw_next_run schedule)))]))"

definition list_schedules_endpoint :: "'w env \<Rightarrow> request \<Rightarrow> 'w operation" where
  "list_schedules_endpoint env rq =
     persistence_errors
       (bind_st (check_access env rq VIEWER) (\<lambda>_.
        bind_st (\<lambda>p. list_schedules (sv_schedules (active_services env p)) p) (\<lambda>rows.
          return_st [(''schedules'', PyList (map py_str_dict rows))])))"

definition delete_schedule :: "'w env \<Rightarrow> request \<Rightarrow> string \<Rightarrow> 'w operation" where
  "delete_schedule env rq name =
     persistence_errors
       (bind_st (check_access env rq ADMIN) (\<lambda>_.
        bind_st (\<lambda>p. unregister (sv_schedules (active_services env p)) name p) (\<lambda>deleted.
          if deleted then return_st [(''deleted'', PyStr name)]
          else raise_st (not_found (''Schedule '' @ quoted name)))))"

definition tick :: "'w env \<Rightarrow> 'w process \<Rightarrow> 'w process \<times> (exn + (string, pyval) dict list)" where
  "tick env p =
     dispatch_due (nv_libs env) (sv_schedules (active_services env p)) (Some (sv_claim (active_services env p)))
       (\<lambda>p. nv_clock env (pr_world p)) (\<lambda>y. dispatch env y None False None) None p"

definition run_due_schedules :: "'w env \<Rightarrow> request \<Rightarrow> 'w operation" where
  "run_due_schedules env rq =
     persistence_errors
       (bind_st (check_access env rq OPERATOR) (\<lambda>_.
        bind_st (tick env) (\<lambda>rows.
          return_st [(''dispatched'', PyList (map py_str_dict rows))])))"

definition first_line :: "string option \<Rightarrow> string" where
  "first_line doc = hd (split_char (char_of (10 :: nat)) (strip (case doc of None \<Rightarrow> [] | Some d \<Rightarrow> d)))"

definition list_tasks :: "'w env \<Rightarrow> request \<Rightarrow> 'w operation" where
  "list_tasks env rq =
     bind_st (check_access env rq VIEWER) (\<lambda>_.
       return_st [(''tasks'', PyList
         (map (\<lambda>n. py_str_dict [(''name'', PyStr n),
                 (''description'', PyStr (first_line (get_default None (nv_task_docs env) n)))])
            (sort (dkeys (nv_registry env)))))])"

definition health_check :: "'w env \<Rightarrow> request \<Rightarrow> 'w operation" where
  "health_check env rq =
     bind_st (check_access env rq VIEWER) (\<lambda>_ p.
       (p, Inr (dset ''storage'' (PyStr (if pr_db_available p then ''database'' else ''in-memory''))
                  (check_health (nv_db_ping env (pr_world p)) (nv_redis_ping env (pr_world p)) (nv_app_name env)))))"

section \<open>The application\<close>

datatype api_call =
    ValidateWorkflow string
  | RunWorkflow string bool
  | RerunWorkflow string bool
  | ListWorkflows
  | ListDeadLetters "string option"
  | GetWorkflowRun string
  | GetWorkflowDag string
  | RegisterWebhook string string string "string option"
  | ListWebhooks
  | TriggerWebhook string
  | CreateSchedule string string string
  | ListSchedules
  | DeleteSchedule string
  | RunDueSchedules
  | ListTasks
  | HealthCheck

fun minimum_role :: "api_call \<Rightarrow> role" where
  "minimum_role (ValidateWorkflow y) = VIEWER"
| "minimum_role (RunWorkflow y a) = OPERATOR"
| "minimum_role (RerunWorkflow r a) = OPERATOR"
| "minimum_role ListWorkflows = VIEWER"
| "minimum_role (ListDeadLetters r) = VIEWER"
| "minimum_role (GetWorkflowRun r) = VIEWER"
| "minimum_role (GetWorkflowDag r) = VIEWER"
| "minimum_role (RegisterWebhook n y d s) = OPERATOR"
| "minimum_role ListWebhooks = VIEWER"
| "minimum_role (TriggerWebhook n) = OPERATOR"
| "minimum_role (CreateSchedule n c y) = OPERATOR"
| "minimum_role ListSchedules = VIEWER"
| "minimum_role (DeleteSchedule n) = ADMIN"
| "minimum_role RunDueSchedules = OPERATOR"
| "minimum_role ListTasks = VIEWER"
| "minimum_role HealthCheck = VIEWER"

fun call :: "'w env \<Rightarrow> request \<Rightarrow> api_call \<Rightarrow> 'w operation" where
  "call env rq (ValidateWorkflow y) = validate_workflow env rq y"
| "call env rq (RunWorkflow y a) = run_endpoint env rq y a"
| "call env rq (RerunWorkflow r a) = rerun_workflow env rq r a"
| "call env rq ListWorkflows = list_workflows env rq"
| "call env rq (ListDeadLetters r) = list_dead_letters env rq r"
| "call env rq (GetWorkflowRun r) = get_workflow_run env rq r"
| "call env rq (GetWorkflowDag r) = get_workflow_dag env rq r"
| "call env rq (RegisterWebhook n y d s) = register_webhook env rq n y d s"
| "call env rq ListWebhooks = list_webhooks env rq"
| "call env rq (TriggerWebhook n) = trigger_webhook env rq n"
| "call env rq (CreateSchedule n c y) = create_schedule env rq n c y"
| "call env rq ListSchedules = list_schedules_endpoint env rq"
| "call env rq (DeleteSchedule n) = delete_schedule env rq n"
| "call env rq RunDueSchedules = run_due_schedules env rq"
| "call env rq ListTasks = list_tasks env rq"
| "call env rq HealthCheck = health_check env rq"

text \<open>A history of requests, each answered before the next.\<close>

fun serve :: "'w env \<Rightarrow> (request \<times> api_call) list \<Rightarrow> 'w process \<Rightarrow> 'w process \<times> (nat \<times> pyval) list" where
  "serve env [] p = (p, [])"
| "serve env ((rq, c) # rest) p =
     (case call env rq c p of
        (p', r) \<Rightarrow> (case serve env rest p' of (p'', rs) \<Rightarrow> (p'', respond r # rs)))"

end
