(* ===== verification/Invariants.thy ===== *)
theory Invariants
  imports Api
begin

text \<open>
  What every request preserves. The locales state, operation by operation, what a predicate
  on the process must survive; their lemmas then cover \<open>_dispatch\<close>, every endpoint and
  every history of requests, whether it returns or raises. They are interpreted for the
  locks, the claims and the registered definitions on both backends.
\<close>

section \<open>Predicates that a run preserves\<close>

locale process_invariant =
  fixes env :: "'w env" and P :: "'w process \<Rightarrow> bool"
  assumes world: "P p \<Longrightarrow> P (p\<lparr>pr_world := w\<rparr>)"
    and uuids: "P p \<Longrightarrow> P (p\<lparr>pr_uuids := n\<rparr>)"
    and save: "preserves P (sg_save_run (get_storage env q) i)"
    and version_put: "preserves P (sv_version_put (get_runtime_services (nv_libs env) q) y)"
    and version_get: "preserves P (sv_version_get (get_runtime_services (nv_libs env) q) h)"
    and events_save: "preserves P (sv_events_save (get_runtime_services (nv_libs env) q) rid es)"
begin

lemma draw: "preserves P (draw_uuid env)"
  by (rule preservesI) (auto simp: draw_uuid_def uuids)

lemma execute: "preserves P (dispatch_execute env y (dispatch_args env (get_runtime_services (nv_libs env) q) t r h))"
proof -
  have "preserves P (run_workflow env y (get_storage env p)
      (dispatch_args env (get_runtime_services (nv_libs env) q) t r h))" for p
    by (rule preserves_run_workflow [OF world uuids save])
      (auto simp: dispatch_args_def intro: version_put version_get events_save)
  then show ?thesis unfolding dispatch_execute_def by (rule preserves_read)
qed

lemma locked_execute:
  "preserves P (locked_execute env y (dispatch_args env (get_runtime_services (nv_libs env) q) t r h) held)"
  unfolding locked_execute_def by (intro preserves_intros execute)

end

locale dispatch_invariant = process_invariant env P for env :: "'w env" and P :: "'w process \<Rightarrow> bool" +
  assumes locked: "preserves P (with_lock env key
      (locked_execute env y (dispatch_args env (get_runtime_services (nv_libs env) q) t r h)))"
begin

lemma dispatch_preserves: "preserves P (dispatch env y rid force_async h)"
proof -
  have delay: "preserves P (celery_delay env y r v)" for r v
    by (rule preservesI) (auto simp: celery_delay_def world split: prod.splits)
  have async: "preserves P (dispatch_async env (get_runtime_services (nv_libs env) q) y r h)" for q r
    unfolding dispatch_async_def by (intro preserves_intros version_put delay)
  have sync: "preserves P (dispatch_sync env (get_runtime_services (nv_libs env) q) y r h)" for q r
    unfolding dispatch_sync_def Let_def by (intro preserves_intros draw locked execute)
  show ?thesis
    unfolding dispatch_def Let_def active_services_def
    by (rule preserves_read) (intro preserves_intros draw async sync)
qed

end

text \<open>A block under a lock, for a predicate that does not depend on the locks.\<close>

lemma preserves_with_lock:
  assumes "\<And>p ks. P p \<Longrightarrow> P (p\<lparr>pr_locks := ks\<rparr>)" and "\<And>p rd. P p \<Longrightarrow> P (p\<lparr>pr_redis := rd\<rparr>)"
    and "\<And>p n. P p \<Longrightarrow> P (p\<lparr>pr_uuids := n\<rparr>)" and "\<And>held. preserves P (body held)"
  shows "preserves P (with_lock env key body)"
proof -
  have "preserves P (with_memory_lock key body)"
  proof (rule preservesI)
    fix p p' r assume p: "P p" and w: "with_memory_lock key body p = (p', r)"
    obtain ks a where e: "lock_enter key (pr_locks p) = (ks, a)" by force
    obtain p1 r1 where b: "body a (p\<lparr>pr_locks := ks\<rparr>) = (p1, r1)" by force
    have "P p1" by (rule preservesD [OF assms(4) b assms(1) [OF p]])
    with w e b assms(1) show "P p'" by (auto simp: with_memory_lock_def)
  qed
  moreover have "preserves P (with_redis_lock env key body)"
    unfolding with_redis_lock_def
  proof (rule preserves_bind)
    show "preserves P (draw_uuid env)" by (rule preservesI) (auto simp: draw_uuid_def assms(3))
    fix token
    show "preserves P (\<lambda>p. case redis_enter (nv_redis_clock env (pr_world p)) key token 60 (pr_redis p) of
        (rd, acquired) \<Rightarrow> case body acquired (p\<lparr>pr_redis := rd\<rparr>) of
          (p', r) \<Rightarrow> (p'\<lparr>pr_redis := redis_exit (nv_redis_clock env (pr_world p')) acquired key token (pr_redis p')\<rparr>, r))"
    proof (rule preservesI, goal_cases)
      case (1 p p' r)
      obtain rd a where e: "redis_enter (nv_redis_clock env (pr_world p)) key token 60 (pr_redis p) = (rd, a)" by force
      obtain p1 r1 where b: "body a (p\<lparr>pr_redis := rd\<rparr>) = (p1, r1)" by force
      have "P p1" by (rule preservesD [OF assms(4) b assms(2) [OF 1(1)]])
      with 1(2) e b assms(2) show ?case by auto
    qed
  qed
  ultimately show ?thesis by (simp add: with_lock_def)
qed

section \<open>Predicates that every request preserves\<close>

lemma preserves_webhook_register:
  "preserves P (so_put ops \<lparr>wh_name = n, wh_yaml_definition = y, wh_description = d, wh_secret = k\<rparr>) \<Longrightarrow>
     preserves P (webhook_register ops n y d k)"
  by (auto simp: preserves_def webhook_register_def Let_def split: prod.split sum.split)

lemma preserves_list_triggers: "preserves P (so_list ops) \<Longrightarrow> preserves P (list_triggers ops)"
  by (auto simp: preserves_def list_triggers_def split: prod.split sum.split)

lemma preserves_verify_signature:
  "preserves P (so_get ops n) \<Longrightarrow> preserves P (verify_signature L ops n body sig)"
  by (auto simp: preserves_def verify_signature_def webhook_get_def split: prod.split sum.split)

lemma preserves_register:
  assumes "\<And>s. sw_yaml_definition s = y \<Longrightarrow> sw_cron s = cron \<Longrightarrow> is_valid_cron L cron \<Longrightarrow> preserves P (so_put ops s)"
  shows "preserves P (register L ops n cron y now)"
proof (rule preservesI)
  fix p p' r assume p: "P p" and g: "register L ops n cron y now p = (p', r)"
  show "P p'"
  proof (cases "is_valid_cron L cron")
    case True
    let ?s = "\<lparr>sw_name = n, sw_cron = cron, sw_yaml_definition = y, sw_last_run = None,
      sw_next_run = (if has_croniter L then Some (cron_next L cron now) else None), sw_enabled = True\<rparr>"
    have "preserves P (so_put ops ?s)" by (rule assms [OF _ _ True]) simp_all
    with p g True show ?thesis
      by (auto simp: register_def Let_def dest: preservesD split: prod.splits sum.splits)
  qed (use p g in \<open>simp add: register_def\<close>)
qed

lemma preserves_list_schedules: "preserves P (so_list ops) \<Longrightarrow> preserves P (list_schedules ops)"
  by (auto simp: preserves_def list_schedules_def split: prod.split sum.split)

lemma preserves_loaded:
  "(\<And>c. load_workflow_yaml L y = Inr c \<Longrightarrow> preserves P (f c)) \<Longrightarrow>
     preserves P (bind_st (lift_sum (load_workflow_yaml L y)) f)"
  by (auto simp: preserves_def bind_st_def lift_sum_def split: sum.split)

locale api_invariant = dispatch_invariant env P for env :: "'w env" and P :: "'w process \<Rightarrow> bool" +
  assumes limiter: "P p \<Longrightarrow> P (p\<lparr>pr_limiter := l\<rparr>)"
    and claim: "preserves P (sv_claim (get_runtime_services (nv_libs env) q) ns k)"
    and get_run: "preserves P (sg_get_run (get_storage env q) rid)"
    and list_runs: "preserves P (sg_list_runs (get_storage env q) m)"
    and dead_letters: "preserves P (sg_get_dead_letters (get_storage env q) orid)"
    and events_list: "preserves P (sv_events_list (get_runtime_services (nv_libs env) q) rid)"
    and webhook_put: "load_workflow_yaml (nv_libs env) (wh_yaml_definition v) = Inr c \<Longrightarrow>
      preserves P (so_put (sv_webhooks (get_runtime_services (nv_libs env) q)) v)"
    and webhook_get: "preserves P (so_get (sv_webhooks (get_runtime_services (nv_libs env) q)) n)"
    and webhook_list: "preserves P (so_list (sv_webhooks (get_runtime_services (nv_libs env) q)))"
    and schedule_put: "load_workflow_yaml (nv_libs env) (sw_yaml_definition s) = Inr c \<Longrightarrow>
      is_valid_cron (nv_libs env) (sw_cron s) \<Longrightarrow>
      preserves P (so_put (sv_schedules (get_runtime_services (nv_libs env) q)) s)"
    and schedule_list: "preserves P (so_list (sv_schedules (get_runtime_services (nv_libs env) q)))"
    and schedule_delete: "preserves P (so_delete (sv_schedules (get_runtime_services (nv_libs env) q)) n)"
    and schedule_ran: "preserves P (mark_ran (nv_libs env) (sv_schedules (get_runtime_services (nv_libs env) q)) n now)"
begin

lemma access: "preserves P (check_access env rq minimum)"
proof -
  have "preserves P (limit_rate env rq)"
    by (rule preservesI) (auto simp: limit_rate_def limiter split: option.splits prod.splits)
  then show ?thesis unfolding check_access_def by (intro preserves_intros)
qed

lemma claim_key: "preserves P (claim_idempotency env ns k)"
proof -
  have "preserves P (\<lambda>p. bind_st (sv_claim (get_runtime_services (nv_libs env) p) ns k) (\<lambda>granted.
      if granted then return_st () else raise_st (HTTPException 409 ''Duplicate idempotency key'' ''idempotency_conflict'')) p)"
    by (rule preserves_read) (intro preserves_intros claim)
  then show ?thesis by (simp add: preserves_def claim_idempotency_def active_services_def)
qed

lemma found: "preserves P (find_run env rid)"
proof -
  have "preserves P (bind_st (sg_get_run (get_storage env q) rid) (\<lambda>record.
       case record of None \<Rightarrow> raise_st (not_found (''Run '' @ quoted rid)) | Some r \<Rightarrow> return_st r))" for q
    by (intro preserves_intros get_run)
  then show ?thesis unfolding find_run_def by (rule preserves_read)
qed

lemma each: "preserves P (dispatch_each (nv_libs env) (sv_schedules (get_runtime_services (nv_libs env) q))
    (Some (sv_claim (get_runtime_services (nv_libs env) q))) clock (\<lambda>y. dispatch env y None False None) now scheds)"
proof (rule preservesI)
  fix p p' r
  assume "P p" and "dispatch_each (nv_libs env) (sv_schedules (get_runtime_services (nv_libs env) q))
    (Some (sv_claim (get_runtime_services (nv_libs env) q))) clock (\<lambda>y. dispatch env y None False None) now scheds p = (p', r)"
  then show "P p'"
  proof (induction scheds arbitrary: p r)
    case Nil
    then show ?case by simp
  next
    case (Cons x xs)
    let ?sv = "get_runtime_services (nv_libs env) q"
    obtain p1 b where c: "sv_claim ?sv (''schedule:'' @ sw_name x) (Some (fire_time x)) p = (p1, b)" by force
    obtain p2 d where d: "dispatch env (sw_yaml_definition x) None False None p1 = (p2, d)" by force
    obtain p3 u where u: "mark_ran (nv_libs env) (sv_schedules ?sv) (sw_name x) (at_time clock now p2) p2 = (p3, u)" by force
    have p1: "P p1" by (rule preservesD [OF claim c Cons.prems(1)])
    have p2: "P p2" by (rule preservesD [OF dispatch_preserves d p1])
    have p3: "P p3" by (rule preservesD [OF schedule_ran u p2])
    show ?case
      using Cons.IH [OF p1] Cons.IH [OF p3] Cons.prems(2) c d u p1 p2 p3
      by (auto simp: claim_fire_def split: sum.splits bool.splits prod.splits)
  qed
qed

lemma tick_preserves: "preserves P (tick env)"
proof -
  have "preserves P (dispatch_due (nv_libs env) (sv_schedules (get_runtime_services (nv_libs env) q))
      (Some (sv_claim (get_runtime_services (nv_libs env) q))) clock (\<lambda>y. dispatch env y None False None) None)" for q clock
  proof (rule preservesI)
    let ?sv = "get_runtime_services (nv_libs env) q"
    fix p p' r
    assume p: "P p" and d: "dispatch_due (nv_libs env) (sv_schedules ?sv) (Some (sv_claim ?sv)) clock
      (\<lambda>y. dispatch env y None False None) None p = (p', r)"
    obtain p1 l where l: "so_list (sv_schedules ?sv) p = (p1, l)" by force
    have "P p1" by (rule preservesD [OF schedule_list l p])
    with d l show "P p'"
      using preservesD [OF each, of q clock None _ p1 p' r]
      by (auto simp: dispatch_due_def due_def split: sum.splits)
  qed
  then show ?thesis unfolding tick_def active_services_def by (rule preserves_read)
qed

lemma call_preserves: "preserves P (call env rq c)"
proof -
  note ops = preserves_intros access claim_key found dispatch_preserves tick_preserves
  note dispatched = dispatch_preserves
  have webhook: "preserves P (bind_st (lift_sum (load_workflow_yaml (nv_libs env) y)) (\<lambda>_ p.
      webhook_register (sv_webhooks (get_runtime_services (nv_libs env) p)) n y d k p))" for n y d k
    by (rule preserves_loaded, rule preserves_read, rule preserves_webhook_register, rule webhook_put) simp_all
  have schedule: "preserves P (bind_st (lift_sum (load_workflow_yaml (nv_libs env) y)) (\<lambda>_ p.
      register (nv_libs env) (sv_schedules (get_runtime_services (nv_libs env) p)) n cron y (nv_clock env (pr_world p)) p))"
    for n cron y
  proof (rule preserves_loaded)
    fix c assume "load_workflow_yaml (nv_libs env) y = Inr c"
    then have "preserves P (register (nv_libs env) (sv_schedules (get_runtime_services (nv_libs env) q)) n cron y now)" for q now
      by (intro preserves_register schedule_put) simp_all
    then show "preserves P (\<lambda>p. register (nv_libs env) (sv_schedules (get_runtime_services (nv_libs env) p)) n cron y
        (nv_clock env (pr_world p)) p)"
      by (rule preserves_read)
  qed
  have reads: "preserves P (\<lambda>p. sg_list_runs (get_storage env p) m p)"
    "preserves P (\<lambda>p. sg_get_dead_letters (get_storage env p) orid p)"
    "preserves P (\<lambda>p. sv_events_list (get_runtime_services (nv_libs env) p) rid p)"
    "preserves P (\<lambda>p. list_triggers (sv_webhooks (get_runtime_services (nv_libs env) p)) p)"
    "preserves P (\<lambda>p. webhook_get (sv_webhooks (get_runtime_services (nv_libs env) p)) n p)"
    "preserves P (\<lambda>p. verify_signature (nv_libs env) (sv_webhooks (get_runtime_services (nv_libs env) p)) n body sig p)"
    "preserves P (\<lambda>p. list_schedules (sv_schedules (get_runtime_services (nv_libs env) p)) p)"
    "preserves P (\<lambda>p. unregister (sv_schedules (get_runtime_services (nv_libs env) p)) n p)"
    for m orid rid n body sig
    unfolding webhook_get_def unregister_def
    by (rule preserves_read, intro list_runs dead_letters events_list preserves_list_triggers webhook_list
        webhook_get preserves_verify_signature preserves_list_schedules schedule_list schedule_delete)+
  have health: "preserves P (\<lambda>p. (p, f p))" for f :: "'w process \<Rightarrow> exn + (string, pyval) dict"
    by (simp add: preserves_def)
  show ?thesis
    by (cases c)
      (simp_all only: call.simps validate_workflow_def run_endpoint_def rerun_workflow_def list_workflows_def
        list_dead_letters_def get_workflow_run_def get_workflow_dag_def register_webhook_def list_webhooks_def
        trigger_webhook_def create_schedule_def list_schedules_endpoint_def delete_schedule_def
        run_due_schedules_def list_tasks_def health_check_def persistence_errors_def validation_errors_def
        active_services_def, (intro ops reads webhook schedule health)+)
qed

lemma serve_preserves: "serve env calls p = (p', answers) \<Longrightarrow> P p \<Longrightarrow> P p'"
proof (induction calls arbitrary: p answers)
  case Nil
  then show ?case by simp
next
  case (Cons x calls)
  obtain rq c where x: "x = (rq, c)" by force
  obtain p1 r where c: "call env rq c p = (p1, r)" by force
  obtain rs where "serve env calls p1 = (p', rs)"
    using Cons.prems(1) x c by (auto split: prod.splits)
  with Cons.IH preservesD [OF call_preserves c Cons.prems(2)] show ?case by blast
qed

end

section \<open>Operations on one part of the process\<close>

lemma preserves_session:
  assumes "\<And>t. R t \<Longrightarrow> R (fst (body t))"
  shows "preserves (\<lambda>db. R (db_tables db)) (session body)"
proof (rule preservesI)
  fix db db' r assume R: "R (db_tables db)" and s: "session body db = (db', r)"
  show "R (db_tables db')"
  proof (cases r)
    case (Inl e)
    with session_Inl [of body db db' e] s R show ?thesis by simp
  next
    case (Inr x)
    with session_commit [of body db db' x] s R assms show ?thesis by simp
  qed
qed

text \<open>The tables a request only changes through the registries and the claims.\<close>

definition registry_tables :: "tables \<Rightarrow> (string, schedule_record) dict \<times> (string, webhook_registration) dict \<times> (string \<times> string) list" where
  "registry_tables t = (tb_schedules t, tb_webhooks t, tb_claims t)"

lemma registry_tables_bodies:
  assumes "\<And>t t'. R t \<Longrightarrow> registry_tables t' = registry_tables t \<Longrightarrow> R t'"
  shows "preserves (\<lambda>db. R (db_tables db)) (db_save_run L now fresh i)"
    "preserves (\<lambda>db. R (db_tables db)) (db_version_put L y)"
    "preserves (\<lambda>db. R (db_tables db)) (db_version_get h)"
    "preserves (\<lambda>db. R (db_tables db)) (db_events_save L rid es)"
    "preserves (\<lambda>db. R (db_tables db)) (db_get_run rid)"
    "preserves (\<lambda>db. R (db_tables db)) (db_list_runs m)"
    "preserves (\<lambda>db. R (db_tables db)) (db_get_dead_letters orid)"
    "preserves (\<lambda>db. R (db_tables db)) (db_events_list rid)"
proof -
  show "preserves (\<lambda>db. R (db_tables db)) (db_version_put L y)"
  proof (cases "canonical_yaml_hash L y")
    case (Inl e)
    then show ?thesis by (simp add: preserves_def db_version_put_def)
  next
    case (Inr h)
    then have "db_version_put L y = session (\<lambda>t. (if dget (tb_definitions t) h = None
        then t\<lparr>tb_definitions := dset h y (tb_definitions t)\<rparr> else t,
        Inr \<lparr>vr_content_hash = h, vr_yaml_definition = y\<rparr>))"
      by (simp add: db_version_put_def fun_eq_iff)
    then show ?thesis
      by (simp only:) (rule preserves_session, erule assms, simp add: registry_tables_def)
  qed
qed (unfold db_save_run_def db_version_get_def db_events_save_def db_get_run_def db_list_runs_def
      db_get_dead_letters_def db_events_list_def,
    (rule preserves_session, erule assms,
      simp add: registry_tables_def save_run_body_def delete_run_def Let_def split: sum.split)+)

lemma ran_fields [simp]:
  "sw_name (ran L now x) = sw_name x" "sw_cron (ran L now x) = sw_cron x" "sw_enabled (ran L now x) = sw_enabled x"
  "sw_yaml_definition (ran L now x) = sw_yaml_definition x" "sw_last_run (ran L now x) = Some now"
  by (simp_all add: ran_def Let_def)

text \<open>
  A predicate on the in-memory registries and claims and on the tables that hold those of
  the database survives whatever else a request does.
\<close>

locale registry_predicate =
  fixes M :: "(string, scheduled_workflow) dict \<Rightarrow> (string, webhook_trigger) dict \<Rightarrow> claims \<Rightarrow> bool"
    and R :: "tables \<Rightarrow> bool" and env :: "'w env"
  assumes tables: "R t \<Longrightarrow> registry_tables t' = registry_tables t \<Longrightarrow> R t'"
    and mem_claim: "M s w c \<Longrightarrow> M s w (k # c)"
    and db_claim: "R t \<Longrightarrow> R (t\<lparr>tb_claims := k # tb_claims t\<rparr>)"
    and mem_webhook: "M s w c \<Longrightarrow> load_workflow_yaml (nv_libs env) (wh_yaml_definition v) = Inr g \<Longrightarrow> M s (dset (wh_name v) v w) c"
    and db_webhook: "R t \<Longrightarrow> load_workflow_yaml (nv_libs env) (wg_yaml_definition r) = Inr g \<Longrightarrow>
      R (t\<lparr>tb_webhooks := dset n r (tb_webhooks t)\<rparr>)"
    and mem_schedule: "M s w c \<Longrightarrow> load_workflow_yaml (nv_libs env) (sw_yaml_definition x) = Inr g \<Longrightarrow>
      is_valid_cron (nv_libs env) (sw_cron x) \<Longrightarrow> M (dset (sw_name x) x s) w c"
    and db_schedule: "R t \<Longrightarrow> load_workflow_yaml (nv_libs env) (sr_yaml_definition q) = Inr g \<Longrightarrow>
      is_valid_cron (nv_libs env) (sr_cron q) \<Longrightarrow> R (t\<lparr>tb_schedules := dset n q (tb_schedules t)\<rparr>)"
    and mem_delete: "M s w c \<Longrightarrow> M (ddel n s) w c"
    and db_delete: "R t \<Longrightarrow> R (t\<lparr>tb_schedules := ddel n (tb_schedules t)\<rparr>)"
    and mem_ran: "M s w c \<Longrightarrow> dget s n = Some x \<Longrightarrow> M (dset (sw_name x) (ran (nv_libs env) now x) s) w c"
    and db_ran: "R t \<Longrightarrow> dget (tb_schedules t) n = Some q \<Longrightarrow>
      R (t\<lparr>tb_schedules := dset n (q\<lparr>sr_last_run := Some now, sr_next_run := nx\<rparr>) (tb_schedules t)\<rparr>)"
begin

definition holds :: "bool \<Rightarrow> 'w process \<Rightarrow> bool" where
  "holds b p \<longleftrightarrow> pr_db_available p = b \<and> M (pr_schedules p) (pr_webhooks p) (pr_claims p) \<and> R (db_tables (pr_db p))"

lemma holds_db: "preserves (\<lambda>db. R (db_tables db)) f \<Longrightarrow> preserves (holds b) (lift_op pr_db set_db f)"
  by (auto simp: preserves_def lift_op_def holds_def set_db_def split: prod.splits)

lemmas db_bodies = registry_tables_bodies [of R, OF tables]

lemma holds_runs: "preserves (holds b) (lift_op pr_runs set_runs f)"
  by (auto simp: preserves_def lift_op_def holds_def set_runs_def split: prod.splits)

lemma holds_storage:
  "preserves (holds b) (sg_save_run (get_storage env q) i)" "preserves (holds b) (sg_get_run (get_storage env q) rid)"
  "preserves (holds b) (sg_list_runs (get_storage env q) m)"
  "preserves (holds b) (sg_get_dead_letters (get_storage env q) orid)"
  unfolding get_storage_def database_storage_def offline_storage_def
  by (auto intro!: preserves_fresh holds_db holds_runs db_bodies preserves_read
      [where g = "\<lambda>p. lift_op pr_db set_db (db_save_run (nv_libs env) (nv_clock env (pr_world p)) u i)" for u]
      preserves_read [where g = "\<lambda>p. lift_op pr_runs set_runs (mem_save_run (nv_clock env (pr_world p)) u i)" for u]
      simp: holds_def)

lemma holds_store_parts:
  "preserves (holds b) (lift_op pr_versions set_versions f)" "preserves (holds b) (lift_op pr_events set_events g)"
  by (auto simp: preserves_def lift_op_def holds_def set_versions_def set_events_def split: prod.splits)

lemma holds_versions:
  "preserves (holds b) (sv_version_put (get_runtime_services (nv_libs env) q) y)"
  "preserves (holds b) (sv_version_get (get_runtime_services (nv_libs env) q) h)"
  "preserves (holds b) (sv_events_save (get_runtime_services (nv_libs env) q) rid es)"
  "preserves (holds b) (sv_events_list (get_runtime_services (nv_libs env) q) rid)"
  unfolding get_runtime_services_def database_services_def in_memory_def
  by (auto intro!: holds_db db_bodies holds_store_parts)

lemma holds_claim: "preserves (holds b) (sv_claim (get_runtime_services (nv_libs env) q) ns k)"
proof -
  have "preserves (\<lambda>db. R (db_tables db)) (db_claim ns k)"
  proof (cases "empty_key k")
    case True
    then show ?thesis by (auto simp: preserves_def db_claim_def empty_key_def)
  next
    case False
    then obtain x where "k = Some x" "x \<noteq> []" by (auto simp: empty_key_def)
    then have "db_claim ns k = session (\<lambda>t. if (ns, x) \<in> set (tb_claims t) then (t, Inr False)
        else (t\<lparr>tb_claims := (ns, x) # tb_claims t\<rparr>, Inr True))"
      by (simp add: db_claim_def fun_eq_iff)
    then show ?thesis by (simp only:) (rule preserves_session, simp add: db_claim)
  qed
  moreover have "preserves (holds b) (lift_op pr_claims set_claims (claim ns k))"
    by (auto simp: preserves_def lift_op_def holds_def set_claims_def claim_def mem_claim split: option.splits)
  ultimately show ?thesis
    by (auto simp: get_runtime_services_def database_services_def in_memory_def intro: holds_db)
qed

lemma holds_webhook_put:
  assumes "load_workflow_yaml (nv_libs env) (wh_yaml_definition v) = Inr c"
  shows "preserves (holds b) (so_put (sv_webhooks (get_runtime_services (nv_libs env) q)) v)"
proof -
  have "preserves (\<lambda>db. R (db_tables db)) (db_webhook_put v)"
    unfolding db_webhook_put_def by (rule preserves_session) (use assms in \<open>simp add: db_webhook\<close>)
  moreover have "preserves (holds b) (lift_op pr_webhooks set_webhooks (mem_put wh_name v))"
    using assms by (auto simp: preserves_def lift_op_def holds_def set_webhooks_def mem_put_def mem_webhook)
  ultimately show ?thesis
    by (auto simp: get_runtime_services_def database_services_def in_memory_def lift_store_def mem_ops_def
        db_webhook_ops_def intro: holds_db)
qed

lemma holds_schedule_put:
  assumes "load_workflow_yaml (nv_libs env) (sw_yaml_definition x) = Inr c" and "is_valid_cron (nv_libs env) (sw_cron x)"
  shows "preserves (holds b) (so_put (sv_schedules (get_runtime_services (nv_libs env) q)) x)"
proof -
  have "preserves (\<lambda>db. R (db_tables db)) (db_schedule_put x)"
    unfolding db_schedule_put_def by (rule preserves_session) (use assms in \<open>simp add: db_schedule\<close>)
  moreover have "preserves (holds b) (lift_op pr_schedules set_schedules (mem_put sw_name x))"
    using assms by (auto simp: preserves_def lift_op_def holds_def set_schedules_def mem_put_def mem_schedule)
  ultimately show ?thesis
    by (auto simp: get_runtime_services_def database_services_def in_memory_def lift_store_def mem_ops_def
        db_schedule_ops_def intro: holds_db)
qed

lemma holds_reads:
  "preserves (holds b) (so_get (sv_webhooks (get_runtime_services (nv_libs env) q)) n)"
  "preserves (holds b) (so_list (sv_webhooks (get_runtime_services (nv_libs env) q)))"
  "preserves (holds b) (so_list (sv_schedules (get_runtime_services (nv_libs env) q)))"
  "preserves (holds b) (so_delete (sv_schedules (get_runtime_services (nv_libs env) q)) n)"
proof -
  have db: "preserves (\<lambda>db. R (db_tables db)) (db_webhook_get n)" "preserves (\<lambda>db. R (db_tables db)) db_webhook_list"
    "preserves (\<lambda>db. R (db_tables db)) db_schedule_list" "preserves (\<lambda>db. R (db_tables db)) (db_schedule_delete n)"
    unfolding db_webhook_get_def db_webhook_list_def db_schedule_list_def db_schedule_delete_def
    by (rule preserves_session, simp add: db_delete split: option.split)+
  have mem: "preserves (holds b) (lift_op pr_webhooks set_webhooks (mem_get n))"
    "preserves (holds b) (lift_op pr_webhooks set_webhooks mem_list)"
    "preserves (holds b) (lift_op pr_schedules set_schedules mem_list)"
    "preserves (holds b) (lift_op pr_schedules set_schedules (mem_delete n))"
    by (auto simp: preserves_def lift_op_def holds_def set_schedules_def set_webhooks_def mem_get_def mem_list_def
        mem_delete_def mem_delete)
  show "preserves (holds b) (so_get (sv_webhooks (get_runtime_services (nv_libs env) q)) n)"
  "preserves (holds b) (so_list (sv_webhooks (get_runtime_services (nv_libs env) q)))"
  "preserves (holds b) (so_list (sv_schedules (get_runtime_services (nv_libs env) q)))"
  "preserves (holds b) (so_delete (sv_schedules (get_runtime_services (nv_libs env) q)) n)"
    using db mem
    by (simp_all add: get_runtime_services_def database_services_def in_memory_def lift_store_def mem_ops_def
        db_schedule_ops_def db_webhook_ops_def holds_db)
qed

lemma db_put_ran:
  assumes "R (db_tables db)" and "dget (tb_schedules (db_tables db)) n = Some q"
    and "db_schedule_put (ran (nv_libs env) now (to_schedule n q)) db = (db', r)"
  shows "R (db_tables db')"
proof -
  let ?x = "ran (nv_libs env) now (to_schedule n q)"
  have row: "\<lparr>sr_cron = sw_cron ?x, sr_yaml_definition = sw_yaml_definition ?x, sr_last_run = sw_last_run ?x,
      sr_next_run = sw_next_run ?x, sr_enabled = sw_enabled ?x\<rparr> = q\<lparr>sr_last_run := Some now, sr_next_run := sw_next_run ?x\<rparr>"
    and name: "sw_name ?x = n"
    by (simp_all add: to_schedule_def)
  show ?thesis
  proof (cases r)
    case (Inl e)
    have "db_tables db' = db_tables db"
      by (rule session_Inl) (use assms(3) Inl in \<open>simp add: db_schedule_put_def\<close>)
    with assms(1) show ?thesis by simp
  next
    case (Inr u)
    have "db_tables db' = db_tables db\<lparr>tb_schedules := dset n (q\<lparr>sr_last_run := Some now,
        sr_next_run := sw_next_run ?x\<rparr>) (tb_schedules (db_tables db))\<rparr>"
      using session_commit [OF assms(3) [unfolded db_schedule_put_def Inr]] by (simp only: fst_conv row name)
    with db_ran [OF assms(1,2)] show ?thesis by simp
  qed
qed

lemma holds_ran: "preserves (holds b) (mark_ran (nv_libs env) (sv_schedules (get_runtime_services (nv_libs env) q)) n now)"
proof (rule preservesI)
  fix p p' r
  assume h: "holds b p" and m: "mark_ran (nv_libs env) (sv_schedules (get_runtime_services (nv_libs env) q)) n now p = (p', r)"
  show "holds b p'"
  proof (cases "pr_db_available q")
    case False
    with h m mem_ran [of "pr_schedules p" "pr_webhooks p" "pr_claims p" n] show ?thesis
      by (auto simp: mark_ran_def get_runtime_services_def in_memory_def lift_store_def mem_ops_def lift_op_def
          mem_get_def mem_put_def holds_def set_schedules_def split: option.splits)
  next
    case True
    let ?ops = "lift_store pr_db set_db db_schedule_ops :: 'w process schedule_ops"
    have m: "mark_ran (nv_libs env) ?ops n now p = (p', r)"
      using m True by (simp add: get_runtime_services_def database_services_def)
    obtain db1 g where g: "db_schedule_get n (pr_db p) = (db1, g)" by force
    note gr = session_read [OF g [unfolded db_schedule_get_def]]
    have t: "db_tables db1 = db_tables (pr_db p)" using gr by simp
    have get: "so_get ?ops n p = (set_db db1 p, g)"
      using g by (simp add: lift_store_def lift_op_def db_schedule_ops_def)
    have R1: "R (db_tables db1)" and h1: "holds b (set_db db1 p)"
      using h t by (simp_all add: holds_def set_db_def)
    show ?thesis
    proof (cases "\<exists>x. g = Inr (Some x)")
      case False
      with m get h1 show ?thesis by (auto simp: mark_ran_def split: sum.splits option.splits)
    next
      case True
      then obtain x where x: "g = Inr (Some x)" by blast
      with gr have "map_option (to_schedule n) (dget (tb_schedules (db_tables db1)) n) = Some x"
        by (simp add: t)
      then obtain rec where rec: "dget (tb_schedules (db_tables db1)) n = Some rec" "x = to_schedule n rec"
        by (cases "dget (tb_schedules (db_tables db1)) n") simp_all
      obtain db2 u where p: "db_schedule_put (ran (nv_libs env) now x) db1 = (db2, u)" by force
      have "p' = set_db db2 p"
        using m get x p by (simp add: mark_ran_def lift_store_def lift_op_def db_schedule_ops_def set_db_def)
      moreover have "R (db_tables db2)" by (rule db_put_ran [OF R1 rec(1) p [unfolded rec(2)]])
      ultimately show ?thesis using h by (simp add: holds_def set_db_def)
    qed
  qed
qed

end

sublocale registry_predicate \<subseteq> run: process_invariant env "holds b" for b
  by unfold_locales (auto simp: holds_def intro: holds_storage holds_versions)

sublocale registry_predicate \<subseteq> requests: api_invariant env "holds b" for b
proof unfold_locales
  show "preserves (holds b) (with_lock env key
      (locked_execute env y (dispatch_args env (get_runtime_services (nv_libs env) q) t r h)))" for key y q t r h
    by (rule preserves_with_lock) (auto simp: holds_def intro: run.locked_execute)
qed (auto simp: holds_def intro: holds_storage holds_versions holds_claim holds_webhook_put holds_schedule_put holds_reads holds_ran)

section \<open>The definitions the registries hold\<close>

definition loads :: "libs \<Rightarrow> string \<Rightarrow> bool" where
  "loads L y = (\<not> isl (load_workflow_yaml L y))"

definition all_values :: "('v \<Rightarrow> bool) \<Rightarrow> (string, 'v) dict \<Rightarrow> bool" where
  "all_values Q d = list_all Q (dvals d)"

lemma all_values_Nil [simp]: "all_values Q []"
  by (simp add: all_values_def)

lemma all_values_dset: "all_values Q d \<Longrightarrow> Q v \<Longrightarrow> all_values Q (dset k v d)"
  by (induction d) (auto simp: all_values_def)

lemma all_values_ddel: "all_values Q d \<Longrightarrow> all_values Q (ddel k d)"
  by (induction d) (auto simp: all_values_def)

lemma all_values_dget: "all_values Q d \<Longrightarrow> dget d k = Some v \<Longrightarrow> Q v"
  by (induction d) (auto simp: all_values_def split: if_splits)

definition schedule_ok :: "libs \<Rightarrow> scheduled_workflow \<Rightarrow> bool" where
  "schedule_ok L s = (loads L (sw_yaml_definition s) \<and> is_valid_cron L (sw_cron s))"

definition registries_ok :: "libs \<Rightarrow> (string, scheduled_workflow) dict \<Rightarrow> (string, webhook_trigger) dict \<Rightarrow> claims \<Rightarrow> bool" where
  "registries_ok L s w c = (all_values (schedule_ok L) s \<and> all_values (\<lambda>v. loads L (wh_yaml_definition v)) w)"

definition registry_tables_ok :: "libs \<Rightarrow> tables \<Rightarrow> bool" where
  "registry_tables_ok L t =
     (all_values (\<lambda>r. schedule_ok L (to_schedule [] r)) (tb_schedules t)
      \<and> all_values (\<lambda>r. loads L (wg_yaml_definition r)) (tb_webhooks t))"

interpretation registered: registry_predicate "registries_ok (nv_libs env)" "registry_tables_ok (nv_libs env)" env
  for env :: "'w env"
proof (unfold_locales, goal_cases)
  case (10 s w c n x now)
  then show ?case
    using all_values_dget [of "schedule_ok (nv_libs env)" s n x]
    by (auto simp: registries_ok_def schedule_ok_def intro!: all_values_dset)
next
  case (11 t n q now nx)
  then show ?case
    using all_values_dget [of "\<lambda>r. schedule_ok (nv_libs env) (to_schedule [] r)" "tb_schedules t" n q]
    by (auto simp: registry_tables_ok_def schedule_ok_def to_schedule_def intro!: all_values_dset)
qed (auto simp: registries_ok_def registry_tables_ok_def registry_tables_def schedule_ok_def to_schedule_def loads_def
    intro!: all_values_dset all_values_ddel)

interpretation claims_kept: registry_predicate "\<lambda>s w c. K \<subseteq> set c" "\<lambda>t. K' \<subseteq> set (tb_claims t)" env
  for K K' and env :: "'w env"
  by unfold_locales (auto simp: registry_tables_def)

section \<open>Locks\<close>

lemma keeps_locks_memory:
  assumes "\<And>l held. preserves (\<lambda>p. pr_locks p = l) (body held)"
  shows "preserves (\<lambda>p. pr_locks p = l) (with_memory_lock key body)"
proof (rule preservesI)
  fix p p' r assume p: "pr_locks p = l" and w: "with_memory_lock key body p = (p', r)"
  obtain ks a where e: "lock_enter key l = (ks, a)" by force
  obtain p1 r1 where b: "body a (p\<lparr>pr_locks := ks\<rparr>) = (p1, r1)" by force
  have "pr_locks p1 = ks" by (rule preservesD [OF assms b]) simp
  moreover have "lock_exit a key ks = l" using e by (auto simp: lock_enter_def lock_exit_def Let_def)
  ultimately show "pr_locks p' = l" using w p e b by (auto simp: with_memory_lock_def)
qed

lemma keeps_locks:
  assumes "\<And>l held. preserves (\<lambda>p. pr_locks p = l) (body held)"
  shows "preserves (\<lambda>p. pr_locks p = l) (with_lock env key body)"
proof -
  have "preserves (\<lambda>p. pr_locks p = l) (with_redis_lock env key body)"
    unfolding with_redis_lock_def
  proof (rule preserves_bind)
    show "preserves (\<lambda>p. pr_locks p = l) (draw_uuid env)" by (simp add: preserves_def draw_uuid_def)
    fix token
    show "preserves (\<lambda>p. pr_locks p = l) (\<lambda>p. case redis_enter (nv_redis_clock env (pr_world p)) key token 60 (pr_redis p) of
        (rd, acquired) \<Rightarrow> case body acquired (p\<lparr>pr_redis := rd\<rparr>) of
          (p', r) \<Rightarrow> (p'\<lparr>pr_redis := redis_exit (nv_redis_clock env (pr_world p')) acquired key token (pr_redis p')\<rparr>, r))"
    proof (rule preservesI, goal_cases)
      case (1 p p' r)
      obtain rd a where e: "redis_enter (nv_redis_clock env (pr_world p)) key token 60 (pr_redis p) = (rd, a)" by force
      obtain p1 r1 where b: "body a (p\<lparr>pr_redis := rd\<rparr>) = (p1, r1)" by force
      have "pr_locks p1 = l" by (rule preservesD [OF assms b]) (simp add: 1(1))
      with 1(2) e b show ?case by auto
    qed
  qed
  with keeps_locks_memory [OF assms] show ?thesis by (simp add: with_lock_def)
qed

lemma keeps_locks_services:
  "preserves (\<lambda>p. pr_locks p = l) (sv_version_put (get_runtime_services L q) y)"
  "preserves (\<lambda>p. pr_locks p = l) (sv_version_get (get_runtime_services L q) h)"
  "preserves (\<lambda>p. pr_locks p = l) (sv_events_save (get_runtime_services L q) rid es)"
  "preserves (\<lambda>p. pr_locks p = l) (sv_events_list (get_runtime_services L q) rid)"
  "preserves (\<lambda>p. pr_locks p = l) (sv_claim (get_runtime_services L q) ns k)"
  "preserves (\<lambda>p. pr_locks p = l) (so_put (sv_webhooks (get_runtime_services L q)) v)"
  "preserves (\<lambda>p. pr_locks p = l) (so_get (sv_webhooks (get_runtime_services L q)) n)"
  "preserves (\<lambda>p. pr_locks p = l) (so_list (sv_webhooks (get_runtime_services L q)))"
  "preserves (\<lambda>p. pr_locks p = l) (so_put (sv_schedules (get_runtime_services L q)) s)"
  "preserves (\<lambda>p. pr_locks p = l) (so_get (sv_schedules (get_runtime_services L q)) n)"
  "preserves (\<lambda>p. pr_locks p = l) (so_list (sv_schedules (get_runtime_services L q)))"
  "preserves (\<lambda>p. pr_locks p = l) (so_delete (sv_schedules (get_runtime_services L q)) n)"
  by (simp_all add: get_runtime_services_def database_services_def in_memory_def lift_store_def
      preserves_lift_op set_part_defs)

lemma preserves_mark_ran:
  assumes "preserves P (so_get ops n)" and "\<And>s. preserves P (so_put ops s)"
  shows "preserves P (mark_ran L ops n now)"
proof (rule preservesI)
  fix p p' r assume p: "P p" and m: "mark_ran L ops n now p = (p', r)"
  obtain p1 g where g: "so_get ops n p = (p1, g)" by force
  have "P p1" by (rule preservesD [OF assms(1) g p])
  with m g show "P p'"
    by (auto simp: mark_ran_def dest: preservesD [OF assms(2)] split: sum.splits option.splits)
qed

interpretation locks_kept: api_invariant env "\<lambda>p. pr_locks p = l" for env :: "'w env" and l
proof -
  have run: "process_invariant env (\<lambda>p. pr_locks p = l)" for l
    by unfold_locales (auto intro: preserves_storage keeps_locks_services simp: set_part_defs)
  show "api_invariant env (\<lambda>p. pr_locks p = l)"
  proof (intro api_invariant.intro dispatch_invariant.intro run dispatch_invariant_axioms.intro
      api_invariant_axioms.intro)
    show "preserves (\<lambda>p. pr_locks p = l) (with_lock env key
        (locked_execute env y (dispatch_args env (get_runtime_services (nv_libs env) q) t r h)))" for key y q t r h
      by (rule keeps_locks, rule process_invariant.locked_execute [OF run])
  qed (auto intro: preserves_storage keeps_locks_services preserves_mark_ran simp: set_part_defs)
qed

section \<open>A dispatch leaves the schedules and the claims alone\<close>

definition mem_registry :: "'w process \<Rightarrow> (string, scheduled_workflow) dict \<times> claims" where
  "mem_registry p = (pr_schedules p, pr_claims p)"

interpretation mem_frame: dispatch_invariant env "\<lambda>p. mem_registry p = x" for env :: "'w env" and x
proof -
  have run: "process_invariant env (\<lambda>p. mem_registry p = x)"
  proof unfold_locales
    show "preserves (\<lambda>p. mem_registry p = x) (sg_save_run (get_storage env q) i)" for q i
      by (rule preserves_storage) (auto simp: mem_registry_def set_part_defs)
  qed (auto simp: mem_registry_def get_runtime_services_def database_services_def in_memory_def
      preserves_lift_op set_part_defs)
  show "dispatch_invariant env (\<lambda>p. mem_registry p = x)"
    by (intro dispatch_invariant.intro run dispatch_invariant_axioms.intro preserves_with_lock
        process_invariant.locked_execute [OF run]) (simp_all add: mem_registry_def)
qed

definition tables_good :: "tables \<Rightarrow> bool" where
  "tables_good t = db_good \<lparr>db_tables = t, db_faults = []\<rparr>"

lemma db_good_tables: "db_good db = tables_good (db_tables db)"
  by (simp add: tables_good_def db_good_def)

lemma keys_ddel: "fst ` set (ddel k d) = fst ` set d - {k}"
  by (induction d) auto

lemma save_run_body_good: "tables_good t \<Longrightarrow> tables_good (fst (save_run_body L now rid i t))"
  by (auto simp: tables_good_def db_good_def save_run_body_def delete_run_def Let_def make_step_row_def
      distinct_delete keys_ddel split: sum.split)

lemma registry_good_bodies:
  "preserves (\<lambda>db. registry_tables (db_tables db) = x \<and> db_good db) (db_save_run L now fresh i)"
  "preserves (\<lambda>db. registry_tables (db_tables db) = x \<and> db_good db) (db_version_put L y)"
  "preserves (\<lambda>db. registry_tables (db_tables db) = x \<and> db_good db) (db_version_get h)"
  "preserves (\<lambda>db. registry_tables (db_tables db) = x \<and> db_good db) (db_events_save L rid es)"
proof -
  have conj: "preserves (\<lambda>db. registry_tables (db_tables db) = x \<and> db_good db) f"
    if "preserves (\<lambda>db. registry_tables (db_tables db) = x) f" "preserves db_good f" for f :: "database \<Rightarrow> database \<times> 'r"
    using that by (simp add: preserves_def)
  have "preserves db_good (db_save_run L now fresh i)"
    unfolding db_save_run_def db_good_tables by (rule preserves_session) (rule save_run_body_good)
  moreover have "preserves db_good (db_version_put L y)" "preserves db_good (db_version_get h)"
    "preserves db_good (db_events_save L rid es)"
    by (rule preservesI, use db_version_put_frame db_views_cong db_version_get_frame db_events_frame in blast)+
  ultimately show
    "preserves (\<lambda>db. registry_tables (db_tables db) = x \<and> db_good db) (db_save_run L now fresh i)"
    "preserves (\<lambda>db. registry_tables (db_tables db) = x \<and> db_good db) (db_version_put L y)"
    "preserves (\<lambda>db. registry_tables (db_tables db) = x \<and> db_good db) (db_version_get h)"
    "preserves (\<lambda>db. registry_tables (db_tables db) = x \<and> db_good db) (db_events_save L rid es)"
    using registry_tables_bodies [of "\<lambda>t. registry_tables t = x"] by (auto intro!: conj)
qed

definition db_registry :: "(string, schedule_record) dict \<times> (string, webhook_registration) dict \<times> (string \<times> string) list \<Rightarrow> 'w process \<Rightarrow> bool" where
  "db_registry x p = (registry_tables (db_tables (pr_db p)) = x \<and> db_good (pr_db p))"

lemma db_registry_lift:
  "preserves (\<lambda>db. registry_tables (db_tables db) = x \<and> db_good db) f \<Longrightarrow> preserves (db_registry x) (lift_op pr_db set_db f)"
  by (auto simp: preserves_def lift_op_def db_registry_def set_db_def split: prod.splits)

lemma db_registry_other:
  "preserves (db_registry x) (lift_op pr_runs set_runs f)" "preserves (db_registry x) (lift_op pr_versions set_versions g)"
  "preserves (db_registry x) (lift_op pr_events set_events h)"
  by (rule preserves_lift_op, simp add: db_registry_def set_part_defs)+

interpretation db_frame: dispatch_invariant env "db_registry x" for env :: "'w env" and x
proof -
  have run: "process_invariant env (db_registry x)"
  proof unfold_locales
    show "preserves (db_registry x) (sg_save_run (get_storage env q) i)" for q i
      unfolding get_storage_def database_storage_def offline_storage_def
      by (auto intro!: preserves_fresh db_registry_lift registry_good_bodies db_registry_other preserves_read
          [where g = "\<lambda>p. lift_op pr_db set_db (db_save_run (nv_libs env) (nv_clock env (pr_world p)) u i)" for u]
          preserves_read [where g = "\<lambda>p. lift_op pr_runs set_runs (mem_save_run (nv_clock env (pr_world p)) u i)" for u]
          simp: db_registry_def)
    show "db_registry x (p\<lparr>pr_world := w\<rparr>)" "db_registry x (p\<lparr>pr_uuids := n\<rparr>)" if "db_registry x p" for p w n
      using that by (simp_all add: db_registry_def)
  qed (auto simp: get_runtime_services_def database_services_def in_memory_def
      intro!: db_registry_lift registry_good_bodies db_registry_other)
  show "dispatch_invariant env (db_registry x)"
    by (intro dispatch_invariant.intro run dispatch_invariant_axioms.intro preserves_with_lock
        process_invariant.locked_execute [OF run]) (simp_all add: db_registry_def)
qed

lemma dispatch_frames_mem: "mem_sched.frames (\<lambda>y. dispatch env y rid b h)"
  using preservesD [OF mem_frame.dispatch_preserves]
  by (fastforce simp: mem_sched.frames_def mem_process_good_def mem_scheduled_def mem_claimed_def mem_registry_def)

lemma dispatch_frames_db: "db_sched.frames (\<lambda>y. dispatch env y rid b h)"
  unfolding db_sched.frames_def
proof (intro allI impI)
  fix y p p' r assume g: "db_process_good p" and d: "dispatch env y rid b h p = (p', r)"
  have "db_registry (registry_tables (db_tables (pr_db p))) p'"
    by (rule preservesD [OF db_frame.dispatch_preserves d]) (use g in \<open>simp add: db_registry_def db_process_good_def\<close>)
  then show "db_process_good p' \<and> db_scheduled p' = db_scheduled p \<and> db_process_claimed p' = db_process_claimed p"
    by (simp add: db_registry_def db_process_good_def db_scheduled_def db_process_claimed_def registry_tables_def
        db_schedules_def db_claimed_def fun_eq_iff)
qed

end
