(* ===== verification/Lines.thy ===== *)
theory Lines
  imports PyValue
begin

text \<open>
  Lines of a text, as \<open>str.splitlines\<close> has them: a line ends at any of Python's line
  boundaries, \<open>CR LF\<close> counts as one, and a boundary at the end of the text starts no line.
\<close>

abbreviation LF :: char where
  "LF \<equiv> CHR 0x0A"

abbreviation CR :: char where
  "CR \<equiv> CHR 0x0D"

definition line_break :: "char \<Rightarrow> bool" where
  "line_break c = (of_char c \<in> {10::nat, 11, 12, 13, 28, 29, 30, 133})"

lemma line_break_code [code]: "line_break c \<longleftrightarrow> list_ex (HOL.eq (code_point c)) [10, 11, 12, 13, 28, 29, 30, 133]"
  by (auto simp: line_break_def code_point_def)

fun splitlines :: "string \<Rightarrow> string list" where
  "splitlines [] = []"
| "splitlines (c # s) =
     (if c = CR \<and> startswith s [LF] then [] # splitlines (tl s)
      else if line_break c then [] # splitlines s
      else case splitlines s of [] \<Rightarrow> [[c]] | w # ws \<Rightarrow> (c # w) # ws)"

text \<open>A text of whole lines, each closed by a line feed, is split into these lines.\<close>

lemma line_break_LF [simp]: "line_break LF"
  by (simp add: line_break_def)

lemma line_break_CR [simp]: "line_break CR"
  by (simp add: line_break_def)

lemma splitlines_line [simp]: "\<forall>c \<in> set l. \<not> line_break c \<Longrightarrow> splitlines (l @ LF # s) = l # splitlines s"
  by (induction l) auto

lemma splitlines_last: "l \<noteq> [] \<Longrightarrow> \<forall>c \<in> set l. \<not> line_break c \<Longrightarrow> splitlines l = [l]"
proof (induction l)
  case Nil
  then show ?case by simp
next
  case (Cons c l)
  then show ?case by (cases "l = []") auto
qed

lemma splitlines_concat:
  "\<forall>l \<in> set ls. \<forall>c \<in> set l. \<not> line_break c \<Longrightarrow> splitlines (concat (map (\<lambda>l. l @ [LF]) ls)) = ls"
  by (induction ls) simp_all

lemma splitlines_no_break: "\<forall>l \<in> set (splitlines s). \<forall>c \<in> set l. \<not> line_break c"
proof (induction s rule: splitlines.induct)
  case 1
  show ?case by simp
next
  case (2 a s)
  consider "a = CR \<and> startswith s [LF]" | "\<not> (a = CR \<and> startswith s [LF])" "line_break a"
    | "\<not> (a = CR \<and> startswith s [LF])" "\<not> line_break a" by blast
  then show ?case
  proof cases
    case 1
    with "2.IH"(1) show ?thesis by simp
  next
    case 2
    have "splitlines (a # s) = [] # splitlines s" using 2 by (simp only: splitlines.simps if_False if_True)
    with "2.IH"(2) [OF 2] show ?thesis by simp
  next
    case 3
    then have IH: "\<forall>l \<in> set (splitlines s). \<forall>c \<in> set l. \<not> line_break c" by (rule "2.IH"(3))
    have "splitlines (a # s) = (case splitlines s of [] \<Rightarrow> [[a]] | w # ws \<Rightarrow> (a # w) # ws)"
      using 3 by (simp only: splitlines.simps if_False)
    with IH 3(2) show ?thesis by (cases "splitlines s") simp_all
  qed
qed

end
