(* ===== verification/Pricing.thy ===== *)
theory Pricing
  imports PyValue
begin

text \<open>
  \<open>internal/vendor_core/pricing.py\<close>: the registry of token prices, the resolution of a
  model name to a price and the cost of a completion. Prices are rationals: the rounding of
  floating-point arithmetic is not modelled. Reading and decoding an override file is an
  argument; merging it is modelled.
\<close>

section \<open>The registry\<close>

record price_entry =
  pe_input_per_1m :: rat
  pe_output_per_1m :: rat

definition price :: "rat \<Rightarrow> rat \<Rightarrow> price_entry" where
  "price i out = \<lparr>pe_input_per_1m = i, pe_output_per_1m = out\<rparr>"

record pricing =
  pc_models :: "(string, price_entry) dict"
  pc_warned_unknown :: "string list"

definition model_pricing :: "(string, price_entry) dict" where
  "model_pricing =
     [(''gpt-4o'', price 5 15), (''gpt-4o-mini'', price (15/100) (6/10)), (''gpt-4-turbo'', price 10 30),
      (''gpt-4'', price 30 60), (''gpt-3.5-turbo'', price (5/10) (15/10)), (''o1'', price 15 60),
      (''o1-mini'', price (11/10) (44/10)), (''o3-mini'', price (11/10) (44/10)),
      (''claude-3-5-sonnet'', price 3 15), (''claude-3-5-haiku'', price (8/10) 4),
      (''claude-3-opus'', price 15 75), (''claude-3-haiku'', price (25/100) (125/100)),
      (''text-embedding-3-small'', price (2/100) 0), (''text-embedding-3-large'', price (13/100) 0)]"

definition default_price :: price_entry where
  "default_price = price 5 15"

definition initial_pricing :: pricing where
  "initial_pricing = \<lparr>pc_models = model_pricing, pc_warned_unknown = []\<rparr>"

section \<open>Operations\<close>

text \<open>The loop over the known names, longest first; the sort is stable.\<close>

definition longest_first :: "string list \<Rightarrow> string list" where
  "longest_first known = sort_key (\<lambda>k. - int (length k)) known"

definition lookup_price :: "string \<Rightarrow> pricing \<Rightarrow> pricing \<times> price_entry" where
  "lookup_price model pc =
     (case dget (pc_models pc) model of
        Some entry \<Rightarrow> (pc, entry)
      | None \<Rightarrow>
          (case find (\<lambda>known. startswith model known) (longest_first (dkeys (pc_models pc))) of
             Some known \<Rightarrow> (pc, the (dget (pc_models pc) known))
           | None \<Rightarrow>
               (if model \<in> set (pc_warned_unknown pc) then pc
                else pc\<lparr>pc_warned_unknown := model # pc_warned_unknown pc\<rparr>,
                default_price)))"

definition calculate_cost :: "string \<Rightarrow> int \<Rightarrow> int \<Rightarrow> pricing \<Rightarrow> pricing \<times> rat" where
  "calculate_cost model prompt_tokens completion_tokens pc =
     (case lookup_price model pc of
        (pc', p) \<Rightarrow>
          (pc', of_int prompt_tokens / 1000000 * pe_input_per_1m p
                + of_int completion_tokens / 1000000 * pe_output_per_1m p))"

definition register_pricing :: "string \<Rightarrow> rat \<Rightarrow> rat \<Rightarrow> pricing \<Rightarrow> pricing" where
  "register_pricing model input_per_1m output_per_1m pc =
     pc\<lparr>pc_models := dset model (price input_per_1m output_per_1m) (pc_models pc),
        pc_warned_unknown := removeAll model (pc_warned_unknown pc)\<rparr>"

text \<open>
  The loop of \<open>load_pricing_override\<close> over the decoded entries. An entry is what
  \<open>float(entry["input_per_1m"])\<close> and its counterpart give: two numbers, or the exception
  of a missing or malformed one. Entries before a malformed one stay merged.
\<close>

fun merge_override :: "(string \<times> (exn + rat \<times> rat)) list \<Rightarrow> pricing \<Rightarrow> pricing \<times> exn option" where
  "merge_override [] pc = (pc, None)"
| "merge_override ((model, Inl e) # entries) pc = (pc, Some e)"
| "merge_override ((model, Inr (i, out)) # entries) pc =
     merge_override entries (register_pricing model i out pc)"

definition load_pricing_override :: "(string \<Rightarrow> exn + (string \<times> (exn + rat \<times> rat)) list) \<Rightarrow> string
    \<Rightarrow> pricing \<Rightarrow> pricing \<times> exn option" where
  "load_pricing_override read_file path pc =
     (case read_file path of
        Inl e \<Rightarrow> (pc, Some e)
      | Inr entries \<Rightarrow> merge_override entries pc)"

section \<open>Resolution\<close>

lemma longest_first_sorted: "sorted (map (\<lambda>k. - int (length k)) (longest_first ks))"
  by (simp add: longest_first_def)

lemma set_longest_first [simp]: "set (longest_first ks) = set ks"
  by (simp add: longest_first_def)

lemma find_sorted_max:
  assumes "sorted (map (\<lambda>k. - int (length k)) ks)" and "find P ks = Some k"
  shows "k \<in> set ks \<and> P k \<and> (\<forall>k' \<in> set ks. P k' \<longrightarrow> length k' \<le> length k)"
  using assms
  by (induction ks) (auto split: if_splits)

lemma keys_dget: "dget d k = Some v \<Longrightarrow> k \<in> set (dkeys d)"
  by (induction d) (auto split: if_splits)

lemma startswith_length: "startswith s p \<Longrightarrow> length p \<le> length s"
  by (auto simp: startswith_iff)

lemma startswith_same: "startswith s p \<Longrightarrow> startswith s q \<Longrightarrow> length p = length q \<Longrightarrow> p = q"
  by (auto simp: startswith_iff)

lemma startswith_whole: "startswith s s"
  by (simp add: startswith_iff)

text \<open>The names that a resolution may use: known prefixes that no known prefix exceeds.\<close>

definition best_prefix :: "(string, price_entry) dict \<Rightarrow> string \<Rightarrow> string \<Rightarrow> bool" where
  "best_prefix d model k \<longleftrightarrow> k \<in> set (dkeys d) \<and> startswith model k
     \<and> (\<forall>k' \<in> set (dkeys d). startswith model k' \<longrightarrow> length k' \<le> length k)"

lemma best_prefix_unique: "best_prefix d model k \<Longrightarrow> best_prefix d model k' \<Longrightarrow> k = k'"
  by (auto simp: best_prefix_def intro: startswith_same le_antisym)

lemma lookup_best:
  assumes "best_prefix (pc_models pc) model k"
  shows "lookup_price model pc = (pc, the (dget (pc_models pc) k))"
proof (cases "dget (pc_models pc) model")
  case (Some e)
  have "best_prefix (pc_models pc) model model"
    using keys_dget [OF Some] by (auto simp: best_prefix_def startswith_whole startswith_length)
  with assms have "k = model" by (rule best_prefix_unique)
  with Some show ?thesis by (simp add: lookup_price_def)
next
  case None
  from assms have "find (\<lambda>known. startswith model known) (longest_first (dkeys (pc_models pc))) \<noteq> None"
    by (auto simp: find_None_iff best_prefix_def)
  then obtain k' where f: "find (\<lambda>known. startswith model known) (longest_first (dkeys (pc_models pc))) = Some k'"
    by blast
  from find_sorted_max [OF longest_first_sorted f] have "best_prefix (pc_models pc) model k'"
    by (simp add: best_prefix_def)
  with assms have "k = k'" by (rule best_prefix_unique)
  with None f show ?thesis by (simp add: lookup_price_def)
qed

lemma lookup_unknown:
  assumes "\<forall>k \<in> set (dkeys (pc_models pc)). \<not> startswith model k"
  shows "lookup_price model pc =
    (if model \<in> set (pc_warned_unknown pc) then pc else pc\<lparr>pc_warned_unknown := model # pc_warned_unknown pc\<rparr>,
     default_price)"
proof -
  have "model \<notin> set (dkeys (pc_models pc))" using assms startswith_whole [of model] by blast
  then have "dget (pc_models pc) model = None" by (simp add: map_of_eq_None_iff)
  moreover have "find (\<lambda>known. startswith model known) (longest_first (dkeys (pc_models pc))) = None"
    using assms by (auto simp: find_None_iff)
  ultimately show ?thesis by (simp add: lookup_price_def)
qed

text \<open>
  A model is priced by the longest registered name it starts with (its own name when
  that is registered, so that a dated id gets the price of its family), and by the default
  only when it starts with no registered name.
\<close>

theorem lookup_longest_prefix:
  "snd (lookup_price model pc) = e \<longleftrightarrow>
     (\<exists>k. dget (pc_models pc) k = Some e \<and> startswith model k
        \<and> (\<forall>k'. dget (pc_models pc) k' \<noteq> None \<longrightarrow> startswith model k' \<longrightarrow> length k' \<le> length k))
     \<or> (\<forall>k. dget (pc_models pc) k \<noteq> None \<longrightarrow> \<not> startswith model k) \<and> e = default_price"
  (is "?l \<longleftrightarrow> ?best \<or> ?none")
proof -
  have keys: "k \<in> set (dkeys (pc_models pc)) \<longleftrightarrow> dget (pc_models pc) k \<noteq> None" for k
    by (simp add: map_of_eq_None_iff)
  note best = best_prefix_def [of "pc_models pc", unfolded Ball_def keys]
  show ?thesis
  proof (cases "\<exists>k \<in> set (dkeys (pc_models pc)). startswith model k")
    case True
    then have "find (\<lambda>known. startswith model known) (longest_first (dkeys (pc_models pc))) \<noteq> None"
      by (simp only: find_None_iff set_longest_first) blast
    then obtain k where f: "find (\<lambda>known. startswith model known) (longest_first (dkeys (pc_models pc))) = Some k"
      by blast
    from find_sorted_max [OF longest_first_sorted f] have k: "best_prefix (pc_models pc) model k"
      by (simp add: best_prefix_def)
    have "?l \<longleftrightarrow> dget (pc_models pc) k = Some e"
    proof -
      obtain v where "dget (pc_models pc) k = Some v" using k unfolding best by blast
      then show ?thesis by (simp add: lookup_best [OF k])
    qed
    moreover have "?best \<longleftrightarrow> dget (pc_models pc) k = Some e"
    proof
      assume ?best
      then obtain j where j: "dget (pc_models pc) j = Some e" "startswith model j"
        "\<forall>k'. dget (pc_models pc) k' \<noteq> None \<longrightarrow> startswith model k' \<longrightarrow> length k' \<le> length j" by blast
      then have "best_prefix (pc_models pc) model j" unfolding best by simp
      with j(1) best_prefix_unique [OF k] show "dget (pc_models pc) k = Some e" by blast
    next
      assume "dget (pc_models pc) k = Some e"
      with k show ?best unfolding best by blast
    qed
    moreover have "\<not> ?none" using True keys by blast
    ultimately show ?thesis by blast
  next
    case False
    then have "?l \<longleftrightarrow> e = default_price" by (auto simp: lookup_unknown)
    with False keys show ?thesis by blast
  qed
qed

theorem lookup_longest_prefix_witness:
  "snd (lookup_price ''gpt-4o-mini-2024-07-18'' initial_pricing) = price (15/100) (6/10)"
proof -
  have "dget (pc_models initial_pricing) ''gpt-4o-mini'' = Some (price (15/100) (6/10))"
    by (simp add: initial_pricing_def model_pricing_def)
  moreover have "length k' \<le> length ''gpt-4o-mini''"
    if "dget (pc_models initial_pricing) k' \<noteq> None" "startswith ''gpt-4o-mini-2024-07-18'' k'" for k'
    using that by (auto simp: initial_pricing_def model_pricing_def split: if_splits)
  ultimately show ?thesis
    by (intro lookup_longest_prefix [THEN iffD2] disjI1 exI [of _ "''gpt-4o-mini''"]) auto
qed

section \<open>Costs\<close>

lemma lookup_keeps_prices: "pc_models (fst (lookup_price model pc)) = pc_models pc"
  by (simp add: lookup_price_def split: option.split)

lemma register_then_lookup:
  "lookup_price model (register_pricing model i out pc) = (register_pricing model i out pc, price i out)"
  by (simp add: lookup_price_def register_pricing_def)

lemma cost_additive:
  "snd (calculate_cost m (p1 + p2) (c1 + c2) pc) = snd (calculate_cost m p1 c1 pc) + snd (calculate_cost m p2 c2 pc)"
  by (simp add: calculate_cost_def split: prod.split) (simp add: add_divide_distrib distrib_right)

text \<open>A well-formed override wins over what was registered, and its last entry for a model over the others.\<close>

lemma merge_override_prices:
  "dget (pc_models (fst (merge_override (map (\<lambda>(m, p). (m, Inr p)) entries) pc))) k =
     (case map_of (rev entries) k of Some (i, out) \<Rightarrow> Some (price i out) | None \<Rightarrow> dget (pc_models pc) k)"
proof (induction entries arbitrary: pc)
  case (Cons e entries)
  obtain m i out where e: "e = (m, i, out)" by (cases e) auto
  show ?case
    by (simp add: e Cons.IH) (simp add: register_pricing_def map_add_def split: option.split)
qed simp

end
