(* ===== verification/Llm.thy ===== *)
theory Llm
  imports Pricing
begin

text \<open>
  \<open>internal/vendor_core/llm.py\<close>: the client factory over the OpenAI and Anthropic SDKs. The
  SDKs are arguments: a call that answers or fails, or no SDK at all (\<^const>\<open>None\<close>, where the
  import fails). The state is the price registry and the world outside; the clock is
  \<open>time.perf_counter\<close>, in seconds.
\<close>

section \<open>Responses\<close>

datatype llm_error = ImportError string | ApiError string

record llm_response =
  lr_text :: string
  lr_model :: string
  lr_prompt_tokens :: int
  lr_completion_tokens :: int
  lr_total_tokens :: int
  lr_latency_ms :: rat
  lr_estimated_cost :: rat

text \<open>What the SDKs return: the fields the factory reads. A block has a \<open>text\<close> or not.\<close>

record openai_usage =
  ou_prompt_tokens :: int
  ou_completion_tokens :: int
  ou_total_tokens :: int

record openai_response =
  or_content :: "string option"
  or_usage :: "openai_usage option"

record anthropic_response =
  ar_content :: "pyval option list"
  ar_input_tokens :: int
  ar_output_tokens :: int

type_synonym ('r, 'w) completion =
  "string option \<Rightarrow> string \<Rightarrow> string \<Rightarrow> rat \<Rightarrow> int \<Rightarrow> 'w \<Rightarrow> 'w \<times> (string + 'r)"

record 'w llm_sdks =
  ls_openai :: "(openai_response, 'w) completion option"
  ls_anthropic :: "(anthropic_response, 'w) completion option"
  ls_clock :: "'w \<Rightarrow> rat"
  ls_sleep :: "rat \<Rightarrow> 'w \<Rightarrow> 'w"

section \<open>The factory\<close>

datatype secret = NoSecret | SecretStr string | PlainSecret string

fun unwrap_secret :: "secret \<Rightarrow> string option" where
  "unwrap_secret NoSecret = None"
| "unwrap_secret (SecretStr s) = Some s"
| "unwrap_secret (PlainSecret s) = Some s"

record llm_factory =
  lf_openai_api_key :: "string option"
  lf_anthropic_api_key :: "string option"

definition make_factory :: "secret \<Rightarrow> secret \<Rightarrow> llm_factory" where
  "make_factory openai_api_key anthropic_api_key =
     \<lparr>lf_openai_api_key = unwrap_secret openai_api_key, lf_anthropic_api_key = unwrap_secret anthropic_api_key\<rparr>"

definition get_openai_client :: "'w llm_sdks \<Rightarrow> llm_factory \<Rightarrow> llm_error
    + (string \<Rightarrow> string \<Rightarrow> rat \<Rightarrow> int \<Rightarrow> 'w \<Rightarrow> 'w \<times> (string + openai_response))" where
  "get_openai_client sdks f =
     (case ls_openai sdks of
        None \<Rightarrow> Inl (ImportError ''openai module is not installed. Install it via 'pip install openai' in your service.'')
      | Some create \<Rightarrow> Inr (create (lf_openai_api_key f)))"

definition get_anthropic_client :: "'w llm_sdks \<Rightarrow> llm_factory \<Rightarrow> llm_error
    + (string \<Rightarrow> string \<Rightarrow> rat \<Rightarrow> int \<Rightarrow> 'w \<Rightarrow> 'w \<times> (string + anthropic_response))" where
  "get_anthropic_client sdks f =
     (case ls_anthropic sdks of
        None \<Rightarrow> Inl (ImportError ''anthropic module is not installed. Install it via 'pip install anthropic' in your service.'')
      | Some create \<Rightarrow> Inr (create (lf_anthropic_api_key f)))"

fun first_textual_content :: "pyval option list \<Rightarrow> string" where
  "first_textual_content [] = []"
| "first_textual_content (Some (PyStr t) # blocks) = t"
| "first_textual_content (_ # blocks) = first_textual_content blocks"

definition estimate_llm_cost :: "string \<Rightarrow> int \<Rightarrow> int \<Rightarrow> pricing \<Rightarrow> pricing \<times> rat" where
  "estimate_llm_cost model prompt_tokens completion_tokens pc = calculate_cost model prompt_tokens completion_tokens pc"

text \<open>The end of every \<open>generate\<close> method: the cost is estimated and the response built.\<close>

definition make_response :: "string \<Rightarrow> string \<Rightarrow> int \<Rightarrow> int \<Rightarrow> int \<Rightarrow> rat \<Rightarrow> pricing \<times> 'w \<Rightarrow> (pricing \<times> 'w) \<times> llm_response" where
  "make_response answer model prompt_tokens completion_tokens total_tokens latency st =
     (case estimate_llm_cost model prompt_tokens completion_tokens (fst st) of
        (pc, cost) \<Rightarrow>
          ((pc, snd st),
           \<lparr>lr_text = answer, lr_model = model, lr_prompt_tokens = prompt_tokens,
            lr_completion_tokens = completion_tokens, lr_total_tokens = total_tokens,
            lr_latency_ms = latency, lr_estimated_cost = cost\<rparr>))"

definition generate_openai :: "'w llm_sdks \<Rightarrow> llm_factory \<Rightarrow> string \<Rightarrow> string \<Rightarrow> rat \<Rightarrow> int
    \<Rightarrow> pricing \<times> 'w \<Rightarrow> (pricing \<times> 'w) \<times> (llm_error + llm_response)" where
  "generate_openai sdks f model prompt temperature max_tokens st =
     (case ls_openai sdks of
        None \<Rightarrow> (st, Inl (ImportError ''openai module not installed.''))
      | Some create \<Rightarrow>
          (case create (lf_openai_api_key f) model prompt temperature max_tokens (snd st) of
             (w', Inl m) \<Rightarrow> ((fst st, w'), Inl (ApiError m))
           | (w', Inr response) \<Rightarrow>
               (let latency = (ls_clock sdks w' - ls_clock sdks (snd st)) * 1000;
                    answer = (case or_content response of None \<Rightarrow> [] | Some t \<Rightarrow> t);
                    (prompt_tokens, completion_tokens, total_tokens) =
                      (case or_usage response of
                         None \<Rightarrow> (0, 0, 0)
                       | Some u \<Rightarrow> (ou_prompt_tokens u, ou_completion_tokens u, ou_total_tokens u));
                    (st', r) = make_response answer model prompt_tokens completion_tokens total_tokens latency (fst st, w')
                in (st', Inr r))))"

definition generate_anthropic :: "'w llm_sdks \<Rightarrow> llm_factory \<Rightarrow> string \<Rightarrow> string \<Rightarrow> rat \<Rightarrow> int
    \<Rightarrow> pricing \<times> 'w \<Rightarrow> (pricing \<times> 'w) \<times> (llm_error + llm_response)" where
  "generate_anthropic sdks f model prompt temperature max_tokens st =
     (case ls_anthropic sdks of
        None \<Rightarrow> (st, Inl (ImportError ''anthropic module not installed.''))
      | Some create \<Rightarrow>
          (case create (lf_anthropic_api_key f) model prompt temperature max_tokens (snd st) of
             (w', Inl m) \<Rightarrow> ((fst st, w'), Inl (ApiError m))
           | (w', Inr response) \<Rightarrow>
               (let latency = (ls_clock sdks w' - ls_clock sdks (snd st)) * 1000;
                    answer = first_textual_content (ar_content response);
                    prompt_tokens = ar_input_tokens response;
                    completion_tokens = ar_output_tokens response;
                    (st', r) = make_response answer model prompt_tokens completion_tokens
                                 (prompt_tokens + completion_tokens) latency (fst st, w')
                in (st', Inr r))))"

definition generate_mock :: "'w llm_sdks \<Rightarrow> string \<Rightarrow> string \<Rightarrow> pricing \<times> 'w \<Rightarrow> (pricing \<times> 'w) \<times> llm_response" where
  "generate_mock sdks model prompt st =
     (let w' = ls_sleep sdks (5/100) (snd st);
          latency = (ls_clock sdks w' - ls_clock sdks (snd st)) * 1000;
          prompt_tokens = int (length (split_ws prompt));
          answer = ''Mock response for prompt: '' @ take 30 prompt @ ''...'';
          completion_tokens = int (length (split_ws answer))
      in make_response answer model prompt_tokens completion_tokens (prompt_tokens + completion_tokens) latency (fst st, w'))"

section \<open>What a response reports\<close>

lemma first_textual_content_first:
  "first_textual_content blocks = (case find (\<lambda>b. \<exists>t. b = Some (PyStr t)) blocks of
     Some (Some (PyStr t)) \<Rightarrow> t | _ \<Rightarrow> [])"
  by (induction blocks rule: first_textual_content.induct) auto

lemma make_response_fields:
  "make_response a m p c t l st = ((pc, w), r) \<Longrightarrow>
     w = snd st \<and> pc_models pc = pc_models (fst st) \<and> lr_text r = a \<and> lr_model r = m \<and> lr_total_tokens r = t
     \<and> lr_estimated_cost r = snd (calculate_cost m p c (fst st))"
  using lookup_keeps_prices [of m "fst st"]
  by (auto simp: make_response_def estimate_llm_cost_def calculate_cost_def split: prod.splits)

lemma make_response_prices [simp]:
  "make_response a m p c t l st = (st', r) \<Longrightarrow> pc_models (fst st') = pc_models (fst st)"
  by (cases st') (simp add: make_response_fields)

text \<open>No completion changes a price, whatever the provider and however it ends.\<close>

lemma generate_keeps_prices:
  "generate_openai sdks f m p tmp mx st = (st', ro) \<Longrightarrow> pc_models (fst st') = pc_models (fst st)"
  "generate_anthropic sdks f m p tmp mx st = (st', ra) \<Longrightarrow> pc_models (fst st') = pc_models (fst st)"
  "generate_mock sdks m p st = (st', rm) \<Longrightarrow> pc_models (fst st') = pc_models (fst st)"
  by (auto simp: generate_openai_def generate_anthropic_def generate_mock_def Let_def
      split: option.splits prod.splits sum.splits dest!: make_response_prices)

end
