(* ===== verification/Tasks.thy ===== *)
theory Tasks
  imports Lines Docparse Llm Contracts "HOL-Library.List_Lexorder" "HOL-Library.Char_ord" "HOL-Library.Product_Lexorder"
begin

text \<open>
  \<open>tasks.py\<close>: the tasks every deployment registers. A task gets the results of the steps
  before it and its parameters, works on the price registry and the world outside, and
  returns a value or raises; \<^const>\<open>None\<close> is a call that never returns. Log lines are left
  out. The messages of Python's own errors are those of Python 3.10, the version the
  repository is tested with.
\<close>

section \<open>The environment of the tasks\<close>

record 'w task_env =
  te_sdks :: "'w llm_sdks"
  te_openai_api_key :: "string option"
  te_anthropic_api_key :: "string option"
  te_libs :: libs
  te_int :: "pyval \<Rightarrow> string + int"

text \<open>\<open>te_int\<close> is the built-in \<open>int\<close> on a parameter: a number, or the text of the error.\<close>

type_synonym 'w task =
  "pricing \<times> 'w \<Rightarrow> (string, pyval) dict \<Rightarrow> (string, pyval) dict \<Rightarrow> ((pricing \<times> 'w) \<times> (string + pyval)) option"

definition attribute_msg :: "pyval \<Rightarrow> string \<Rightarrow> string" where
  "attribute_msg v name =
     [CHR 0x27] @ type_name v @ [CHR 0x27] @ '' object has no attribute '' @ [CHR 0x27] @ name @ [CHR 0x27]"

definition returns :: "string + pyval \<Rightarrow> 's \<Rightarrow> ('s \<times> (string + pyval)) option" where
  "returns r st = Some (st, r)"

section \<open>\<open>parse_text\<close>\<close>

definition sample_text :: string where
  "sample_text = ''Lead inbound: ACME Corp requests a quote for 500 widgets. Priority customer, follow up within 24h.''"

text \<open>
  \<open>chunk_text(text, chunk_size=n, overlap=0)\<close> and then \<open>text.split()\<close> on any value that is
  not false: a list is sliced like a string, and only then has no \<open>split\<close>.
\<close>

fun text_stats :: "pyval \<Rightarrow> int \<Rightarrow> (string + nat \<times> nat \<times> string) option" where
  "text_stats (PyStr s) n =
     map_option (\<lambda>chunks. Inr (length (split_ws s), length chunks, take 80 s)) (chunk_text s FIXED n 0)"
| "text_stats (PyList xs) n =
     map_option (\<lambda>_. Inl (attribute_msg (PyList xs) ''split''))
       (chunk_text (replicate (length xs) (CHR ''x'')) FIXED n 0)"
| "text_stats (PyDict d) n = Some (Inl (''unhashable type: '' @ [CHR 0x27] @ ''slice'' @ [CHR 0x27]))"
| "text_stats v n = Some (Inl (''object of type '' @ [CHR 0x27] @ type_name v @ [CHR 0x27] @ '' has no len()''))"

definition parse_content :: "(string, pyval) dict \<Rightarrow> pyval" where
  "parse_content params =
     (case dget params ''text'' of
        None \<Rightarrow> PyStr sample_text
      | Some v \<Rightarrow> if truthy v then v else PyStr sample_text)"

definition parse_text :: "'w task_env \<Rightarrow> 'w task" where
  "parse_text te st context params =
     (case te_int te (get_default (PyInt 256) params ''chunk_size'') of
        Inl m \<Rightarrow> returns (Inl m) st
      | Inr chunk_size \<Rightarrow>
          (case text_stats (parse_content params) chunk_size of
             None \<Rightarrow> None
           | Some (Inl m) \<Rightarrow> returns (Inl m) st
           | Some (Inr (words, chunks, preview)) \<Rightarrow>
               returns (Inr (PyDict
                 [(PyStr ''status'', PyStr ''parsed''), (PyStr ''word_count'', PyInt (int words)),
                  (PyStr ''chunk_count'', PyInt (int chunks)), (PyStr ''preview'', PyStr preview)])) st))"

section \<open>\<open>_simulate_classification\<close>\<close>

fun hex_value :: "char \<Rightarrow> nat option" where
  "hex_value c =
     (let n = of_char c :: nat
      in if 48 \<le> n \<and> n \<le> 57 then Some (n - 48)
         else if 97 \<le> n \<and> n \<le> 102 then Some (n - 87)
         else if 65 \<le> n \<and> n \<le> 70 then Some (n - 55) else None)"

text \<open>\<open>int(s, 16)\<close> on a string of hexadecimal digits.\<close>

fun hex_from :: "nat \<Rightarrow> string \<Rightarrow> nat option" where
  "hex_from acc [] = Some acc"
| "hex_from acc (c # s) = Option.bind (hex_value c) (\<lambda>d. hex_from (16 * acc + d) s)"

definition int_hex :: "string \<Rightarrow> nat option" where
  "int_hex s = (if s = [] then None else hex_from 0 s)"

definition hits :: "string \<Rightarrow> string \<Rightarrow> nat" where
  "hits content label = count_from (lower content) (lower label)"

text \<open>\<open>sorted(labels, key=..., reverse=True)\<close>, which is stable.\<close>

definition scored :: "string \<Rightarrow> string list \<Rightarrow> string list" where
  "scored content labels = rev (sort_key (\<lambda>label. (hits content label, label)) (rev labels))"

definition simulate_classification :: "libs \<Rightarrow> string \<Rightarrow> string list \<Rightarrow> string + string" where
  "simulate_classification L content labels =
     (let best = (case scored content labels of [] \<Rightarrow> ''uncategorized'' | b # _ \<Rightarrow> b)
      in if best \<noteq> [] \<and> hits content best = 0
         then if labels \<noteq> []
              then (case int_hex (sha256_hex L content) of
                      None \<Rightarrow> Inl (''invalid literal for int() with base 16: '' @ repr_str (sha256_hex L content))
                    | Some i \<Rightarrow> Inr (labels ! (i mod length labels)))
              else Inr ''uncategorized''
         else Inr best)"

section \<open>\<open>classify_with_llm\<close>\<close>

text \<open>\<open>list(v)\<close>.\<close>

fun list_of :: "pyval \<Rightarrow> string + pyval list" where
  "list_of (PyList xs) = Inr xs"
| "list_of (PyStr s) = Inr (map (\<lambda>c. PyStr [c]) s)"
| "list_of (PyDict d) = Inr (map fst d)"
| "list_of v = Inl ([CHR 0x27] @ type_name v @ [CHR 0x27] @ '' object is not iterable'')"

text \<open>The type a value is unhashable for, if it is.\<close>

fun unhashable :: "pyval \<Rightarrow> string option" where
  "unhashable (PyList xs) = Some ''list''"
| "unhashable (PyDict d) = Some ''dict''"
| "unhashable (PyTaskResult out err meta) =
     (case unhashable out of Some t \<Rightarrow> Some t | None \<Rightarrow> Some ''dict'')"
| "unhashable v = None"

text \<open>\<open>context.get(v, "")\<close> for a context with string keys.\<close>

definition context_get :: "(string, pyval) dict \<Rightarrow> pyval \<Rightarrow> string + pyval" where
  "context_get context v =
     (case unhashable v of
        Some t \<Rightarrow> Inl (''unhashable type: '' @ [CHR 0x27] @ t @ [CHR 0x27])
      | None \<Rightarrow> Inr (case v of PyStr k \<Rightarrow> get_default (PyStr []) context k | _ \<Rightarrow> PyStr []))"

definition classified_text :: "(string, pyval) dict \<Rightarrow> (string, pyval) dict \<Rightarrow> string + pyval" where
  "classified_text context params =
     (case (case dget params ''text'' of Some v \<Rightarrow> if truthy v then Some v else None | None \<Rightarrow> None) of
        Some v \<Rightarrow> Inr v
      | None \<Rightarrow>
          (case context_get context (get_default (PyStr []) params ''from_step'') of
             Inl m \<Rightarrow> Inl m
           | Inr v \<Rightarrow> Inr (if py_str v = [] then PyStr ''general inquiry'' else PyStr (py_str v))))"

text \<open>The strings of a list; a value that is not a string has no \<open>lower\<close>.\<close>

fun all_strings :: "pyval list \<Rightarrow> string + string list" where
  "all_strings [] = Inr []"
| "all_strings (PyStr s # vs) = (case all_strings vs of Inl m \<Rightarrow> Inl m | Inr ss \<Rightarrow> Inr (s # ss))"
| "all_strings (v # vs) = Inl (attribute_msg v ''lower'')"

definition simulate :: "libs \<Rightarrow> pyval \<Rightarrow> pyval list \<Rightarrow> string + string" where
  "simulate L content labels =
     (case content of
        PyStr s \<Rightarrow> (case all_strings labels of Inl m \<Rightarrow> Inl m | Inr ls \<Rightarrow> simulate_classification L s ls)
      | v \<Rightarrow> Inl (attribute_msg v ''lower''))"

text \<open>\<open>resp.text.strip().splitlines()[0].lower()\<close>; an \<open>IndexError\<close> for a blank answer.\<close>

definition answer_category :: "string \<Rightarrow> string option" where
  "answer_category answer =
     (let s = strip answer in if s = [] then None else Some (lower (takeWhile (\<lambda>c. \<not> line_break c) s)))"

definition classify_prompt :: "pyval list \<Rightarrow> pyval \<Rightarrow> string" where
  "classify_prompt labels content =
     ''Classify the following text into exactly one of '' @ py_repr (PyList labels)
     @ ''. Reply with only the label.'' @ [char_of (10 :: nat), char_of (10 :: nat)] @ ''Text: '' @ py_str content"

definition no_key :: "string option \<Rightarrow> bool" where
  "no_key k = (case k of None \<Rightarrow> True | Some s \<Rightarrow> s = [])"

text \<open>The attempt at a real call: a category, or nothing when it fails in any way.\<close>

definition llm_category :: "'w task_env \<Rightarrow> pyval \<Rightarrow> string \<Rightarrow> pricing \<times> 'w \<Rightarrow> (pricing \<times> 'w) \<times> string option" where
  "llm_category te model prompt st =
     (case model of
        PyStr m \<Rightarrow>
          (let f = make_factory (case te_openai_api_key te of None \<Rightarrow> NoSecret | Some k \<Rightarrow> PlainSecret k)
                     (case te_anthropic_api_key te of None \<Rightarrow> NoSecret | Some k \<Rightarrow> PlainSecret k)
           in case (if contains_str ''claude'' (lower m)
                    then generate_anthropic (te_sdks te) f m prompt (7/10) 2048 st
                    else generate_openai (te_sdks te) f m prompt (7/10) 2048 st) of
                (st', Inl e) \<Rightarrow> (st', None)
              | (st', Inr resp) \<Rightarrow> (st', answer_category (lr_text resp)))
      | _ \<Rightarrow> (st, None))"

definition default_labels :: "pyval list" where
  "default_labels = [PyStr ''business'', PyStr ''support'', PyStr ''spam'']"

definition category :: "string \<Rightarrow> string \<Rightarrow> (pyval \<times> pyval) list \<Rightarrow> pyval" where
  "category c source extra = PyDict ([(PyStr ''category'', PyStr c), (PyStr ''source'', PyStr source)] @ extra)"

definition simulated :: "'w task_env \<Rightarrow> pyval \<Rightarrow> pyval list \<Rightarrow> string + pyval" where
  "simulated te content labels =
     (case simulate (te_libs te) content labels of Inl m \<Rightarrow> Inl m | Inr c \<Rightarrow> Inr (category c ''sim'' []))"

definition classify_with_llm :: "'w task_env \<Rightarrow> 'w task" where
  "classify_with_llm te st context params =
     (case list_of (get_default (PyList default_labels) params ''labels'') of
        Inl m \<Rightarrow> returns (Inl m) st
      | Inr labels \<Rightarrow>
          (case classified_text context params of
             Inl m \<Rightarrow> returns (Inl m) st
           | Inr content \<Rightarrow>
               (case get_default PyNone params ''mocked_response'' of
                  PyNone \<Rightarrow>
                    if no_key (te_openai_api_key te) \<and> no_key (te_anthropic_api_key te)
                    then returns (simulated te content labels) st
                    else (let model = get_default (PyStr ''gpt-4o-mini'') params ''model''
                          in case llm_category te model (classify_prompt labels content) st of
                               (st', Some c) \<Rightarrow> returns (Inr (category c ''llm'' [(PyStr ''model'', model)])) st'
                             | (st', None) \<Rightarrow> returns (simulated te content labels) st')
                | mocked \<Rightarrow> returns (Inr (category (py_str mocked) ''mock'' [])) st)))"

section \<open>The other tasks and the registry\<close>

definition send_notification :: "'w task" where
  "send_notification st context params =
     returns (Inr (PyDict
       [(PyStr ''status'', PyStr ''sent''),
        (PyStr ''channel'', get_default (PyStr ''email'') params ''channel''),
        (PyStr ''message'', get_default (PyStr ''Workflow step completed.'') params ''message''),
        (PyStr ''context_keys'', PyList (map PyStr (sort (dkeys context))))])) st"

definition always_fail :: "'w task" where
  "always_fail st context params =
     returns (Inl (py_str (get_default (PyStr ''intentional failure'') params ''message''))) st"

definition task_registry :: "'w task_env \<Rightarrow> (string, 'w task) dict" where
  "task_registry te =
     [(''parse_text'', parse_text te), (''classify_with_llm'', classify_with_llm te),
      (''send_notification'', send_notification), (''always_fail'', always_fail)]"

section \<open>Which tasks return\<close>

text \<open>The values that are sliced: strings and lists.\<close>

definition sliceable :: "pyval \<Rightarrow> bool" where
  "sliceable v = ((\<exists>s. v = PyStr s) \<or> (\<exists>xs. v = PyList xs))"

lemma parse_content_truthy: "truthy (parse_content ps)"
  by (auto simp: parse_content_def sample_text_def split: option.split)

lemma text_stats_None_iff:
  assumes "truthy v"
  shows "text_stats v n = None \<longleftrightarrow> sliceable v \<and> n \<le> 0"
  using assms by (cases v) (auto simp: sliceable_def chunk_text_None_iff)

lemma returns_Some [simp]: "returns r st \<noteq> None"
  by (simp add: returns_def)

lemma parse_text_None_iff:
  "parse_text te st ctx ps = None \<longleftrightarrow> sliceable (parse_content ps)
     \<and> (\<exists>n. te_int te (get_default (PyInt 256) ps ''chunk_size'') = Inr n \<and> n \<le> 0)"
proof (cases "te_int te (get_default (PyInt 256) ps ''chunk_size'')")
  case (Inl m)
  then show ?thesis by (simp add: parse_text_def)
next
  case (Inr n)
  then have "parse_text te st ctx ps = None \<longleftrightarrow> text_stats (parse_content ps) n = None"
    by (auto simp: parse_text_def returns_def split: option.split sum.split prod.split)
  with Inr show ?thesis by (simp add: text_stats_None_iff parse_content_truthy)
qed

lemma classify_returns: "classify_with_llm te st ctx ps \<noteq> None"
  by (auto simp: classify_with_llm_def returns_def Let_def split: sum.split option.split pyval.split prod.split)

text \<open>
  C35: of the registered tasks, only \<open>parse_text\<close> can fail to return, and it does so exactly
  when the chunk size in its parameters is zero or negative and the text is a string or a
  list: the chunking loop then never ends, and neither does the run.
\<close>

theorem registered_task_hangs_iff:
  assumes "dget (task_registry te) name = Some f"
  shows "f st ctx ps = None \<longleftrightarrow> name = ''parse_text'' \<and> sliceable (parse_content ps)
     \<and> (\<exists>n. te_int te (get_default (PyInt 256) ps ''chunk_size'') = Inr n \<and> n \<le> 0)"
proof -
  consider "name = ''parse_text''" "f = parse_text te" | "name = ''classify_with_llm''" "f = classify_with_llm te"
    | "name = ''send_notification''" "f = send_notification" | "name = ''always_fail''" "f = always_fail"
    using assms by (auto simp: task_registry_def split: if_splits)
  then show ?thesis
    by cases (simp_all only: parse_text_None_iff classify_returns send_notification_def always_fail_def returns_Some, simp_all)
qed

definition ex_task_env :: "nat task_env" where
  "ex_task_env =
     \<lparr>te_sdks = \<lparr>ls_openai = None, ls_anthropic = None, ls_clock = of_nat, ls_sleep = (\<lambda>d w. Suc w)\<rparr>,
      te_openai_api_key = None, te_anthropic_api_key = None,
      te_libs = (table_libs [])\<lparr>sha256_hex := (\<lambda>s. ''1f'')\<rparr>,
      te_int = (\<lambda>v. case v of PyInt i \<Rightarrow> Inr i | _ \<Rightarrow> Inl ''invalid'')\<rparr>"

theorem registered_task_hangs_iff_witness:
  "parse_text ex_task_env (initial_pricing, 0) [] [(''chunk_size'', PyInt 0)] = None
   \<and> parse_text ex_task_env (initial_pricing, 0) [] [(''chunk_size'', PyInt 8)] \<noteq> None"
proof -
  have f: "dget (task_registry ex_task_env) ''parse_text'' = Some (parse_text ex_task_env)"
    by (simp add: task_registry_def)
  show ?thesis
    unfolding registered_task_hangs_iff [OF f]
    by (simp add: ex_task_env_def sliceable_def parse_content_def get_default_def)
qed

section \<open>The simulated classification\<close>

lemma scored_set [simp]: "set (scored t ls) = set ls"
  by (simp add: scored_def)

lemma scored_best:
  assumes "scored t ls = b # bs" and "l \<in> set ls"
  shows "(hits t l, l) \<le> (hits t b, b)"
proof -
  let ?key = "\<lambda>l. (hits t l, l)"
  let ?s = "sort_key ?key (rev ls)"
  have "rev ?s = b # bs" using assms(1) by (simp add: scored_def)
  then have s: "?s = rev bs @ [b]" by (simp add: rev_swap)
  have "sorted (map ?key ?s)" by simp
  then have "\<forall>x \<in> set (rev bs). ?key x \<le> ?key b" unfolding s by (simp add: sorted_append)
  moreover have "l \<in> set ?s" using assms(2) by simp
  then have "l \<in> set (rev bs) \<or> l = b" unfolding s by auto
  ultimately show ?thesis by auto
qed

text \<open>
  C36: for labels that are not empty, the offline classification always gives one of them:
  one that occurs in the text at least as often as every other (of several the last in
  the alphabet), and when none occurs at all the one the hash of the text selects.
\<close>

theorem simulated_label:
  assumes "labels \<noteq> []" and "[] \<notin> set labels" and "int_hex (sha256_hex L content) = Some i"
  shows "\<exists>c. simulate_classification L content labels = Inr c \<and> c \<in> set labels
    \<and> (if \<exists>l \<in> set labels. 0 < hits content l
       then 0 < hits content c \<and> (\<forall>l \<in> set labels. (hits content l, l) \<le> (hits content c, c))
       else c = labels ! (i mod length labels))"
proof -
  obtain b bs where b: "scored content labels = b # bs"
    using assms(1) scored_set [of content labels] by (cases "scored content labels") auto
  have "b \<in> set labels" using scored_set [of content labels] b by auto
  note best = scored_best [OF b]
  show ?thesis
  proof (cases "\<exists>l \<in> set labels. 0 < hits content l")
    case True
    then obtain l where "l \<in> set labels" "0 < hits content l" by blast
    with best [of l] have "0 < hits content b" by (auto simp: less_eq_prod_def)
    with True b best \<open>b \<in> set labels\<close> show ?thesis
      by (auto simp: simulate_classification_def)
  next
    case False
    with \<open>b \<in> set labels\<close> assms have "b \<noteq> []" "hits content b = 0" by auto
    with False b assms show ?thesis by (auto simp: simulate_classification_def)
  qed
qed

theorem simulated_label_witness:
  "simulate_classification (te_libs ex_task_env) ''Refund my refund'' [''spam'', ''refund''] = Inr ''refund''
   \<and> (\<exists>c \<in> {''spam'', ''sales''}. simulate_classification (te_libs ex_task_env) ''hello'' [''spam'', ''sales''] = Inr c)"
proof -
  have i: "int_hex (sha256_hex (te_libs ex_task_env) content) = Some 31" for content
    by (simp add: ex_task_env_def int_hex_def)
  have h: "hits ''Refund my refund'' ''spam'' = 0" "hits ''Refund my refund'' ''refund'' = 2"
    by code_simp+
  obtain c where c: "simulate_classification (te_libs ex_task_env) ''Refund my refund'' [''spam'', ''refund''] = Inr c"
    "c \<in> {''spam'', ''refund''}" "0 < hits ''Refund my refund'' c"
    using simulated_label [OF _ _ i, of "[''spam'', ''refund'']" "''Refund my refund''"] h by auto
  moreover from c h have "c = ''refund''" by auto
  ultimately show ?thesis
    using simulated_label [OF _ _ i, of "[''spam'', ''sales'']" "''hello''"] by auto
qed

end
