(* ===== verification/Worker.thy ===== *)
theory Worker
  imports Api
begin

text \<open>
  \<open>worker.py\<close> and the probe of \<open>db.py\<close>: the Celery task that runs a queued workflow, and
  the beat task that fires due schedules. A worker is a process of its own: it has the same
  code and configuration as the API and shares only the database with it. What Celery does
  with a task that asks to be retried is its documented behaviour: the message is delivered
  again until \<open>max_retries\<close> retries were made, and then the exception is final.
\<close>

section \<open>The probe\<close>

text \<open>
  \<open>probe_database\<close>: whether the database can be reached and its tables created, remembered
  for the process. The outcome of the connection attempt is \<^const>\<open>nv_probe\<close>.
\<close>

definition probe_database :: "'w env \<Rightarrow> 'w process \<Rightarrow> 'w process" where
  "probe_database env p = p\<lparr>pr_db_available := nv_probe env (pr_world p)\<rparr>"

text \<open>The start of the API process (\<open>lifespan\<close> of \<open>main.py\<close>).\<close>

definition lifespan :: "'w env \<Rightarrow> 'w process \<Rightarrow> 'w process" where
  "lifespan env p = probe_database env p"

section \<open>\<open>run_workflow_task\<close>\<close>

definition worker_args :: "'w env \<Rightarrow> 'w process services \<Rightarrow> string option \<Rightarrow> string option \<Rightarrow> int option \<Rightarrow> 'w run_args" where
  "worker_args env sv run_id version_hash concurrency_limit =
     \<lparr>ra_run_id = run_id, ra_registry = [],
      ra_concurrency = Some (case concurrency_limit of None \<Rightarrow> nv_concurrency_limit env | Some n \<Rightarrow> n),
      ra_typed_io = None, ra_trace = Some (new_trace None run_id), ra_services = Some sv,
      ra_version_hash = version_hash, ra_events = Some sv\<rparr>"

text \<open>A version the worker's store does not have is put there before the run.\<close>

definition ensure_version :: "'w process services \<Rightarrow> string option \<Rightarrow> string \<Rightarrow> 'w process \<Rightarrow> 'w process \<times> (exn + unit)" where
  "ensure_version sv version_hash yaml_definition =
     (case version_hash of
        None \<Rightarrow> return_st ()
      | Some h \<Rightarrow>
          bind_st (sv_version_get sv h) (\<lambda>v.
            if v = None then bind_st (sv_version_put sv yaml_definition) (\<lambda>_. return_st ()) else return_st ()))"

definition run_task_body :: "'w env \<Rightarrow> string \<Rightarrow> string option \<Rightarrow> string option \<Rightarrow> int option \<Rightarrow> 'w operation" where
  "run_task_body env yaml_definition run_id version_hash concurrency_limit p =
     (let storage = get_storage env p; sv = get_runtime_services (nv_libs env) p
      in bind_st (ensure_version sv version_hash yaml_definition) (\<lambda>_.
           run_workflow env yaml_definition storage (worker_args env sv run_id version_hash concurrency_limit)) p)"

text \<open>\<open>self.retry(exc=exc, countdown=2)\<close>: a retry while some are left, or the exception.\<close>

datatype outcome = Done "(string, pyval) dict" | Retry exn | Failed exn

definition max_retries :: nat where
  "max_retries = 2"

definition retry :: "nat \<Rightarrow> exn \<Rightarrow> outcome" where
  "retry retries e = (if retries < max_retries then Retry e else Failed e)"

definition run_workflow_task :: "'w env \<Rightarrow> nat \<Rightarrow> string \<Rightarrow> string option \<Rightarrow> string option \<Rightarrow> int option
    \<Rightarrow> 'w process \<Rightarrow> 'w process \<times> outcome" where
  "run_workflow_task env retries yaml_definition run_id version_hash concurrency_limit p =
     (case run_task_body env yaml_definition run_id version_hash concurrency_limit (probe_database env p) of
        (p', Inr result) \<Rightarrow> (p', Done result)
      | (p', Inl e) \<Rightarrow> (p', retry retries e))"

text \<open>The deliveries of one message: \<open>between\<close> is what happens in the process until the next.\<close>

function deliver :: "'w env \<Rightarrow> ('w process \<Rightarrow> 'w process) \<Rightarrow> nat \<Rightarrow> string \<Rightarrow> string option \<Rightarrow> string option \<Rightarrow> int option
    \<Rightarrow> 'w process \<Rightarrow> 'w process \<times> (exn + (string, pyval) dict)" where
  "deliver env between retries y run_id h n p =
     (case run_workflow_task env retries y run_id h n p of
        (p', Done result) \<Rightarrow> (p', Inr result)
      | (p', Failed e) \<Rightarrow> (p', Inl e)
      | (p', Retry e) \<Rightarrow> deliver env between (Suc retries) y run_id h n (between p'))"
  by pat_completeness auto
termination
  by (relation "measure (\<lambda>(env, between, retries, y, run_id, h, n, p). Suc max_retries - retries)")
    (auto simp: run_workflow_task_def retry_def max_retries_def split: prod.splits sum.splits if_splits)

declare deliver.simps [simp del]

section \<open>The beat task\<close>

definition run_due_definition :: "'w env \<Rightarrow> string \<Rightarrow> 'w operation" where
  "run_due_definition env yaml_definition p0 =
     (let p = probe_database env p0; sv = get_runtime_services (nv_libs env) p
      in run_workflow env yaml_definition (get_storage env p)
           \<lparr>ra_run_id = None, ra_registry = [], ra_concurrency = Some (nv_concurrency_limit env), ra_typed_io = None,
            ra_trace = Some (new_trace None None), ra_services = Some sv, ra_version_hash = None, ra_events = Some sv\<rparr> p)"

definition beat_tick :: "'w env \<Rightarrow> 'w operation" where
  "beat_tick env p0 =
     (if \<not> nv_beat env then (p0, Inr [(''dispatched'', PyList [])])
      else (let p = probe_database env p0; sv = get_runtime_services (nv_libs env) p
            in bind_st (dispatch_due (nv_libs env) (sv_schedules sv) (Some (sv_claim sv))
                          (\<lambda>p. nv_clock env (pr_world p)) (run_due_definition env) None) (\<lambda>rows.
                 return_st [(''dispatched'', PyList (map py_str_dict rows))]) p))"

section \<open>The active version store\<close>

text \<open>What the two operations of the version store do on whichever backend is active.\<close>

lemma version_ops_available:
  "sv_version_put (get_runtime_services L p) y p = (p', r) \<Longrightarrow> pr_db_available p' = pr_db_available p"
  "sv_version_get (get_runtime_services L p) h p = (p', g) \<Longrightarrow> pr_db_available p' = pr_db_available p"
  by (auto simp: get_runtime_services_def database_services_def in_memory_def lift_op_def set_part_defs
      split: if_splits prod.splits)

lemma version_put_active:
  fixes p :: "'w process" and env :: "'w env"
  assumes "consistent p" and "sv_version_put (get_runtime_services (nv_libs env) p) y p = (p', r)"
  shows "consistent p' \<and> stored_runs p' = stored_runs p
    \<and> (case r of
          Inl e \<Rightarrow> stored_versions p' = stored_versions p
        | Inr v \<Rightarrow> canonical_yaml_hash (nv_libs env) y = Inr (vr_content_hash v)
            \<and> stored_versions p' = (stored_versions p)(vr_content_hash v \<mapsto>
                (case stored_versions p (vr_content_hash v) of None \<Rightarrow> y | Some y0 \<Rightarrow> y0)))"
proof -
  obtain ops recorded good image_of sv versions where b: "run_backend ops recorded good image_of (nv_libs env) sv versions"
    and sv: "get_runtime_services (nv_libs env) p = sv" and g: "good p"
    and views: "\<forall>p'. pr_db_available p' = pr_db_available p \<longrightarrow>
      stored_runs p' = recorded p' \<and> stored_versions p' = versions p' \<and> consistent p' = good p'"
    using active_backend [OF assms(1), of env] .
  note vs = run_backend.axioms(2) [OF b]
  have put: "sv_version_put sv y p = (p', r)" using assms(2) sv by simp
  have "pr_db_available p' = pr_db_available p" by (rule version_ops_available(1) [OF assms(2)])
  with views have v: "stored_runs p' = recorded p'" "stored_runs p = recorded p" "stored_versions p' = versions p'"
    "stored_versions p = versions p" "consistent p' = good p'" by simp_all
  show ?thesis
    unfolding v
    using version_store.put_good [OF vs g put] run_backend.put_frame [OF b put] version_store.put_ok [OF vs g]
      version_store.put_raises [OF vs g] put
    by (cases r) simp_all
qed

lemma version_get_active:
  fixes p :: "'w process" and env :: "'w env"
  assumes "consistent p" and "sv_version_get (get_runtime_services (nv_libs env) p) h p = (p', r)"
  shows "consistent p' \<and> stored_runs p' = stored_runs p \<and> stored_versions p' = stored_versions p
    \<and> (\<forall>v. r = Inr v \<longrightarrow>
        v = map_option (\<lambda>y. \<lparr>vr_content_hash = h, vr_yaml_definition = y\<rparr>) (stored_versions p h))"
proof -
  obtain ops recorded good image_of sv versions where b: "run_backend ops recorded good image_of (nv_libs env) sv versions"
    and sv: "get_runtime_services (nv_libs env) p = sv" and g: "good p"
    and views: "\<forall>p'. pr_db_available p' = pr_db_available p \<longrightarrow>
      stored_runs p' = recorded p' \<and> stored_versions p' = versions p' \<and> consistent p' = good p'"
    using active_backend [OF assms(1), of env] .
  have get: "sv_version_get sv h p = (p', r)" using assms(2) sv by simp
  have "pr_db_available p' = pr_db_available p" by (rule version_ops_available(2) [OF assms(2)])
  with views have v: "stored_runs p' = recorded p'" "stored_runs p = recorded p" "stored_versions p' = versions p'"
    "stored_versions p = versions p" "consistent p' = good p'" by simp_all
  show ?thesis
    unfolding v
    using version_store.get_ok [OF run_backend.axioms(2) [OF b] g get] run_backend.get_frame [OF b get] by simp
qed

section \<open>A worker's run\<close>

text \<open>
  A run the worker finishes: it recorded the definition stored under the hash of the
  message, or the definition in the message when its store had none.
\<close>

lemma run_task_records:
  assumes "consistent p" and "run_task_body env y (Some rid) (Some h) n p = (p', Inr result)" and "rid \<noteq> []"
    and "stored_versions p h = Some d"
  shows "pr_db_available p' = pr_db_available p \<and> (\<exists>config k r.
    load_workflow_yaml (nv_libs env) d = Inr config \<and> canonical_yaml_hash (nv_libs env) d = Inr k
    \<and> consistent p' \<and> stored_runs p' = (stored_runs p)(rid \<mapsto> r)
    \<and> rr_run_id r = rid \<and> rr_workflow_name r = wf_name config \<and> rr_yaml_definition r = d \<and> rr_version_hash r = Some k
    \<and> dget result ''run_id'' = Some (PyStr rid) \<and> dget result ''status'' = Some (PyStr (rr_status r))
    \<and> dget result ''step_statuses'' = Some (py_str_values (rr_step_statuses r)))"
proof -
  let ?sv = "get_runtime_services (nv_libs env) p"
  obtain p1 where e: "ensure_version ?sv (Some h) y p = (p1, Inr ())"
    and run: "run_workflow env y (get_storage env p) (worker_args env ?sv (Some rid) (Some h) n) p1 = (p', Inr result)"
    using assms(2) by (auto simp: run_task_body_def Let_def dest!: bind_st_Inr)
  obtain p2 v where g: "sv_version_get ?sv h p = (p2, Inr v)"
    and e2: "(if v = None then bind_st (sv_version_put ?sv y) (\<lambda>_. return_st ()) else return_st ()) p2 = (p1, Inr ())"
    using e by (auto simp: ensure_version_def dest!: bind_st_Inr)
  note get = version_get_active [OF assms(1) g]
  have "v \<noteq> None" using get assms(4) by simp
  with e2 have p1: "p1 = p2" by (simp add: return_st_def)
  have av: "pr_db_available p1 = pr_db_available p" using version_ops_available(2) [OF g] p1 by simp
  have same: "get_runtime_services (nv_libs env) p = get_runtime_services (nv_libs env) p1" "get_storage env p = get_storage env p1"
    using av by (simp_all add: get_runtime_services_def get_storage_def)
  have c1: "consistent p1" and st: "stored_versions p1 = stored_versions p" "stored_runs p1 = stored_runs p"
    using get p1 by simp_all
  let ?a = "worker_args env (get_runtime_services (nv_libs env) p1) (Some rid) (Some h) n"
  have a: "ra_services ?a = Some (get_runtime_services (nv_libs env) p1)"
    "ra_events ?a \<in> {None, Some (get_runtime_services (nv_libs env) p1)}"
    "ra_version_hash ?a = Some h" "ra_run_id ?a = Some rid"
    by (simp_all add: worker_args_def)
  from run_workflow_active [OF c1 a(1,2) run [unfolded same]] a(3,4) assms(3,4) av st show ?thesis by auto
qed

end
