(* ===== verification/Progress.thy ===== *)
theory Progress
  imports Invariants
begin

text \<open>
  Total correctness of stateful operations: \<open>yields Q m p\<close> says that \<open>m\<close> started in \<open>p\<close>
  returns a value, with \<open>Q\<close> of the final state and the value. With the execution's
  termination this gives that a run request that can be served is served.
\<close>

section \<open>Operations that return\<close>

definition yields :: "('s \<Rightarrow> 'a \<Rightarrow> bool) \<Rightarrow> ('s \<Rightarrow> 's \<times> (exn + 'a)) \<Rightarrow> 's \<Rightarrow> bool" where
  "yields Q m p \<longleftrightarrow> (\<exists>p' x. m p = (p', Inr x) \<and> Q p' x)"

named_theorems yields_intros \<open>operations that return\<close>

lemma yieldsI: "m p = (p', Inr x) \<Longrightarrow> Q p' x \<Longrightarrow> yields Q m p"
  by (auto simp: yields_def)

lemma yields_bind:
  assumes "yields R m p" and "\<And>p' x. R p' x \<Longrightarrow> yields Q (f x) p'"
  shows "yields Q (bind_st m f) p"
proof -
  obtain p' x where "m p = (p', Inr x)" "R p' x" using assms(1) by (auto simp: yields_def)
  with assms(2) [OF this(2)] show ?thesis by (simp add: yields_def bind_st_def)
qed

lemma yields_return [yields_intros]: "Q p x \<Longrightarrow> yields Q (return_st x) p"
  by (simp add: yields_def return_st_def)

lemma yields_catch [yields_intros]: "yields Q m p \<Longrightarrow> yields Q (catch_st m h) p"
  by (auto simp: yields_def catch_st_def)

lemma yields_lift_sum [yields_intros]: "s = Inr x \<Longrightarrow> Q p x \<Longrightarrow> yields Q (lift_sum s) p"
  by (simp add: yields_def lift_sum_def)

lemma yields_mono: "yields R m p \<Longrightarrow> (\<And>p' x. R p' x \<Longrightarrow> Q p' x) \<Longrightarrow> yields Q m p"
  by (auto simp: yields_def)

section \<open>A run in memory\<close>

definition run_over :: "(string, pyval) dict \<Rightarrow> bool" where
  "run_over result \<longleftrightarrow> dget result ''status'' \<in> {Some (PyStr ''completed''), Some (PyStr ''failed'')}"

text \<open>A definition this deployment can run: it loads, and its tasks and back-offs are in range.\<close>

definition runnable :: "'w env \<Rightarrow> string \<Rightarrow> bool" where
  "runnable env y \<longleftrightarrow> (\<exists>config. load_workflow_yaml (nv_libs env) y = Inr config
     \<and> (\<forall>s \<in> set (wf_steps config). dget (nv_registry env) (st_task s) \<noteq> None \<and> st_retries s \<le> 1024))"

lemma execute_config_yields:
  assumes "load_workflow_yaml L y = Inr config"
    and "\<forall>s \<in> set (wf_steps config). dget (nv_registry env) (st_task s) \<noteq> None \<and> st_retries s \<le> 1024"
  shows "yields (\<lambda>p' st. overall_status st \<in> {''completed'', ''failed''} \<and> (\<exists>w. p' = p\<lparr>pr_world := w\<rparr>))
    (execute_config env config [] c ti tr) p"
proof -
  let ?en = "make_engine env config [] c ti"
  have wf: "wf_workflow (en_config ?en)" using load_wf [OF assms(1)] by (simp add: make_engine_def)
  have run: "runnable_steps ?en (wf_steps (en_config ?en))"
    using assms(2) by (simp add: runnable_steps_def make_engine_def)
  obtain st r where ex: "execute ?en (nv_choices env (pr_world p)) (init_exec (en_config ?en) tr (pr_world p)) = (st, r)"
    by force
  note fin = execute_end [OF wf run ex]
  have "overall_status st \<in> {''completed'', ''failed''}"
    using overall_status_settled [OF fin(4,5)] fin(3) by auto
  moreover have "execute_config env config [] c ti tr p = (p\<lparr>pr_world := ex_world st\<rparr>, Inr st)"
    using ex fin(1) by (simp add: execute_config_def make_engine_def)
  ultimately show ?thesis by (auto intro: yieldsI)
qed

text \<open>The services of a process without a database never raise on a definition that loads.\<close>

lemma load_hash: "load_workflow_yaml L y = Inr config \<Longrightarrow> \<exists>h. canonical_yaml_hash L y = Inr h"
  by (auto simp: load_workflow_yaml_def canonical_yaml_hash_def split: sum.splits)

lemma in_memory_put_yields:
  assumes "canonical_yaml_hash L y = Inr h"
  shows "yields (\<lambda>p' v. True) (sv_version_put (in_memory L) y) p"
  using assms
  by (auto simp: yields_def in_memory_def lift_op_def version_put_def Let_def split: option.split)

lemma in_memory_events_yields: "yields (\<lambda>p' v. True) (sv_events_save (in_memory L) rid es) p"
  by (simp add: yields_def in_memory_def lift_op_def)

lemma offline_save_yields: "yields (\<lambda>p' v. True) (sg_save_run (offline_storage env) i) p"
  by (auto simp: yields_def offline_storage_def with_fresh_def bind_st_def draw_uuid_def lift_op_def mem_save_run_def
      return_st_def Let_def)

lemma fix_run_id_yields: "yields (\<lambda>p' x. True) (fix_run_id env a) p"
  by (auto simp: yields_def fix_run_id_def bind_st_def draw_uuid_def return_st_def split: option.split)

lemma run_workflow_yields:
  assumes y: "load_workflow_yaml (nv_libs env) y = Inr config"
      "\<forall>s \<in> set (wf_steps config). dget (nv_registry env) (st_task s) \<noteq> None \<and> st_retries s \<le> 1024"
    and a: "ra_services a = Some (in_memory (nv_libs env))" "ra_events a = Some (in_memory (nv_libs env))"
      "ra_version_hash a = None" "ra_registry a = []"
  shows "yields (\<lambda>p' result. run_over result) (run_workflow env y (offline_storage env) a) p"
proof -
  obtain h where h: "canonical_yaml_hash (nv_libs env) y = Inr h" using load_hash [OF y(1)] by blast
  have last: "yields (\<lambda>p' result. run_over result)
      (save_events a saved st (version_entry v (run_result config st saved))) q"
    if "overall_status st \<in> {''completed'', ''failed''}" for saved st v q
  proof -
    have over: "run_over (version_entry v (run_result config st saved))"
      using that by (auto simp: run_over_def version_entry_def run_result_def split: option.split)
    then have "run_over (dset ''events'' e (version_entry v (run_result config st saved)))" for e
      by (simp add: run_over_def)
    with over show ?thesis
      by (auto simp: save_events_def a(2) Let_def split: option.split intro!: yields_intros
          yields_bind [OF in_memory_events_yields])
  qed
  have pinned: "pinned_definition a y = return_st y" by (simp add: pinned_definition_def a(3))
  have store: "yields (\<lambda>p' v. True) (store_version a y) q" for q
    by (auto simp: store_version_def a(1) intro!: yields_bind [OF in_memory_put_yields [OF h]] yields_intros)
  have exec: "yields (\<lambda>p' st. overall_status st \<in> {''completed'', ''failed''})
      (execute_config env config [] c ti tr) q" for c ti tr q
    by (rule yields_mono [OF execute_config_yields [OF y]]) simp
  show ?thesis
    unfolding run_workflow_def pinned y(1) a(4)
    apply (rule yields_bind [OF fix_run_id_yields])
    apply (simp only: split_beta)
    apply (rule yields_bind [OF yields_return [of "\<lambda>p x. x = y"], OF refl])
    apply (simp only:)
    apply (rule yields_bind [OF store])
    apply (simp only: y(1))
    apply (rule yields_bind [OF yields_lift_sum [of _ config "\<lambda>p x. x = config"], OF refl refl])
    apply (simp only:)
    apply (rule yields_bind [OF exec])
    apply (rule yields_bind [OF offline_save_yields])
    apply (erule last)
    done
qed

section \<open>A request\<close>

text \<open>The lock of a free key is taken, and the block runs.\<close>

lemma with_memory_lock_yields:
  assumes "key \<notin> set (pr_locks p)" and "\<And>ks. yields (\<lambda>p' x. Q x) (body True) (p\<lparr>pr_locks := ks\<rparr>)"
  shows "yields (\<lambda>p' x. Q x) (with_memory_lock key body) p"
proof -
  obtain q where "lock_enter key (pr_locks p) = (q, True)"
    using assms(1) by (auto simp: lock_enter_def)
  moreover obtain p' x where "body True (p\<lparr>pr_locks := q\<rparr>) = (p', Inr x)" "Q x"
    using assms(2) [of q] by (auto simp: yields_def)
  ultimately show ?thesis by (auto simp: yields_def with_memory_lock_def)
qed

lemma dispatch_yields:
  assumes "runnable env y" and "\<not> pr_db_available p" and "\<not> nv_async env" and "\<not> nv_redis_locking env"
    and "\<forall>h. canonical_yaml_hash (nv_libs env) y = Inr h \<longrightarrow> ''workflow:'' @ h \<notin> set (pr_locks p)"
  shows "yields (\<lambda>p' body. run_over body) (dispatch env y None False None) p"
proof -
  obtain config where y: "load_workflow_yaml (nv_libs env) y = Inr config"
      "\<forall>s \<in> set (wf_steps config). dget (nv_registry env) (st_task s) \<noteq> None \<and> st_retries s \<le> 1024"
    using assms(1) by (auto simp: runnable_def)
  obtain h where h: "canonical_yaml_hash (nv_libs env) y = Inr h" using load_hash [OF y(1)] by blast
  let ?sv = "in_memory (nv_libs env)"
  have exec: "yields (\<lambda>p' x. run_over x) (dispatch_execute env y (dispatch_args env ?sv t r None)) q"
    if "\<not> pr_db_available q" for t r q
    using run_workflow_yields [OF y, of "dispatch_args env ?sv t r None" q] that
    by (simp add: yields_def dispatch_execute_def get_storage_def dispatch_args_def)
  define q where "q = p\<lparr>pr_uuids := Suc (Suc (pr_uuids p))\<rparr>"
  let ?a = "dispatch_args env ?sv (nv_uuid env (Suc (pr_uuids p))) (nv_uuid env (pr_uuids p)) None"
  have "yields (\<lambda>p' x. run_over x)
      (if nv_locking env
       then bind_st (lift_sum (canonical_yaml_hash (nv_libs env) y)) (\<lambda>h.
              with_lock env (''workflow:'' @ h) (locked_execute env y ?a))
       else dispatch_execute env y ?a) q" (is "yields _ ?run q")
  proof (cases "nv_locking env")
    case True
    have "yields (\<lambda>p' x. run_over x) (with_memory_lock (''workflow:'' @ h) (locked_execute env y ?a)) q"
      by (rule with_memory_lock_yields) (use assms(2,5) h exec in \<open>simp_all add: q_def locked_execute_def\<close>)
    with True h assms(4) show ?thesis by (simp add: yields_def bind_st_def lift_sum_def with_lock_def)
  next
    case False
    with exec [of q] assms(2) show ?thesis by (simp add: q_def)
  qed
  then have "yields (\<lambda>p' x. run_over x) (bind_st ?run (\<lambda>result. return_st (dset ''dispatched'' (PyStr ''sync'') result))) q"
    by (rule yields_bind) (simp add: yields_def return_st_def run_over_def)
  moreover have "dispatch env y None False None p
      = bind_st ?run (\<lambda>result. return_st (dset ''dispatched'' (PyStr ''sync'') result)) q"
    using assms(2,3)
    by (simp add: dispatch_def dispatch_sync_def active_services_def get_runtime_services_def empty_key_def bind_st_def
        draw_uuid_def Let_def q_def)
  ultimately show ?thesis by (simp add: yields_def)
qed

text \<open>Without a database a fresh key is granted, and the request comes to its dispatch.\<close>

lemma claim_fresh:
  assumes "\<not> pr_db_available p" and "\<forall>k. key = Some k \<longrightarrow> (ns, k) \<notin> set (pr_claims p)"
  shows "\<exists>cs. claim_idempotency env ns key p = (p\<lparr>pr_claims := cs\<rparr>, Inr ())"
proof (cases "empty_key key")
  case True
  then show ?thesis by (intro exI [of _ "pr_claims p"]) (simp add: claim_idempotency_def)
next
  case False
  then obtain k where k: "key = Some k" "k \<noteq> []" by (cases key) (auto simp: empty_key_def)
  with assms show ?thesis
    by (intro exI [of _ "(ns, k) # pr_claims p"])
      (simp add: claim_idempotency_def bind_st_def return_st_def active_services_def get_runtime_services_def
        in_memory_def lift_op_def claim_def set_claims_def empty_key_def)
qed



end
