(* ===== verification/Cache.thy ===== *)
theory Cache
  imports Locks
begin

text \<open>
  \<open>internal/vendor_core/redis.py\<close>: the connection with its retries, the decorator that
  caches the results of a function and the blocking lock. The cache is shown over the
  repository's own mock of a Redis client (theory \<open>Locks\<close>), with commands that may fail;
  the connection and the lock take the client, the clock and \<open>time.sleep\<close> as arguments. A
  lock that is waited for and never decided is the value \<^const>\<open>None\<close>.
\<close>

section \<open>\<open>RedisManager\<close>\<close>

text \<open>A client's \<open>ping\<close> answers or raises a \<open>RedisError\<close> with a text.\<close>

type_synonym 'w ping = "'w \<Rightarrow> 'w \<times> (string + bool)"

definition manager_ping :: "'w ping \<Rightarrow> 'w \<Rightarrow> 'w \<times> bool" where
  "manager_ping ping w = (case ping w of (w', Inl e) \<Rightarrow> (w', False) | (w', Inr b) \<Rightarrow> (w', b))"

text \<open>The loop of \<open>connect\<close> from an attempt on: \<open>Inl\<close> is the error of the last ping.\<close>

function connect_from :: "'w ping \<Rightarrow> (rat \<Rightarrow> 'w \<Rightarrow> 'w) \<Rightarrow> int \<Rightarrow> rat \<Rightarrow> nat \<Rightarrow> 'w \<Rightarrow> 'w \<times> (string + unit)" where
  "connect_from ping sleep max_retries backoff_factor attempt w =
     (if int attempt < max_retries
      then (case ping w of
              (w', Inr _) \<Rightarrow> (w', Inr ())
            | (w', Inl e) \<Rightarrow>
                if int attempt = max_retries - 1 then (w', Inl e)
                else connect_from ping sleep max_retries backoff_factor (Suc attempt)
                       (sleep (backoff_factor * 2 ^ attempt) w'))
      else (w, Inr ()))"
  by pat_completeness auto
termination
  by (relation "measure (\<lambda>(ping, sleep, n, b, attempt, w). nat (n - int attempt))") auto

declare connect_from.simps [simp del]

definition connect :: "'w ping \<Rightarrow> (rat \<Rightarrow> 'w \<Rightarrow> 'w) \<Rightarrow> int \<Rightarrow> rat \<Rightarrow> 'w \<Rightarrow> 'w \<times> (string + unit)" where
  "connect ping sleep max_retries backoff_factor w = connect_from ping sleep max_retries backoff_factor 0 w"

text \<open>
  The client of a manager: it is made when it is first asked for, and \<open>close\<close> drops it. The
  clients that were made are numbered; those that were closed are listed.
\<close>

record redis_manager =
  rm_client :: "nat option"
  rm_made :: nat
  rm_closed :: "nat list"

definition new_manager :: redis_manager where
  "new_manager = \<lparr>rm_client = None, rm_made = 0, rm_closed = []\<rparr>"

definition manager_client :: "redis_manager \<Rightarrow> redis_manager \<times> nat" where
  "manager_client m =
     (case rm_client m of
        Some c \<Rightarrow> (m, c)
      | None \<Rightarrow> (m\<lparr>rm_client := Some (rm_made m), rm_made := Suc (rm_made m)\<rparr>, rm_made m))"

definition manager_close :: "redis_manager \<Rightarrow> redis_manager" where
  "manager_close m =
     (case rm_client m of
        Some c \<Rightarrow> m\<lparr>rm_client := None, rm_closed := rm_closed m @ [c]\<rparr>
      | None \<Rightarrow> m)"

text \<open>
  Whatever is called in whatever order, a client that was made is either the current one or
  was closed, and none is closed twice: a manager leaks no connection pool.
\<close>

inductive manager_reachable :: "redis_manager \<Rightarrow> bool" where
  new: "manager_reachable new_manager"
| client: "manager_reachable m \<Longrightarrow> manager_reachable (fst (manager_client m))"
| close: "manager_reachable m \<Longrightarrow> manager_reachable (manager_close m)"

theorem manager_leaks_nothing:
  assumes "manager_reachable m"
  shows "rm_closed m @ (case rm_client m of None \<Rightarrow> [] | Some c \<Rightarrow> [c]) = [0..<rm_made m]"
  using assms
  by (induction rule: manager_reachable.induct)
    (auto simp: new_manager_def manager_client_def manager_close_def split: option.splits)

section \<open>The cache decorator\<close>

definition cache_key :: "(string \<Rightarrow> string) \<Rightarrow> string \<Rightarrow> string \<Rightarrow> string \<Rightarrow> string \<Rightarrow> string" where
  "cache_key md5_hex key_prefix func_name args_str kwargs_str =
     key_prefix @ '':'' @ func_name @ '':'' @ md5_hex (args_str @ '':'' @ kwargs_str)"

text \<open>
  The state a cached call works on, and the failures of its two commands. \<open>json.loads\<close> and
  \<open>json.dumps\<close> are arguments; \<^const>\<open>None\<close> is an exception.
\<close>

record cache_state =
  ca_now :: int
  ca_redis :: redis
  ca_misses :: nat

definition redis_setex :: "int \<Rightarrow> string \<Rightarrow> int \<Rightarrow> string \<Rightarrow> redis \<Rightarrow> redis" where
  "redis_setex now key ex v r =
     r\<lparr>rd_data := dset key v (rd_data r),
       rd_ttls := (if ex \<noteq> 0 then dset key (now + ex) (rd_ttls r) else ddel key (rd_ttls r))\<rparr>"

definition cache_lookup :: "(string \<Rightarrow> 'b option) \<Rightarrow> bool \<Rightarrow> string \<Rightarrow> cache_state \<Rightarrow> cache_state \<times> 'b option" where
  "cache_lookup loads get_fails key c =
     (if get_fails then (c, None)
      else case redis_get (ca_now c) key (ca_redis c) of
             (r, v) \<Rightarrow>
               (c\<lparr>ca_redis := r\<rparr>,
                case v of None \<Rightarrow> None | Some s \<Rightarrow> if s = [] then None else loads s))"

definition cache_store :: "('b \<Rightarrow> string option) \<Rightarrow> int \<Rightarrow> bool \<Rightarrow> string \<Rightarrow> 'b \<Rightarrow> cache_state \<Rightarrow> cache_state" where
  "cache_store dumps expire set_fails key result c =
     (case dumps result of
        None \<Rightarrow> c
      | Some s \<Rightarrow> if set_fails then c else c\<lparr>ca_redis := redis_setex (ca_now c) key expire s (ca_redis c)\<rparr>)"

text \<open>One call of the wrapped function (the synchronous and the asynchronous wrapper are the same code).\<close>

definition cached_call :: "(string \<Rightarrow> 'b option) \<Rightarrow> ('b \<Rightarrow> string option) \<Rightarrow> int \<Rightarrow> ('a \<Rightarrow> string) \<Rightarrow> ('a \<Rightarrow> 'b)
    \<Rightarrow> bool \<times> bool \<Rightarrow> 'a \<Rightarrow> cache_state \<Rightarrow> cache_state \<times> 'b" where
  "cached_call loads dumps expire key_of f faults args c =
     (case cache_lookup loads (fst faults) (key_of args) c of
        (c1, Some v) \<Rightarrow> (c1, v)
      | (c1, None) \<Rightarrow>
          (let result = f args; c2 = c1\<lparr>ca_misses := Suc (ca_misses c1)\<rparr>
           in (cache_store dumps expire (snd faults) (key_of args) result c2, result)))"

text \<open>Calls one after another, each some time after the last and with its own failures.\<close>

fun cached_calls :: "(string \<Rightarrow> 'b option) \<Rightarrow> ('b \<Rightarrow> string option) \<Rightarrow> int \<Rightarrow> ('a \<Rightarrow> string) \<Rightarrow> ('a \<Rightarrow> 'b)
    \<Rightarrow> (int \<times> (bool \<times> bool) \<times> 'a) list \<Rightarrow> cache_state \<Rightarrow> cache_state \<times> 'b list" where
  "cached_calls loads dumps expire key_of f [] c = (c, [])"
| "cached_calls loads dumps expire key_of f ((elapsed, faults, args) # rest) c =
     (case cached_call loads dumps expire key_of f faults args (c\<lparr>ca_now := ca_now c + elapsed\<rparr>) of
        (c1, v) \<Rightarrow>
          (case cached_calls loads dumps expire key_of f rest c1 of (c2, vs) \<Rightarrow> (c2, v # vs)))"

section \<open>\<open>RedisLock\<close>\<close>

text \<open>
  \<open>__enter__\<close> (and its asynchronous twin): \<open>claim\<close> is the \<open>SET NX EX\<close>, \<open>sleep\<close> the pause of a
  tenth of a second and whatever other clients do in it. The flag is whether the lock was
  acquired; otherwise a \<open>TimeoutError\<close> is raised.
\<close>

partial_function (option) wait_lock :: "('w \<Rightarrow> rat) \<Rightarrow> ('w \<Rightarrow> 'w \<times> bool) \<Rightarrow> ('w \<Rightarrow> 'w) \<Rightarrow> rat \<Rightarrow> 'w \<Rightarrow> ('w \<times> bool) option" where
  "wait_lock clock claim sleep until w =
     (if clock w < until
      then (case claim w of
              (w', acquired) \<Rightarrow> if acquired then Some (w', True) else wait_lock clock claim sleep until (sleep w'))
      else Some (w, False))"

definition lock_key :: "string \<Rightarrow> string" where
  "lock_key lock_name = ''lock:'' @ lock_name"

definition lock_claim :: "('w \<Rightarrow> int) \<Rightarrow> ('w \<Rightarrow> redis) \<Rightarrow> (redis \<Rightarrow> 'w \<Rightarrow> 'w) \<Rightarrow> string \<Rightarrow> string \<Rightarrow> int \<Rightarrow> 'w \<Rightarrow> 'w \<times> bool" where
  "lock_claim now get put lock_name lock_value expire_seconds w =
     (case redis_set_nx (now w) (lock_key lock_name) lock_value expire_seconds (get w) of
        (r, b) \<Rightarrow> (put r w, b))"

definition lock_acquire :: "('w \<Rightarrow> rat) \<Rightarrow> ('w \<Rightarrow> 'w \<times> bool) \<Rightarrow> ('w \<Rightarrow> 'w) \<Rightarrow> rat \<Rightarrow> 'w \<Rightarrow> ('w \<times> bool) option" where
  "lock_acquire clock claim sleep acquire_timeout w = wait_lock clock claim sleep (clock w + acquire_timeout) w"

text \<open>\<open>__exit__\<close>: a failing script is swallowed.\<close>

definition lock_release :: "int \<Rightarrow> bool \<Rightarrow> bool \<Rightarrow> string \<Rightarrow> string \<Rightarrow> redis \<Rightarrow> redis" where
  "lock_release now acquired eval_fails lock_name lock_value r =
     (if acquired \<and> \<not> eval_fails then release_if_owner now (lock_key lock_name) lock_value r else r)"

section \<open>The connection\<close>

text \<open>It fails exactly when there is an attempt and every ping of the \<open>max_retries\<close> ones raises.\<close>

fun pings :: "'w ping \<Rightarrow> (rat \<Rightarrow> 'w \<Rightarrow> 'w) \<Rightarrow> rat \<Rightarrow> nat \<Rightarrow> nat \<Rightarrow> 'w \<Rightarrow> bool" where
  "pings ping sleep b attempt 0 w = True"
| "pings ping sleep b attempt (Suc n) w =
     (isl (snd (ping w)) \<and> pings ping sleep b (Suc attempt) n (sleep (b * 2 ^ attempt) (fst (ping w))))"

lemma connect_from_raises:
  "isl (snd (connect_from ping sleep n b attempt w)) \<longleftrightarrow>
     int attempt < n \<and> pings ping sleep b attempt (nat (n - int attempt)) w"
proof (induction ping sleep n b attempt w rule: connect_from.induct)
  case (1 ping sleep n b attempt w)
  show ?case
  proof (cases "int attempt < n")
    case True
    then have n: "nat (n - int attempt) = Suc (nat (n - int (Suc attempt)))" by simp
    obtain w' r where p: "ping w = (w', r)" by force
    show ?thesis
    proof (cases r)
      case (Inl e)
      have "isl (snd (connect_from ping sleep n b attempt w)) \<longleftrightarrow>
          (if int attempt = n - 1 then True
           else isl (snd (connect_from ping sleep n b (Suc attempt) (sleep (b * 2 ^ attempt) w'))))"
        using True p Inl by (subst connect_from.simps) simp
      moreover have "isl (snd (connect_from ping sleep n b (Suc attempt) (sleep (b * 2 ^ attempt) w'))) \<longleftrightarrow>
          int (Suc attempt) < n \<and> pings ping sleep b (Suc attempt) (nat (n - int (Suc attempt))) (sleep (b * 2 ^ attempt) w')"
        if "int attempt \<noteq> n - 1"
        using "1.IH" [OF True p [symmetric] Inl that] .
      ultimately show ?thesis using True p Inl n by auto
    qed (use True p n in \<open>subst connect_from.simps, simp\<close>)
  qed (subst connect_from.simps, simp)
qed

section \<open>The cache is transparent\<close>

definition cache_ok :: "(string \<Rightarrow> 'b option) \<Rightarrow> ('a \<Rightarrow> string) \<Rightarrow> ('a \<Rightarrow> 'b) \<Rightarrow> cache_state \<Rightarrow> bool" where
  "cache_ok loads key_of f c \<longleftrightarrow>
     (\<forall>a s. dget (rd_data (ca_redis c)) (key_of a) = Some s \<longrightarrow> s \<noteq> [] \<longrightarrow> loads s = None \<or> loads s = Some (f a))"

text \<open>A read only drops entries, and gives one that was there.\<close>

lemma redis_get_entry:
  assumes "redis_get now key r = (r', v)"
  shows "(v = None \<or> v = dget (rd_data r) key) \<and> (\<forall>k. dget (rd_data r') k = None \<or> dget (rd_data r') k = dget (rd_data r) k)"
  using assms by (auto simp: redis_get_def redis_delete_def split: if_splits)

lemma cache_lookup_ok:
  assumes "cache_ok loads key_of f c" and "cache_lookup loads g (key_of a) c = (c', v)"
  shows "cache_ok loads key_of f c' \<and> (v = None \<or> v = Some (f a))"
proof (cases g)
  case True
  with assms show ?thesis by (simp add: cache_lookup_def)
next
  case False
  obtain r u where g: "redis_get (ca_now c) (key_of a) (ca_redis c) = (r, u)" by force
  note e = redis_get_entry [OF g]
  have c': "c' = c\<lparr>ca_redis := r\<rparr>"
    and v: "v = (case u of None \<Rightarrow> None | Some s \<Rightarrow> if s = [] then None else loads s)"
    using assms(2) False g by (simp_all add: cache_lookup_def)
  have "cache_ok loads key_of f c'"
    unfolding cache_ok_def
  proof (intro allI impI)
    fix b s
    assume s: "dget (rd_data (ca_redis c')) (key_of b) = Some s" "s \<noteq> []"
    moreover have "dget (rd_data r) (key_of b) = None \<or> dget (rd_data r) (key_of b) = dget (rd_data (ca_redis c)) (key_of b)"
      using e by blast
    ultimately have "dget (rd_data (ca_redis c)) (key_of b) = Some s" using c' by simp
    with assms(1) s(2) show "loads s = None \<or> loads s = Some (f b)" by (simp add: cache_ok_def)
  qed
  moreover have "v = None \<or> v = Some (f a)"
  proof (cases u)
    case (Some s)
    then have "dget (rd_data (ca_redis c)) (key_of a) = Some s" using e by auto
    with assms(1) Some v show ?thesis by (auto simp: cache_ok_def)
  qed (simp add: v)
  ultimately show ?thesis by blast
qed

lemma cache_store_ok:
  assumes "cache_ok loads key_of f c" and "\<forall>s. dumps (f a) = Some s \<longrightarrow> loads s = Some (f a)"
    and "\<forall>b. key_of b = key_of a \<longrightarrow> f b = f a"
  shows "cache_ok loads key_of f (cache_store dumps expire g (key_of a) (f a) c)"
proof -
  let ?c = "cache_store dumps expire g (key_of a) (f a) c"
  have "dget (rd_data (ca_redis ?c)) k = dget (rd_data (ca_redis c)) k
      \<or> k = key_of a \<and> dget (rd_data (ca_redis ?c)) k = dumps (f a)" for k
    by (simp add: cache_store_def redis_setex_def split: option.split)
  then show ?thesis using assms unfolding cache_ok_def by metis
qed

lemma cached_call_ok:
  assumes "cache_ok loads key_of f c" and "\<forall>s. dumps (f a) = Some s \<longrightarrow> loads s = Some (f a)"
    and "\<forall>b. key_of b = key_of a \<longrightarrow> f b = f a" and "cached_call loads dumps expire key_of f faults a c = (c', v)"
  shows "cache_ok loads key_of f c' \<and> v = f a"
proof -
  obtain c1 u where l: "cache_lookup loads (fst faults) (key_of a) c = (c1, u)" by force
  note ok = cache_lookup_ok [OF assms(1) l]
  have "cache_ok loads key_of f (c1\<lparr>ca_misses := Suc (ca_misses c1)\<rparr>)" using ok by (simp add: cache_ok_def)
  from cache_store_ok [where dumps = dumps, OF this assms(2,3), of expire "snd faults"] ok assms(4) l show ?thesis
    by (cases u) (auto simp: cached_call_def Let_def)
qed

text \<open>
  Whatever commands fail and whenever entries expire, every cached call gives what the
  function gives, if JSON gives its results back and arguments with one key have one result.
\<close>

lemma cached_calls_transparent:
  assumes "cache_ok loads key_of f c" and "\<And>a s. dumps (f a) = Some s \<Longrightarrow> loads s = Some (f a)"
    and "\<And>a b. key_of b = key_of a \<Longrightarrow> f b = f a"
  shows "snd (cached_calls loads dumps expire key_of f calls c) = map (f \<circ> snd \<circ> snd) calls"
  using assms(1)
proof (induction calls arbitrary: c)
  case (Cons call calls)
  obtain e fs a where call: "call = (e, fs, a)" by (cases call) auto
  obtain c1 v where r: "cached_call loads dumps expire key_of f fs a (c\<lparr>ca_now := ca_now c + e\<rparr>) = (c1, v)" by force
  have "cache_ok loads key_of f (c\<lparr>ca_now := ca_now c + e\<rparr>)" using Cons.prems by (simp add: cache_ok_def)
  from cached_call_ok [OF this _ _ r] assms(2,3) have "cache_ok loads key_of f c1" "v = f a" by blast+
  moreover obtain c2 vs where "cached_calls loads dumps expire key_of f calls c1 = (c2, vs)" by force
  ultimately show ?case using Cons.IH [of c1] r call by simp
qed simp

section \<open>Waiting for a lock\<close>

declare wait_lock.simps [code]

lemma wait_lock_ends_within:
  assumes adv: "\<And>w. clock w + 1/10 \<le> clock (sleep (fst (claim w)))"
    and "until - clock w \<le> of_nat n / 10"
  shows "\<exists>r. wait_lock clock claim sleep until w = Some r"
  using assms(2)
proof (induction n arbitrary: w)
  case 0
  then show ?case by (subst wait_lock.simps) auto
next
  case (Suc n)
  obtain w' b where c: "claim w = (w', b)" by force
  have "until - clock (sleep w') \<le> of_nat n / 10" using adv [of w] Suc.prems c by (simp add: field_simps)
  with Suc.IH [of "sleep w'"] c show ?case by (subst wait_lock.simps) auto
qed

lemma wait_lock_acquires_within:
  assumes adv: "\<And>w. clock w + 1/10 \<le> clock (sleep (fst (claim w)))"
    and short: "\<And>w. clock (sleep (fst (claim w))) \<le> clock w + d"
    and free: "\<And>w. t \<le> clock w \<Longrightarrow> snd (claim w)" and limit: "t + d \<le> until"
    and "clock w < until" and "until - clock w \<le> of_nat n / 10"
  shows "\<exists>w'. wait_lock clock claim sleep until w = Some (w', True)"
  using assms(5,6)
proof (induction n arbitrary: w)
  case 0
  then show ?case by simp
next
  case (Suc n)
  obtain w' b where c: "claim w = (w', b)" by force
  show ?case
  proof (cases b)
    case True
    with c Suc.prems(1) show ?thesis by (subst wait_lock.simps) simp
  next
    case False
    with free [of w] c have "clock w < t" by (auto simp: not_le [symmetric])
    then have "clock (sleep w') < until" using short [of w] c limit by simp
    moreover have "until - clock (sleep w') \<le> of_nat n / 10" using adv [of w] Suc.prems(2) c by (simp add: field_simps)
    ultimately obtain w'' where "wait_lock clock claim sleep until (sleep w') = Some (w'', True)"
      using Suc.IH by blast
    with c False Suc.prems(1) show ?thesis by (subst wait_lock.simps) simp
  qed
qed

text \<open>
  Waiting for a lock always ends, in success or in a timeout, when every pause advances
  the clock by its tenth of a second; and it ends in success when the lock becomes free,
  and stays free, at least one pause before the timeout.
\<close>

theorem lock_wait_decides:
  assumes "\<forall>w. clock w + 1/10 \<le> clock (sleep (fst (claim w)))" and "0 < timeout"
  shows "\<exists>w' acquired. lock_acquire clock claim sleep timeout w = Some (w', acquired)
    \<and> ((\<forall>v. clock (sleep (fst (claim v))) \<le> clock v + d) \<and> (\<forall>v. t \<le> clock v \<longrightarrow> snd (claim v)) \<and> t + d \<le> clock w + timeout
       \<longrightarrow> acquired)"
proof -
  obtain n :: nat where "timeout * 10 < of_nat n" using reals_Archimedean2 by blast
  then have n: "clock w + timeout - clock w \<le> of_nat n / 10" by (simp add: field_simps)
  have adv: "\<And>w. clock w + 1/10 \<le> clock (sleep (fst (claim w)))" using assms(1) by blast
  obtain r where "wait_lock clock claim sleep (clock w + timeout) w = Some r"
    using wait_lock_ends_within [OF adv n] by blast
  moreover have "\<exists>w'. wait_lock clock claim sleep (clock w + timeout) w = Some (w', True)"
    if "\<forall>v. clock (sleep (fst (claim v))) \<le> clock v + d" "\<forall>v. t \<le> clock v \<longrightarrow> snd (claim v)" "t + d \<le> clock w + timeout"
    using wait_lock_acquires_within [where t = t and d = d, OF adv _ _ that(3) _ n] that(1,2) assms(2) by auto
  ultimately show ?thesis by (cases r) (auto simp: lock_acquire_def)
qed

text \<open>Another client holds the lock until two seconds have passed; the world is the clock in tenths.\<close>

theorem lock_wait_decides_witness:
  "\<exists>w'. lock_acquire (\<lambda>w. of_nat w / 10) (\<lambda>w. (w, 20 \<le> w)) Suc 5 (0 :: nat) = Some (w', True)"
  using lock_wait_decides [of "\<lambda>w. of_nat w / 10" Suc "\<lambda>w. (w, 20 \<le> w)" 5 0 "1/10" 2]
  by (auto simp: field_simps)

end
