(* ===== verification/Schema.thy ===== *)
theory Schema
  imports Prelude
begin

text \<open>
  The database schema from both sides: the tables that the ORM models declare
  (\<open>models.py\<close> with the mixins of \<open>database.py\<close>) and those that the Alembic migrations
  create (\<open>alembic/versions\<close>). The operations of Alembic are modelled by their effect on a
  schema, with the errors every database raises: an object that exists already, one that
  does not, a table that another refers to. Column defaults are the ORM's and not part of
  the schema.
\<close>

section \<open>Schemas\<close>

datatype column_type = VarChar nat | TextType | DateTimeTz | JsonType | IntegerType | BooleanType

record column =
  co_name :: string
  co_type :: column_type
  co_nullable :: bool

definition col :: "string \<Rightarrow> column_type \<Rightarrow> bool \<Rightarrow> column" where
  "col n t nullable = \<lparr>co_name = n, co_type = t, co_nullable = nullable\<rparr>"

text \<open>Foreign keys: a column, the table and the column it refers to.\<close>

record table_def =
  td_columns :: "column list"
  td_primary :: "string list"
  td_foreign :: "(string \<times> string \<times> string) list"

definition table_of :: "column list \<Rightarrow> string list \<Rightarrow> (string \<times> string \<times> string) list \<Rightarrow> table_def" where
  "table_of cs pk fk = \<lparr>td_columns = cs, td_primary = pk, td_foreign = fk\<rparr>"

record schema =
  sc_tables :: "(string, table_def) dict"
  sc_indexes :: "(string, string \<times> string list) dict"

section \<open>Alembic's operations\<close>

datatype migration_op =
    CreateTable string table_def
  | DropTable string
  | CreateIndex string string "string list"
  | DropIndex string string
  | AddColumn string column
  | DropColumn string string

definition has_columns :: "schema \<Rightarrow> string \<Rightarrow> string list \<Rightarrow> bool" where
  "has_columns s t cs =
     (case dget (sc_tables s) t of
        None \<Rightarrow> False
      | Some d \<Rightarrow> list_all (\<lambda>c. c \<in> set (map co_name (td_columns d))) cs)"

definition referred :: "schema \<Rightarrow> string \<Rightarrow> bool" where
  "referred s t = list_ex (\<lambda>(n, d). n \<noteq> t \<and> list_ex (\<lambda>(c, t', c'). t' = t) (td_foreign d)) (sc_tables s)"

definition indexed :: "schema \<Rightarrow> string \<Rightarrow> string \<Rightarrow> bool" where
  "indexed s t c = list_ex (\<lambda>(n, t', cs). t' = t \<and> c \<in> set cs) (sc_indexes s)"

fun run_operation :: "migration_op \<Rightarrow> schema \<Rightarrow> string + schema" where
  "run_operation (CreateTable t d) s =
     (if dget (sc_tables s) t \<noteq> None then Inl ''table exists''
      else if \<not> list_all (\<lambda>(c, t', c'). has_columns s t' [c']) (td_foreign d) then Inl ''no referred column''
      else Inr (s\<lparr>sc_tables := dset t d (sc_tables s)\<rparr>))"
| "run_operation (DropTable t) s =
     (if dget (sc_tables s) t = None then Inl ''no such table''
      else if referred s t then Inl ''table is referred to''
      else Inr (s\<lparr>sc_tables := ddel t (sc_tables s), sc_indexes := filter (\<lambda>(n, t', cs). t' \<noteq> t) (sc_indexes s)\<rparr>))"
| "run_operation (CreateIndex n t cs) s =
     (if dget (sc_indexes s) n \<noteq> None then Inl ''index exists''
      else if \<not> has_columns s t cs then Inl ''no such column''
      else Inr (s\<lparr>sc_indexes := dset n (t, cs) (sc_indexes s)\<rparr>))"
| "run_operation (DropIndex n t) s =
     (case dget (sc_indexes s) n of
        None \<Rightarrow> Inl ''no such index''
      | Some (t', cs) \<Rightarrow> if t' = t then Inr (s\<lparr>sc_indexes := ddel n (sc_indexes s)\<rparr>) else Inl ''no such index'')"
| "run_operation (AddColumn t c) s =
     (case dget (sc_tables s) t of
        None \<Rightarrow> Inl ''no such table''
      | Some d \<Rightarrow>
          if co_name c \<in> set (map co_name (td_columns d)) then Inl ''column exists''
          else Inr (s\<lparr>sc_tables := dset t (d\<lparr>td_columns := td_columns d @ [c]\<rparr>) (sc_tables s)\<rparr>))"
| "run_operation (DropColumn t c) s =
     (case dget (sc_tables s) t of
        None \<Rightarrow> Inl ''no such table''
      | Some d \<Rightarrow>
          if c \<notin> set (map co_name (td_columns d)) then Inl ''no such column''
          else if indexed s t c then Inl ''column is indexed''
          else Inr (s\<lparr>sc_tables := dset t (d\<lparr>td_columns := filter (\<lambda>x. co_name x \<noteq> c) (td_columns d)\<rparr>) (sc_tables s)\<rparr>))"

fun run_operations :: "migration_op list \<Rightarrow> schema \<Rightarrow> string + schema" where
  "run_operations [] s = Inr s"
| "run_operations (x # xs) s = (case run_operation x s of Inl e \<Rightarrow> Inl e | Inr s' \<Rightarrow> run_operations xs s')"

section \<open>The migrations\<close>

definition timestamps :: "column list" where
  "timestamps = [col ''created_at'' DateTimeTz False, col ''updated_at'' DateTimeTz False]"

definition initial_upgrade :: "migration_op list" where
  "initial_upgrade =
     [CreateTable ''workflow_runs''
        (table_of
          ([col ''id'' (VarChar 36) False, col ''workflow_name'' (VarChar 255) False,
            col ''yaml_definition'' TextType True, col ''status'' (VarChar 50) True,
            col ''started_at'' DateTimeTz True, col ''completed_at'' DateTimeTz True,
            col ''dead_letters'' JsonType True] @ timestamps) [''id''] []),
      CreateIndex ''ix_workflow_runs_workflow_name'' ''workflow_runs'' [''workflow_name''],
      CreateTable ''step_executions''
        (table_of
          ([col ''id'' (VarChar 36) False, col ''run_id'' (VarChar 36) False, col ''step_id'' (VarChar 255) False,
            col ''task_name'' (VarChar 255) False, col ''status'' (VarChar 50) True, col ''result'' TextType True,
            col ''error'' TextType True, col ''attempt'' IntegerType True] @ timestamps)
          [''id''] [(''run_id'', ''workflow_runs'', ''id'')]),
      CreateIndex ''ix_step_executions_run_id'' ''step_executions'' [''run_id'']]"

definition initial_downgrade :: "migration_op list" where
  "initial_downgrade =
     [DropIndex ''ix_step_executions_run_id'' ''step_executions'', DropTable ''step_executions'',
      DropIndex ''ix_workflow_runs_workflow_name'' ''workflow_runs'', DropTable ''workflow_runs'']"

definition runtime_upgrade :: "migration_op list" where
  "runtime_upgrade =
     [AddColumn ''workflow_runs'' (col ''version_hash'' (VarChar 64) True),
      CreateIndex ''ix_workflow_runs_version_hash'' ''workflow_runs'' [''version_hash''],
      CreateTable ''schedules''
        (table_of
          ([col ''name'' (VarChar 255) False, col ''cron'' (VarChar 255) False, col ''yaml_definition'' TextType False,
            col ''last_run'' DateTimeTz True, col ''next_run'' DateTimeTz True, col ''enabled'' BooleanType False]
           @ timestamps) [''name''] []),
      CreateTable ''webhook_registrations''
        (table_of
          ([col ''name'' (VarChar 255) False, col ''yaml_definition'' TextType False, col ''description'' TextType False,
            col ''secret'' TextType True] @ timestamps) [''name''] []),
      CreateTable ''workflow_definitions''
        (table_of ([col ''content_hash'' (VarChar 64) False, col ''yaml_definition'' TextType False] @ timestamps)
          [''content_hash''] []),
      CreateTable ''idempotency_records''
        (table_of ([col ''namespace'' (VarChar 255) False, col ''key'' (VarChar 255) False] @ timestamps)
          [''namespace'', ''key''] []),
      CreateTable ''execution_events''
        (table_of
          ([col ''id'' (VarChar 36) False, col ''run_id'' (VarChar 36) False, col ''sequence'' IntegerType False,
            col ''kind'' (VarChar 100) False, col ''trigger_id'' (VarChar 36) True, col ''step_id'' (VarChar 255) True,
            col ''attempt'' IntegerType True, col ''details'' JsonType False] @ timestamps) [''id''] []),
      CreateIndex ''ix_execution_events_run_id'' ''execution_events'' [''run_id'']]"

definition runtime_downgrade :: "migration_op list" where
  "runtime_downgrade =
     [DropIndex ''ix_execution_events_run_id'' ''execution_events'', DropTable ''execution_events'',
      DropTable ''idempotency_records'', DropTable ''workflow_definitions'', DropTable ''webhook_registrations'',
      DropTable ''schedules'', DropIndex ''ix_workflow_runs_version_hash'' ''workflow_runs'',
      DropColumn ''workflow_runs'' ''version_hash'']"

section \<open>The models\<close>

text \<open>
  A declared model: its own columns, whether it has the \<open>UUIDMixin\<close>, its primary key, its
  foreign keys and the columns declared with \<open>index=True\<close>, whose indexes SQLAlchemy names
  \<open>ix_<table>_<column>\<close>. All models have the \<open>TimestampMixin\<close>.
\<close>

record model =
  md_table :: string
  md_uuid :: bool
  md_columns :: "column list"
  md_primary :: "string list"
  md_foreign :: "(string \<times> string \<times> string) list"
  md_indexed :: "string list"

definition uuid_column :: column where
  "uuid_column = col ''id'' (VarChar 36) False"

definition models :: "model list" where
  "models =
     [\<lparr>md_table = ''workflow_runs'', md_uuid = True,
       md_columns = [col ''workflow_name'' (VarChar 255) False, col ''yaml_definition'' TextType True,
         col ''status'' (VarChar 50) True, col ''started_at'' DateTimeTz True, col ''completed_at'' DateTimeTz True,
         col ''dead_letters'' JsonType True, col ''version_hash'' (VarChar 64) True],
       md_primary = [], md_foreign = [], md_indexed = [''version_hash'']\<rparr>,
      \<lparr>md_table = ''step_executions'', md_uuid = True,
       md_columns = [col ''run_id'' (VarChar 36) False, col ''step_id'' (VarChar 255) False,
         col ''task_name'' (VarChar 255) False, col ''status'' (VarChar 50) True, col ''result'' TextType True,
         col ''error'' TextType True, col ''attempt'' IntegerType True],
       md_primary = [], md_foreign = [(''run_id'', ''workflow_runs'', ''id'')], md_indexed = []\<rparr>,
      \<lparr>md_table = ''schedules'', md_uuid = False,
       md_columns = [col ''name'' (VarChar 255) False, col ''cron'' (VarChar 255) False,
         col ''yaml_definition'' TextType False, col ''last_run'' DateTimeTz True, col ''next_run'' DateTimeTz True,
         col ''enabled'' BooleanType False],
       md_primary = [''name''], md_foreign = [], md_indexed = []\<rparr>,
      \<lparr>md_table = ''webhook_registrations'', md_uuid = False,
       md_columns = [col ''name'' (VarChar 255) False, col ''yaml_definition'' TextType False,
         col ''description'' TextType False, col ''secret'' TextType True],
       md_primary = [''name''], md_foreign = [], md_indexed = []\<rparr>,
      \<lparr>md_table = ''workflow_definitions'', md_uuid = False,
       md_columns = [col ''content_hash'' (VarChar 64) False, col ''yaml_definition'' TextType False],
       md_primary = [''content_hash''], md_foreign = [], md_indexed = []\<rparr>,
      \<lparr>md_table = ''idempotency_records'', md_uuid = False,
       md_columns = [col ''namespace'' (VarChar 255) False, col ''key'' (VarChar 255) False],
       md_primary = [''namespace'', ''key''], md_foreign = [], md_indexed = []\<rparr>,
      \<lparr>md_table = ''execution_events'', md_uuid = True,
       md_columns = [col ''run_id'' (VarChar 36) False, col ''sequence'' IntegerType False,
         col ''kind'' (VarChar 100) False, col ''trigger_id'' (VarChar 36) True, col ''step_id'' (VarChar 255) True,
         col ''attempt'' IntegerType True, col ''details'' JsonType False],
       md_primary = [], md_foreign = [], md_indexed = [''run_id'']\<rparr>]"

text \<open>\<open>Base.metadata.create_all\<close> on the declared models: tables that exist are left alone.\<close>

definition model_table :: "model \<Rightarrow> table_def" where
  "model_table m =
     table_of ((if md_uuid m then [uuid_column] else []) @ md_columns m @ timestamps)
       ((if md_uuid m then [''id''] else []) @ md_primary m) (md_foreign m)"

definition model_indexes :: "model \<Rightarrow> migration_op list" where
  "model_indexes m = map (\<lambda>c. CreateIndex (''ix_'' @ md_table m @ ''_'' @ c) (md_table m) [c]) (md_indexed m)"

fun create_all :: "model list \<Rightarrow> schema \<Rightarrow> string + schema" where
  "create_all [] s = Inr s"
| "create_all (m # ms) s =
     (if dget (sc_tables s) (md_table m) \<noteq> None then create_all ms s
      else case run_operations (CreateTable (md_table m) (model_table m) # model_indexes m) s of
             Inl e \<Rightarrow> Inl e
           | Inr s' \<Rightarrow> create_all ms s')"

section \<open>Migrations and models\<close>

definition empty_schema :: schema where
  "empty_schema = \<lparr>sc_tables = [], sc_indexes = []\<rparr>"

definition migrated :: "schema \<Rightarrow> string + schema" where
  "migrated s = run_operations (initial_upgrade @ runtime_upgrade) s"

text \<open>Two tables with the same columns, in any order.\<close>

definition same_table :: "table_def \<Rightarrow> table_def \<Rightarrow> bool" where
  "same_table a b \<longleftrightarrow> set (td_columns a) = set (td_columns b) \<and> length (td_columns a) = length (td_columns b)
     \<and> td_primary a = td_primary b \<and> td_foreign a = td_foreign b"

text \<open>
  C38: the migrations and the models agree on every table, column, key and foreign key, and
  differ in two indexes that only the migrations create. A database that was migrated is
  left as it is when a process creates the models' tables; one whose tables a process
  created first can no longer be migrated.
\<close>

theorem models_and_migrations:
  "\<exists>a b. migrated empty_schema = Inr a \<and> create_all models empty_schema = Inr b
    \<and> dkeys (sc_tables a) = dkeys (sc_tables b) \<and> list_all2 same_table (dvals (sc_tables a)) (dvals (sc_tables b))
    \<and> set (sc_indexes b) \<subseteq> set (sc_indexes a)
    \<and> set (sc_indexes a) - set (sc_indexes b) =
        {(''ix_workflow_runs_workflow_name'', ''workflow_runs'', [''workflow_name'']),
         (''ix_step_executions_run_id'', ''step_executions'', [''run_id''])}
    \<and> create_all models a = Inr a \<and> migrated b = Inl ''table exists''"
proof -
  have "case (migrated empty_schema, create_all models empty_schema) of
      (Inr a, Inr b) \<Rightarrow>
        dkeys (sc_tables a) = dkeys (sc_tables b) \<and> list_all2 same_table (dvals (sc_tables a)) (dvals (sc_tables b))
        \<and> set (sc_indexes b) \<subseteq> set (sc_indexes a)
        \<and> set (sc_indexes a) - set (sc_indexes b) =
            {(''ix_workflow_runs_workflow_name'', ''workflow_runs'', [''workflow_name'']),
             (''ix_step_executions_run_id'', ''step_executions'', [''run_id''])}
        \<and> create_all models a = Inr a \<and> migrated b = Inl ''table exists''
    | _ \<Rightarrow> False"
    by code_simp
  then show ?thesis by (auto split: sum.splits)
qed

section \<open>Up and down again\<close>

definition new_tables :: "string list" where
  "new_tables = [''workflow_runs'', ''step_executions'', ''schedules'', ''webhook_registrations'',
     ''workflow_definitions'', ''idempotency_records'', ''execution_events'']"

definition new_indexes :: "string list" where
  "new_indexes = [''ix_workflow_runs_workflow_name'', ''ix_step_executions_run_id'', ''ix_workflow_runs_version_hash'',
     ''ix_execution_events_run_id'']"

text \<open>A schema in which the migrations' names are free, and nothing refers to them.\<close>

definition free_table :: "schema \<Rightarrow> string \<Rightarrow> bool" where
  "free_table s t \<longleftrightarrow> dget (sc_tables s) t = None \<and> \<not> referred s t \<and> list_all (\<lambda>(n, t', cs). t' \<noteq> t) (sc_indexes s)"

definition unused :: "schema \<Rightarrow> bool" where
  "unused s \<longleftrightarrow> list_all (free_table s) new_tables \<and> list_all (\<lambda>n. dget (sc_indexes s) n = None) new_indexes"

text \<open>
  The frame rule: what an operation does to the tables it names it also does when they
  stand beside others.
\<close>

definition beside :: "schema \<Rightarrow> schema \<Rightarrow> schema" where
  "beside s a = \<lparr>sc_tables = sc_tables s @ sc_tables a, sc_indexes = sc_indexes s @ sc_indexes a\<rparr>"

fun op_tables :: "migration_op \<Rightarrow> string list" where
  "op_tables (CreateTable t d) = t # map (fst \<circ> snd) (td_foreign d)"
| "op_tables (DropTable t) = [t]"
| "op_tables (CreateIndex n t cs) = [t]"
| "op_tables (DropIndex n t) = [t]"
| "op_tables (AddColumn t c) = [t]"
| "op_tables (DropColumn t c) = [t]"

fun op_indexes :: "migration_op \<Rightarrow> string list" where
  "op_indexes (CreateIndex n t cs) = [n]"
| "op_indexes (DropIndex n t) = [n]"
| "op_indexes _ = []"

lemma dget_append: "dget d k = None \<Longrightarrow> (dget e ++ dget d) k = dget e k"
  by (simp add: map_add_def)

lemma dset_append: "dget d k = None \<Longrightarrow> dset k v (d @ e) = d @ dset k v e"
  by (induction d) (auto split: if_splits)

lemma ddel_append: "dget d k = None \<Longrightarrow> ddel k (d @ e) = d @ ddel k e"
  by (induction d) (auto split: if_splits)

lemmas append_dict = dget_append dset_append ddel_append

lemma beside_tests:
  assumes "free_table s t"
  shows "has_columns (beside s a) t cs = has_columns a t cs" and "referred (beside s a) t = referred a t"
    and "indexed (beside s a) t c = indexed a t c"
    and "filter (\<lambda>(n, t', cs). t' \<noteq> t) (sc_indexes s) = sc_indexes s"
proof -
  have none: "dget (sc_tables s) t = None" and ref: "\<not> referred s t"
    and ix: "list_all (\<lambda>(n, t', cs). t' \<noteq> t) (sc_indexes s)"
    using assms by (simp_all add: free_table_def)
  show "has_columns (beside s a) t cs = has_columns a t cs"
    using none by (simp add: has_columns_def beside_def dget_append)
  show "referred (beside s a) t = referred a t" using ref by (simp add: referred_def beside_def)
  show "filter (\<lambda>(n, t', cs). t' \<noteq> t) (sc_indexes s) = sc_indexes s"
    using ix by (simp add: list_all_iff filter_id_conv)
  have "\<not> indexed s t c" using ix by (auto simp: indexed_def list_all_iff list_ex_iff)
  then show "indexed (beside s a) t c = indexed a t c" by (simp add: indexed_def beside_def)
qed

lemma run_operation_frame:
  assumes "list_all (free_table s) (op_tables x)" and "list_all (\<lambda>n. dget (sc_indexes s) n = None) (op_indexes x)"
    and "run_operation x a = Inr a'"
  shows "run_operation x (beside s a) = Inr (beside s a')"
proof (cases x)
  case (CreateTable t d)
  have "list_all (\<lambda>(c, t', c'). has_columns (beside s a) t' [c']) (td_foreign d)
      = list_all (\<lambda>(c, t', c'). has_columns a t' [c']) (td_foreign d)"
    by (rule list.pred_cong [OF refl])
      (use assms(1) CreateTable in \<open>auto simp: list_all_iff intro!: beside_tests(1)\<close>)
  with CreateTable assms show ?thesis
    by (auto simp: free_table_def beside_def append_dict split: if_splits)
next
  case (DropTable t)
  with assms beside_tests [of s t] show ?thesis
    by (auto simp: beside_def free_table_def append_dict split: if_splits)
next
  case (CreateIndex n t cs)
  with assms beside_tests [of s t] show ?thesis
    by (auto simp: beside_def append_dict split: if_splits)
next
  case (DropIndex n t)
  with assms show ?thesis
    by (auto simp: beside_def append_dict split: if_splits option.splits)
next
  case (AddColumn t c)
  with assms show ?thesis
    by (auto simp: beside_def free_table_def append_dict split: if_splits option.splits)
next
  case (DropColumn t c)
  with assms beside_tests [of s t] show ?thesis
    by (auto simp: beside_def free_table_def append_dict split: if_splits option.splits)
qed

lemma run_operations_frame:
  assumes "\<forall>x \<in> set xs. list_all (free_table s) (op_tables x) \<and> list_all (\<lambda>n. dget (sc_indexes s) n = None) (op_indexes x)"
    and "run_operations xs a = Inr a'"
  shows "run_operations xs (beside s a) = Inr (beside s a')"
  using assms
proof (induction xs arbitrary: a)
  case (Cons x xs)
  then obtain b where "run_operation x a = Inr b" "run_operations xs b = Inr a'" by (auto split: sum.splits)
  with Cons run_operation_frame [of s x a b] show ?case by simp
qed simp

lemma migrations_within:
  "list_all (\<lambda>x. list_all (\<lambda>t. t \<in> set new_tables) (op_tables x) \<and> list_all (\<lambda>n. n \<in> set new_indexes) (op_indexes x))
     (initial_upgrade @ runtime_upgrade @ runtime_downgrade @ initial_downgrade)"
  by code_simp

lemma run_operations_append:
  "run_operations (xs @ ys) s = (case run_operations xs s of Inl e \<Rightarrow> Inl e | Inr s' \<Rightarrow> run_operations ys s')"
  by (induction xs arbitrary: s) (auto split: sum.split)

lemma migrated_tables:
  "case migrated empty_schema of Inl e \<Rightarrow> False | Inr b \<Rightarrow> dkeys (sc_tables b) = new_tables"
  by code_simp

lemma migrations_from_empty:
  "case run_operations initial_upgrade empty_schema of
     Inl e \<Rightarrow> False
   | Inr a \<Rightarrow> (case run_operations runtime_upgrade a of
         Inl e \<Rightarrow> False
       | Inr b \<Rightarrow> run_operations runtime_downgrade b = Inr a \<and> run_operations initial_downgrade a = Inr empty_schema)"
  by code_simp

text \<open>
  C37: on every database in which their names are free, the migrations succeed, each
  downgrade undoes its upgrade exactly, and nothing else in the database is touched.
\<close>

theorem migrations_reversible:
  assumes "unused s"
  shows "\<exists>s1 s2. run_operations initial_upgrade s = Inr s1 \<and> run_operations runtime_upgrade s1 = Inr s2
    \<and> run_operations runtime_downgrade s2 = Inr s1 \<and> run_operations initial_downgrade s1 = Inr s
    \<and> (\<forall>t. t \<notin> set new_tables \<longrightarrow> dget (sc_tables s2) t = dget (sc_tables s) t)"
proof -
  have names: "\<forall>x \<in> set (initial_upgrade @ runtime_upgrade @ runtime_downgrade @ initial_downgrade).
      list_all (free_table s) (op_tables x) \<and> list_all (\<lambda>n. dget (sc_indexes s) n = None) (op_indexes x)"
    using migrations_within assms by (fastforce simp: unused_def list_all_iff)
  obtain a b where up: "run_operations initial_upgrade empty_schema = Inr a" "run_operations runtime_upgrade a = Inr b"
    and down: "run_operations runtime_downgrade b = Inr a" "run_operations initial_downgrade a = Inr empty_schema"
    using migrations_from_empty by (auto split: sum.splits)
  have s: "beside s empty_schema = s" by (simp add: beside_def empty_schema_def)
  have frame: "run_operations xs (beside s c) = Inr (beside s c')"
    if "run_operations xs c = Inr c'" "set xs \<subseteq> set (initial_upgrade @ runtime_upgrade @ runtime_downgrade @ initial_downgrade)"
    for xs c c'
    using run_operations_frame [OF _ that(1), of s] names that(2) by blast
  have keys: "dkeys (sc_tables b) = new_tables"
    using migrated_tables up by (simp add: migrated_def run_operations_append)
  have "dget (sc_tables b) t = None" if "t \<notin> set new_tables" for t
    using that by (simp only: map_of_eq_None_iff keys [symmetric] set_map simp_thms)
  then have "dget (sc_tables (beside s b)) t = dget (sc_tables s) t" if "t \<notin> set new_tables" for t
    using that by (simp add: beside_def map_add_def split: option.split)
  with frame [OF up(1)] frame [OF up(2)] frame [OF down(1)] frame [OF down(2)] s show ?thesis by auto
qed

theorem migrations_reversible_witness:
  "\<exists>s1 s2. run_operations initial_upgrade \<lparr>sc_tables = [(''users'', table_of [] [] [])], sc_indexes = []\<rparr> = Inr s1
    \<and> run_operations runtime_upgrade s1 = Inr s2 \<and> dget (sc_tables s2) ''users'' = Some (table_of [] [] [])"
proof -
  have "unused \<lparr>sc_tables = [(''users'', table_of [] [] [])], sc_indexes = []\<rparr>" by code_simp
  from migrations_reversible [OF this] obtain s1 s2
    where up: "run_operations initial_upgrade \<lparr>sc_tables = [(''users'', table_of [] [] [])], sc_indexes = []\<rparr> = Inr s1"
      "run_operations runtime_upgrade s1 = Inr s2"
    and rest: "\<forall>t. t \<notin> set new_tables \<longrightarrow>
      dget (sc_tables s2) t = dget (sc_tables \<lparr>sc_tables = [(''users'', table_of [] [] [])], sc_indexes = []\<rparr>) t"
    by (elim exE conjE) (rule that)
  have "''users'' \<notin> set new_tables" by (simp add: new_tables_def)
  with rest have "dget (sc_tables s2) ''users'' = Some (table_of [] [] [])" by simp
  with up show ?thesis by blast
qed

section \<open>The check of the migrations\<close>

text \<open>
  The revisions and what each follows. \<open>alembic upgrade head\<close> applies them one after the
  other, from the revision a database is at, and records the last in \<open>alembic_version\<close>; the
  first argument bounds the length of the chain.
\<close>

record revision =
  rv_id :: string
  rv_down :: "string option"
  rv_upgrade :: "migration_op list"

definition revisions :: "revision list" where
  "revisions =
     [\<lparr>rv_id = ''0001_initial'', rv_down = None, rv_upgrade = initial_upgrade\<rparr>,
      \<lparr>rv_id = ''0002_runtime_persistence'', rv_down = Some ''0001_initial'', rv_upgrade = runtime_upgrade\<rparr>]"

fun upgrade_head :: "nat \<Rightarrow> revision list \<Rightarrow> string option \<times> schema \<Rightarrow> string + string option \<times> schema" where
  "upgrade_head 0 rs d = Inr d"
| "upgrade_head (Suc n) rs (current, s) =
     (case find (\<lambda>r. rv_down r = current) rs of
        None \<Rightarrow> Inr (current, s)
      | Some r \<Rightarrow>
          (case run_operations (rv_upgrade r) s of
             Inl msg \<Rightarrow> Inl msg
           | Inr s' \<Rightarrow> upgrade_head n rs (Some (rv_id r), s')))"

definition expected_tables :: "string list" where
  "expected_tables =
     [''alembic_version'', ''workflow_runs'', ''step_executions'', ''schedules'', ''webhook_registrations'',
      ''workflow_definitions'', ''idempotency_records'', ''execution_events'']"

datatype check_error = AlembicFailed string | MissedTables "string list" | UnexpectedHead "string option"

text \<open>The script on a new database. The missing tables are in the order of the expected ones.\<close>

definition check_sqlite_migrations :: "revision list \<Rightarrow> check_error + nat" where
  "check_sqlite_migrations rs =
     (case upgrade_head (length rs) rs (None, empty_schema) of
        Inl msg \<Rightarrow> Inl (AlembicFailed msg)
      | Inr (current, s) \<Rightarrow>
          (let tables = ''alembic_version'' # dkeys (sc_tables s);
               missing = filter (\<lambda>t. t \<notin> set tables) expected_tables
           in if missing \<noteq> [] then Inl (MissedTables missing)
              else if current \<noteq> Some ''0002_runtime_persistence'' then Inl (UnexpectedHead current)
              else Inr 0))"

lemma check_sqlite_migrations_passes: "check_sqlite_migrations revisions = Inr 0"
  by code_simp

text \<open>Nothing is applied twice, and a database at the first revision is brought to the same head.\<close>

lemma upgrade_head_twice:
  assumes "upgrade_head 2 revisions (current, s) = Inr (current', s')"
    and "current \<in> {None, Some ''0001_initial'', Some ''0002_runtime_persistence''}"
  shows "current' = Some ''0002_runtime_persistence'' \<and> upgrade_head 2 revisions (current', s') = Inr (current', s')"
  using assms by (auto simp: revisions_def numeral_2_eq_2 split: sum.splits)

end
