(* ===== verification/Evidence.thy ===== *)
theory Evidence
  imports Lines "HOL-Library.Multiset" "HOL-Library.List_Lexorder" "HOL-Library.Char_ord"
begin

text \<open>
  The evidence bundle: how \<open>scripts/portfolio_demo.py\<close> writes it and how
  \<open>scripts/verify_portfolio_evidence.py\<close> checks it. A file is the list of its bytes, a
  directory the list of its entries. JSON is written as \<open>json.dumps\<close> does with the options of
  the scripts; reading a text file and parsing JSON are arguments. The result is that the
  verifier accepts one bundle only, byte for byte: the one the generator writes for the
  committed evidence.
\<close>

section \<open>JSON\<close>

datatype json =
    JNull
  | JBool bool
  | JInt int
  | JFloat string
  | JStr string
  | JList "json list"
  | JDict "(string \<times> json) list"

text \<open>A string with \<open>ensure_ascii=False\<close>: quotes, backslashes and control characters are escaped.\<close>

definition json_char :: "char \<Rightarrow> string" where
  "json_char c =
     (let n = of_char c :: nat
      in if c = CHR 0x22 \<or> c = CHR 0x5C then [CHR 0x5C, c]
         else if n = 10 then [CHR 0x5C, CHR ''n'']
         else if n = 13 then [CHR 0x5C, CHR ''r'']
         else if n = 9 then [CHR 0x5C, CHR ''t'']
         else if n = 8 then [CHR 0x5C, CHR ''b'']
         else if n = 12 then [CHR 0x5C, CHR ''f'']
         else if n < 32 then [CHR 0x5C] @ ''u00'' @ [hex_digit (n div 16), hex_digit (n mod 16)]
         else [c])"

lemma json_char_code [code]:
  "json_char c =
     (let n = code_point c
      in if c = CHR 0x22 \<or> c = CHR 0x5C then [CHR 0x5C, c]
         else if n = 10 then [CHR 0x5C, CHR ''n'']
         else if n = 13 then [CHR 0x5C, CHR ''r'']
         else if n = 9 then [CHR 0x5C, CHR ''t'']
         else if n = 8 then [CHR 0x5C, CHR ''b'']
         else if n = 12 then [CHR 0x5C, CHR ''f'']
         else if n < 32 then [CHR 0x5C] @ ''u00'' @ [hex_digit (nat (n div 16)), hex_digit (nat (n mod 16))]
         else [c])"
  by (auto simp: json_char_def code_point_def Let_def nat_div_distrib nat_mod_distrib)

definition json_str :: "string \<Rightarrow> string" where
  "json_str s = CHR 0x22 # concat (map json_char s) @ [CHR 0x22]"

text \<open>\<open>json.dumps(value, ensure_ascii=False, sort_keys=True, separators=(",", ":"))\<close>.\<close>

fun dumps :: "json \<Rightarrow> string" where
  "dumps JNull = ''null''"
| "dumps (JBool b) = (if b then ''true'' else ''false'')"
| "dumps (JInt i) = str_int i"
| "dumps (JFloat r) = r"
| "dumps (JStr s) = json_str s"
| "dumps (JList xs) = ''['' @ join_str '','' (map dumps xs) @ '']''"
| "dumps (JDict d) =
     ''{'' @ join_str '','' (map (\<lambda>(k, t). json_str k @ '':'' @ t) (sort_key fst (map (\<lambda>(k, v). (k, dumps v)) d))) @ ''}''"

text \<open>Values that differ in the order of keys only are written the same.\<close>

fun json_same :: "json \<Rightarrow> json \<Rightarrow> bool" where
  "json_same (JList xs) (JList ys) = list_all2 json_same xs ys"
| "json_same (JDict d) (JDict e) =
     (distinct (map fst d) \<and> length d = length e
      \<and> list_all (\<lambda>(k, v). case map_of e k of None \<Rightarrow> False | Some w \<Rightarrow> json_same v w) d)"
| "json_same v w = (v = w)"

lemma sort_key_fst_cong:
  assumes "distinct (map fst xs)" and "set xs \<subseteq> set ys" and "length xs = length ys"
  shows "sort_key fst xs = sort_key fst ys"
proof -
  have d: "distinct xs" using assms(1) by (simp add: distinct_map)
  have "card (set ys) \<le> card (set xs)" using assms(3) d card_length [of ys] by (simp add: distinct_card)
  then have eq: "set xs = set ys" using assms(2) by (simp add: card_seteq)
  then have "distinct ys" using assms(3) d by (metis card_distinct distinct_card)
  with d eq have "mset (sort_key fst ys) = mset xs" by (simp add: set_eq_iff_mset_eq_distinct)
  then show ?thesis
    using assms(1) by (intro sort_key_inj_key_eq) (simp_all add: distinct_map)
qed

lemma json_same_dumps: "json_same v w \<Longrightarrow> dumps v = dumps w"
proof (induction v w rule: json_same.induct)
  case (1 xs ys)
  from "1.prems" have "list_all2 json_same xs ys" by simp
  then have "map dumps xs = map dumps ys"
    using "1.IH" by (simp add: list_all2_conv_all_nth map_equality_iff)
  then show ?case by simp
next
  case (2 d e)
  let ?w = "map (\<lambda>(k, v). (k, dumps v))"
  have "(k, dumps v) \<in> set (?w e)" if kv: "(k, v) \<in> set d" for k v
  proof -
    from kv "2.prems" obtain w where w: "map_of e k = Some w" "json_same v w"
      by (fastforce simp: list_all_iff split: option.splits)
    from kv w have "dumps v = dumps w" using "2.IH" by auto
    with map_of_SomeD [OF w(1)] show ?thesis by force
  qed
  then have "set (?w d) \<subseteq> set (?w e)" by auto
  moreover have "distinct (map fst (?w d))" using "2.prems" by (simp add: comp_def split_beta)
  ultimately have "sort_key fst (?w d) = sort_key fst (?w e)"
    using "2.prems" by (intro sort_key_fst_cong) simp_all
  then show ?case by simp
qed simp_all

text \<open>The value Python has for it, for its \<open>str\<close>.\<close>

fun to_py :: "json \<Rightarrow> pyval" where
  "to_py JNull = PyNone"
| "to_py (JBool b) = PyBool b"
| "to_py (JInt i) = PyInt i"
| "to_py (JFloat r) = PyFloat r"
| "to_py (JStr s) = PyStr s"
| "to_py (JList xs) = PyList (map to_py xs)"
| "to_py (JDict d) = PyDict (map (\<lambda>(k, v). (PyStr k, to_py v)) d)"

text \<open>\<open>s.encode("utf-8")\<close>.\<close>

definition utf8_char :: "char \<Rightarrow> string" where
  "utf8_char c =
     (let n = of_char c :: nat in if n < 128 then [c] else [char_of (192 + n div 64), char_of (128 + n mod 64)])"

lemma utf8_char_code [code]:
  "utf8_char c =
     (let n = code_point c in if n < 128 then [c] else [char_of (nat (192 + n div 64)), char_of (nat (128 + n mod 64))])"
  by (simp add: utf8_char_def code_point_def Let_def nat_add_distrib nat_div_distrib nat_mod_distrib)

definition utf8 :: "string \<Rightarrow> string" where
  "utf8 s = concat (map utf8_char s)"

section \<open>Files\<close>

datatype entry = File string | Folder "(string \<times> entry) list"

text \<open>
  \<open>sha256_bytes\<close> is \<open>sha256(b).hexdigest()\<close>, \<open>read_utf8\<close> what \<open>read_text(encoding="utf-8")\<close>
  makes of a file's bytes (nothing, where it raises \<open>UnicodeDecodeError\<close>) and \<open>json_loads\<close> is
  \<open>json.loads\<close> (nothing, where it raises \<open>JSONDecodeError\<close>).
\<close>

record evidence_libs =
  sha256_bytes :: "string \<Rightarrow> string"
  read_utf8 :: "string \<Rightarrow> string option"
  json_loads :: "string \<Rightarrow> json option"

text \<open>The verifier's own error, and the errors of Python that it lets through, by their class.\<close>

datatype evidence_error = EvidenceVerificationError string | Escaped string

definition read_bytes :: "(string \<times> entry) list \<Rightarrow> string \<Rightarrow> evidence_error + string" where
  "read_bytes dir name =
     (case dget dir name of Some (File b) \<Rightarrow> Inr b | _ \<Rightarrow> Inl (Escaped ''OSError''))"

definition artifact_files :: "string list" where
  "artifact_files = [''evidence.json'', ''manifest.json'', ''report.md'']"

definition required_files :: "string list" where
  "required_files = [''checksums.sha256'', ''evidence.json'', ''manifest.json'', ''report.md'']"

definition canonical_json :: "json \<Rightarrow> string" where
  "canonical_json v = utf8 (dumps v)"

definition manifest_of :: "string \<Rightarrow> json" where
  "manifest_of reproducibility_hash =
     JDict [(''artifact_files'', JList (map JStr artifact_files)), (''reproducibility_hash'', JStr reproducibility_hash),
            (''schema_version'', JInt 1)]"

definition report_text :: "string \<Rightarrow> pyval \<Rightarrow> string" where
  "report_text reproducibility_hash branch =
     join_str [LF]
       [''# Async Workflow Engine evidence'', [],
        ''Reproducibility hash: `'' @ reproducibility_hash @ ''`'', [],
        ''- Offline SQLite and in-memory storage exercised.'',
        ''- Validation, execution, runtime, security, tasks, and dashboard fixtures are recorded.'',
        ''- Branch result: `'' @ py_str branch @ ''`.'', []]"

text \<open>\<open>evidence["execution"]["branch_statuses"]\<close>.\<close>

definition index_json :: "json \<Rightarrow> string \<Rightarrow> evidence_error + json" where
  "index_json v k =
     (case v of
        JDict d \<Rightarrow> (case dget d k of Some w \<Rightarrow> Inr w | None \<Rightarrow> Inl (Escaped ''KeyError''))
      | _ \<Rightarrow> Inl (Escaped ''TypeError''))"

definition branch_statuses :: "(string, json) dict \<Rightarrow> evidence_error + json" where
  "branch_statuses evidence =
     bind_sum (index_json (JDict evidence) ''execution'') (\<lambda>e. index_json e ''branch_statuses'')"

section \<open>The generator\<close>

text \<open>
  The dictionary comprehension over \<open>sorted(...)\<close>; an empty list or string has no items. (The
  evidence has a dictionary there; for a list that is not empty the model has a \<open>TypeError\<close>.)
\<close>

definition sorted_items :: "json \<Rightarrow> evidence_error + (string, json) dict" where
  "sorted_items v =
     (case v of
        JDict d \<Rightarrow> Inr (sort_key fst d)
      | JList [] \<Rightarrow> Inr []
      | JStr [] \<Rightarrow> Inr []
      | _ \<Rightarrow> Inl (Escaped ''TypeError''))"

definition markdown :: "(string, json) dict \<Rightarrow> string \<Rightarrow> evidence_error + string" where
  "markdown evidence reproducibility_hash =
     bind_sum (branch_statuses evidence) (\<lambda>b.
     bind_sum (sorted_items b) (\<lambda>d. Inr (report_text reproducibility_hash (to_py (JDict d)))))"

definition checksum_line :: "evidence_libs \<Rightarrow> (string \<times> entry) list \<Rightarrow> string \<Rightarrow> evidence_error + string" where
  "checksum_line E dir name =
     bind_sum (read_bytes dir name) (\<lambda>b. Inr (sha256_bytes E b @ ''  '' @ name))"

fun checksum_lines :: "evidence_libs \<Rightarrow> (string \<times> entry) list \<Rightarrow> string list \<Rightarrow> evidence_error + string list" where
  "checksum_lines E dir [] = Inr []"
| "checksum_lines E dir (n # ns) =
     bind_sum (checksum_line E dir n) (\<lambda>l. bind_sum (checksum_lines E dir ns) (\<lambda>ls. Inr (l # ls)))"

definition canonical_checksums :: "evidence_libs \<Rightarrow> (string \<times> entry) list \<Rightarrow> evidence_error + string" where
  "canonical_checksums E dir =
     bind_sum (checksum_lines E dir artifact_files) (\<lambda>ls. Inr (utf8 (join_str [LF] ls @ [LF])))"

text \<open>
  \<open>generate_evidence\<close>: what is at the output path before (a directory there is removed), and
  the directory and the manifest after. A file in the way is an error of \<open>rmtree\<close>.
\<close>

definition generate_evidence :: "evidence_libs \<Rightarrow> (string, json) dict \<Rightarrow> entry option
    \<Rightarrow> evidence_error + (string \<times> entry) list \<times> json" where
  "generate_evidence E evidence old =
     (case old of
        Some (File _) \<Rightarrow> Inl (Escaped ''NotADirectoryError'')
      | _ \<Rightarrow>
          let reproducibility_hash = sha256_bytes E (canonical_json (JDict evidence));
              manifest = manifest_of reproducibility_hash;
              d1 = dset ''evidence.json'' (File (canonical_json (JDict evidence) @ [LF])) [];
              d2 = dset ''manifest.json'' (File (canonical_json manifest @ [LF])) d1
          in bind_sum (markdown evidence reproducibility_hash) (\<lambda>r.
             let d3 = dset ''report.md'' (File (utf8 r)) d2
             in bind_sum (canonical_checksums E d3) (\<lambda>c.
                Inr (dset ''checksums.sha256'' (File c) d3, manifest))))"

section \<open>The verifier\<close>

definition read_json :: "evidence_libs \<Rightarrow> string \<Rightarrow> entry option \<Rightarrow> evidence_error + (string, json) dict" where
  "read_json E name f =
     (case f of
        Some (File b) \<Rightarrow>
          (case read_utf8 E b of
             None \<Rightarrow> Inl (Escaped ''UnicodeDecodeError'')
           | Some t \<Rightarrow>
               (case json_loads E t of
                  None \<Rightarrow> Inl (EvidenceVerificationError (''Malformed JSON: '' @ name))
                | Some (JDict d) \<Rightarrow> Inr d
                | Some _ \<Rightarrow> Inl (EvidenceVerificationError (''JSON object required: '' @ name))))
      | _ \<Rightarrow> Inl (EvidenceVerificationError (''Malformed JSON: '' @ name)))"

text \<open>\<open>line.split("  ", maxsplit=1)\<close> where it gives two parts.\<close>

fun split_pair :: "string \<Rightarrow> (string \<times> string) option" where
  "split_pair [] = None"
| "split_pair (c # s) =
     (if startswith (c # s) ''  '' then Some ([], tl s)
      else map_option (\<lambda>(a, b). (c # a, b)) (split_pair s))"

definition is_hex64 :: "string \<Rightarrow> bool" where
  "is_hex64 s \<longleftrightarrow> length s = 64 \<and> (\<forall>c \<in> set s. c \<in> set ''0123456789abcdef'')"

definition checksum_entry :: "(string, string) dict \<Rightarrow> string \<Rightarrow> evidence_error + (string, string) dict" where
  "checksum_entry checksums line =
     (case split_pair line of
        None \<Rightarrow> Inl (EvidenceVerificationError ''Malformed checksums.sha256'')
      | Some (checksum, filename) \<Rightarrow>
          if \<not> is_hex64 checksum then Inl (EvidenceVerificationError ''Invalid SHA-256 checksum'')
          else if filename \<in> set (dkeys checksums)
                 \<or> filename \<notin> set (removeAll ''checksums.sha256'' required_files)
               then Inl (EvidenceVerificationError ''Unexpected checksum entry'')
          else Inr (dset filename checksum checksums))"

fun checksum_entries :: "(string, string) dict \<Rightarrow> string list \<Rightarrow> evidence_error + (string, string) dict" where
  "checksum_entries checksums [] = Inr checksums"
| "checksum_entries checksums (l # ls) = bind_sum (checksum_entry checksums l) (\<lambda>cs. checksum_entries cs ls)"

definition read_checksums :: "evidence_libs \<Rightarrow> entry option \<Rightarrow> evidence_error + (string, string) dict" where
  "read_checksums E f =
     (case f of
        Some (File b) \<Rightarrow>
          (case read_utf8 E b of
             None \<Rightarrow> Inl (Escaped ''UnicodeDecodeError'')
           | Some t \<Rightarrow> bind_sum (checksum_entries [] (splitlines t)) (\<lambda>checksums.
               if set (dkeys checksums) \<noteq> set (removeAll ''checksums.sha256'' required_files)
               then Inl (EvidenceVerificationError ''Incomplete checksums.sha256'') else Inr checksums))
      | _ \<Rightarrow> Inl (EvidenceVerificationError ''Missing checksums.sha256''))"

fun compare_checksums :: "evidence_libs \<Rightarrow> (string \<times> entry) list \<Rightarrow> (string, string) dict \<Rightarrow> evidence_error + unit" where
  "compare_checksums E dir [] = Inr ()"
| "compare_checksums E dir ((filename, expected) # cs) =
     bind_sum (read_bytes dir filename) (\<lambda>b.
       if sha256_bytes E b \<noteq> expected
       then Inl (EvidenceVerificationError (''Checksum mismatch: '' @ filename)) else compare_checksums E dir cs)"

definition require :: "bool \<Rightarrow> string \<Rightarrow> evidence_error + unit" where
  "require b m = (if b then Inr () else Inl (EvidenceVerificationError m))"

definition expected_report :: "(string, json) dict \<Rightarrow> string \<Rightarrow> evidence_error + string" where
  "expected_report evidence reproducibility_hash =
     bind_sum (branch_statuses evidence) (\<lambda>b. Inr (report_text reproducibility_hash (to_py b)))"

definition verify_evidence :: "evidence_libs \<Rightarrow> entry option \<Rightarrow> entry option \<Rightarrow> evidence_error + (string, json) dict" where
  "verify_evidence E golden_file output =
     (case output of
        Some (Folder dir) \<Rightarrow>
          bind_sum (require (set (dkeys dir) = set required_files) ''Evidence files are missing or unexpected'') (\<lambda>_.
          bind_sum (read_json E ''manifest.json'' (dget dir ''manifest.json'')) (\<lambda>manifest.
          bind_sum (read_json E ''evidence.json'' (dget dir ''evidence.json'')) (\<lambda>_.
          bind_sum (read_json E ''portfolio-evidence.json'' golden_file) (\<lambda>golden.
          bind_sum (read_checksums E (dget dir ''checksums.sha256'')) (\<lambda>checksums.
          bind_sum (compare_checksums E dir checksums) (\<lambda>_.
          bind_sum (read_bytes dir ''checksums.sha256'') (\<lambda>actual.
          bind_sum (canonical_checksums E dir) (\<lambda>canonical.
          bind_sum (require (actual = canonical) ''checksums.sha256 is not canonical'') (\<lambda>_.
          bind_sum (read_bytes dir ''evidence.json'') (\<lambda>evidence.
          bind_sum (require (evidence = canonical_json (JDict golden) @ [LF])
            ''Evidence JSON is not the canonical normalized golden fixture'') (\<lambda>_.
          let reproducibility_hash = sha256_bytes E (canonical_json (JDict golden))
          in bind_sum (read_bytes dir ''manifest.json'') (\<lambda>m.
             bind_sum (require (m = canonical_json (manifest_of reproducibility_hash) @ [LF])
               ''Manifest JSON is not canonical'') (\<lambda>_.
             bind_sum (read_bytes dir ''report.md'') (\<lambda>report.
             bind_sum (expected_report golden reproducibility_hash) (\<lambda>expected.
             bind_sum (require (report = utf8 expected) ''Markdown report does not match normalized evidence'') (\<lambda>_.
               Inr manifest))))))))))))))))
      | _ \<Rightarrow> Inl (EvidenceVerificationError ''Evidence directory is missing''))"

section \<open>The one bundle\<close>

definition signed_files :: "evidence_libs \<Rightarrow> (string, json) dict \<Rightarrow> string \<Rightarrow> (string \<times> string) list" where
  "signed_files E evidence report =
     [(''evidence.json'', canonical_json (JDict evidence) @ [LF]),
      (''manifest.json'', canonical_json (manifest_of (sha256_bytes E (canonical_json (JDict evidence)))) @ [LF]),
      (''report.md'', utf8 report)]"

definition evidence_bundle :: "evidence_libs \<Rightarrow> (string, json) dict \<Rightarrow> string \<Rightarrow> (string \<times> entry) list" where
  "evidence_bundle E evidence report =
     map (\<lambda>(n, b). (n, File b)) (signed_files E evidence report)
     @ [(''checksums.sha256'',
         File (utf8 (concat (map (\<lambda>(n, b). (sha256_bytes E b @ ''  '' @ n) @ [LF]) (signed_files E evidence report)))))]"

lemma generate_evidence_bundle:
  "generate_evidence E evidence old = Inr (dir, manifest) \<longleftrightarrow>
     (\<forall>b. old \<noteq> Some (File b))
     \<and> (\<exists>r. markdown evidence (sha256_bytes E (canonical_json (JDict evidence))) = Inr r \<and> dir = evidence_bundle E evidence r)
     \<and> manifest = manifest_of (sha256_bytes E (canonical_json (JDict evidence)))"
proof -
  have files: "canonical_checksums E
      [(''evidence.json'', File b1), (''manifest.json'', File b2), (''report.md'', File b3)]
    = Inr (utf8 (concat (map (\<lambda>(n, b). (sha256_bytes E b @ ''  '' @ n) @ [LF])
        [(''evidence.json'', b1), (''manifest.json'', b2), (''report.md'', b3)])))" for b1 b2 b3
    by (simp add: canonical_checksums_def artifact_files_def checksum_line_def read_bytes_def)
  show ?thesis
  proof (cases "markdown evidence (sha256_bytes E (canonical_json (JDict evidence)))")
    case (Inl e)
    then show ?thesis by (simp add: generate_evidence_def Let_def split: option.split entry.split)
  next
    case (Inr r)
    then show ?thesis
      by (auto simp: generate_evidence_def Let_def files evidence_bundle_def signed_files_def split: option.split entry.split)
  qed
qed

text \<open>Text of ASCII characters is its own encoding.\<close>

definition ascii :: "string \<Rightarrow> bool" where
  "ascii s \<longleftrightarrow> (\<forall>c \<in> set s. of_char c < (128 :: nat))"

lemma ascii_append [simp]: "ascii (a @ b) \<longleftrightarrow> ascii a \<and> ascii b"
  by (auto simp: ascii_def)

lemma ascii_Cons [simp]: "ascii (c # s) \<longleftrightarrow> of_char c < (128 :: nat) \<and> ascii s"
  by (simp add: ascii_def)

lemma utf8_ascii: "ascii s \<Longrightarrow> utf8 s = s"
  by (induction s) (auto simp: ascii_def utf8_def utf8_char_def)

text \<open>The encoding loses nothing.\<close>

lemma utf8_char_inj: "utf8_char c @ s = utf8_char d @ t \<Longrightarrow> c = d \<and> s = t"
proof -
  assume eq: "utf8_char c @ s = utf8_char d @ t"
  have byte: "of_char (char_of n :: char) = n" if "n < 256" for n :: nat using that by (simp add: of_char_of)
  let ?c = "of_char c :: nat" and ?d = "of_char d :: nat"
  have bounds: "?c < 256" "?d < 256" by simp_all
  have split: "?c = 64 * (?c div 64) + ?c mod 64" "?d = 64 * (?d div 64) + ?d mod 64" by simp_all
  have "?c div 64 < 64" by (rule less_mult_imp_div_less, rule order.strict_trans [OF bounds(1)]) simp
  moreover have "?d div 64 < 64" by (rule less_mult_imp_div_less, rule order.strict_trans [OF bounds(2)]) simp
  ultimately have small: "192 + ?c div 64 < 256" "192 + ?d div 64 < 256" "128 + ?c mod 64 < 256" "128 + ?d mod 64 < 256"
    by simp_all
  have code: "c = d" if "?c = ?d" using arg_cong [OF that, of "char_of :: nat \<Rightarrow> char"] by simp
  show ?thesis
  proof (cases "?c < 128"; cases "?d < 128")
    assume "?c < 128" "?d < 128"
    with eq show ?thesis by (simp add: utf8_char_def)
  next
    assume a: "?c < 128" "\<not> ?d < 128"
    with eq have "c = char_of (192 + ?d div 64)" by (simp add: utf8_char_def Let_def)
    then have "?c = 192 + ?d div 64" using byte [OF small(2)] by metis
    with a show ?thesis by simp
  next
    assume a: "\<not> ?c < 128" "?d < 128"
    with eq have "char_of (192 + ?c div 64) = d" by (simp add: utf8_char_def Let_def)
    then have "?d = 192 + ?c div 64" using byte [OF small(1)] by metis
    with a show ?thesis by simp
  next
    assume a: "\<not> ?c < 128" "\<not> ?d < 128"
    with eq have b: "(char_of (192 + ?c div 64) :: char) = char_of (192 + ?d div 64)"
        "(char_of (128 + ?c mod 64) :: char) = char_of (128 + ?d mod 64)" "s = t"
      by (simp_all add: utf8_char_def Let_def)
    have "?c div 64 = ?d div 64" using arg_cong [OF b(1), of "of_char :: char \<Rightarrow> nat"] byte [OF small(1)] byte [OF small(2)] by simp
    moreover have "?c mod 64 = ?d mod 64"
      using arg_cong [OF b(2), of "of_char :: char \<Rightarrow> nat"] byte [OF small(3)] byte [OF small(4)] by simp
    ultimately have "?c = ?d" using split by metis
    with code b(3) show ?thesis by simp
  qed
qed

lemma utf8_inj: "utf8 s = utf8 t \<Longrightarrow> s = t"
proof (induction s arbitrary: t)
  case Nil
  then show ?case by (cases t) (auto simp: utf8_def utf8_char_def Let_def split: if_splits)
next
  case (Cons c s)
  then obtain d t' where t: "t = d # t'"
    by (cases t) (auto simp: utf8_def utf8_char_def Let_def split: if_splits)
  with Cons.prems have "utf8_char c @ utf8 s = utf8_char d @ utf8 t'" by (simp add: utf8_def)
  from utf8_char_inj [OF this] Cons.IH t show ?case by simp
qed

text \<open>What the verifier reads back of the checksums.\<close>

lemma split_pair_hex: "CHR '' '' \<notin> set h \<Longrightarrow> split_pair (h @ ''  '' @ n) = Some (h, n)"
  by (induction h) auto

lemma hex_digit_chars:
  "\<forall>c \<in> set ''0123456789abcdef''. c \<noteq> CHR '' '' \<and> \<not> line_break c \<and> of_char c < (128 :: nat)"
  by code_simp

lemma hex64_chars:
  assumes "is_hex64 h"
  shows "CHR '' '' \<notin> set h" and "\<forall>c \<in> set h. \<not> line_break c" and "ascii h"
  using assms hex_digit_chars unfolding is_hex64_def ascii_def by blast+

lemma checksum_entries_canonical:
  assumes hex: "\<And>b. is_hex64 (sha256_bytes E b)" and "distinct (dkeys cs @ map fst files)"
    and "set (map fst files) \<subseteq> set artifact_files"
  shows "checksum_entries cs (map (\<lambda>(n, b). sha256_bytes E b @ ''  '' @ n) files)
    = Inr (cs @ map (\<lambda>(n, b). (n, sha256_bytes E b)) files)"
  using assms(2,3)
proof (induction files arbitrary: cs)
  case Nil
  then show ?case by simp
next
  case (Cons f files)
  obtain n b where f: "f = (n, b)" by force
  let ?h = "sha256_bytes E b"
  have "split_pair (?h @ ''  '' @ n) = Some (?h, n)" by (rule split_pair_hex [OF hex64_chars(1) [OF hex]])
  moreover have "n \<notin> set (dkeys cs)" "n \<in> set artifact_files" using Cons.prems f by auto
  moreover have "set artifact_files = set (removeAll ''checksums.sha256'' required_files)"
    by (auto simp: artifact_files_def required_files_def)
  ultimately have "checksum_entry cs (?h @ ''  '' @ n) = Inr (cs @ [(n, ?h)])"
    using hex [of b] by (simp add: checksum_entry_def dset_new)
  moreover have "checksum_entries (cs @ [(n, ?h)]) (map (\<lambda>(n, b). sha256_bytes E b @ ''  '' @ n) files)
      = Inr ((cs @ [(n, ?h)]) @ map (\<lambda>(n, b). (n, sha256_bytes E b)) files)"
    by (rule Cons.IH) (use Cons.prems f in auto)
  ultimately show ?case using f by simp
qed

lemma signed_files_names: "map fst (signed_files E g r) = artifact_files"
  by (simp add: signed_files_def artifact_files_def)

lemma compare_checksums_iff:
  "compare_checksums E dir cs = Inr () \<longleftrightarrow> (\<forall>(n, h) \<in> set cs. \<exists>b. dget dir n = Some (File b) \<and> sha256_bytes E b = h)"
  by (induction E dir cs rule: compare_checksums.induct)
    (auto simp: bind_sum_Inr_iff read_bytes_def split: option.splits entry.splits)

definition checksums_text :: "evidence_libs \<Rightarrow> (string \<times> string) list \<Rightarrow> string" where
  "checksums_text E files = concat (map (\<lambda>(n, b). (sha256_bytes E b @ ''  '' @ n) @ [LF]) files)"

lemma checksums_text_lines:
  "checksums_text E files = concat (map (\<lambda>l. l @ [LF]) (map (\<lambda>(n, b). sha256_bytes E b @ ''  '' @ n) files))"
  by (induction files) (auto simp: checksums_text_def)

lemma artifact_name_chars: "n \<in> set artifact_files \<Longrightarrow> (\<forall>c \<in> set n. \<not> line_break c) \<and> ascii n"
  by (auto simp: artifact_files_def line_break_def ascii_def)

lemma checksums_text_ascii:
  assumes "\<And>b. is_hex64 (sha256_bytes E b)" and "set (map fst files) \<subseteq> set artifact_files"
  shows "ascii (checksums_text E files)"
  using assms(2)
proof (induction files)
  case Nil
  then show ?case by (simp add: checksums_text_def ascii_def)
next
  case (Cons f files)
  obtain n b where f: "f = (n, b)" by force
  have "ascii (sha256_bytes E b)" "ascii n" "ascii ''  ''" "ascii [LF]"
    using hex64_chars(3) [OF assms(1)] artifact_name_chars [of n] Cons.prems f by (auto simp: ascii_def)
  with Cons f show ?case by (simp add: checksums_text_def)
qed

lemma read_checksums_canonical:
  assumes hex: "\<And>b. is_hex64 (sha256_bytes E b)" and "read_utf8 E (checksums_text E (signed_files E g r)) = Some (checksums_text E (signed_files E g r))"
  shows "read_checksums E (Some (File (checksums_text E (signed_files E g r))))
    = Inr (map (\<lambda>(n, b). (n, sha256_bytes E b)) (signed_files E g r))"
proof -
  let ?files = "signed_files E g r"
  let ?ls = "map (\<lambda>(n, b). sha256_bytes E b @ ''  '' @ n) ?files"
  have names: "set (map fst ?files) \<subseteq> set artifact_files" by (simp add: signed_files_names)
  have "\<forall>l \<in> set ?ls. \<forall>c \<in> set l. \<not> line_break c"
  proof
    fix l assume "l \<in> set ?ls"
    then obtain n b where l: "l = sha256_bytes E b @ ''  '' @ n" and n: "(n, b) \<in> set ?files" by auto
    have "n \<in> set artifact_files" using names n by force
    then show "\<forall>c \<in> set l. \<not> line_break c"
      using artifact_name_chars [of n] hex64_chars(2) [OF hex, of b] l by (auto simp: line_break_def)
  qed
  then have "splitlines (checksums_text E ?files) = ?ls" unfolding checksums_text_lines by (rule splitlines_concat)
  moreover have "checksum_entries [] ?ls = Inr ([] @ map (\<lambda>(n, b). (n, sha256_bytes E b)) ?files)"
    by (rule checksum_entries_canonical [OF hex])
      (simp_all add: signed_files_names artifact_files_def)
  moreover have "dkeys (map (\<lambda>(n, b). (n, sha256_bytes E b)) ?files) = removeAll ''checksums.sha256'' required_files"
    by (simp add: signed_files_def required_files_def)
  ultimately show ?thesis
    using assms(2) by (simp only: read_checksums_def entry.simps option.simps bind_sum_simps append_Nil if_False not_not simp_thms)
qed

lemma require_Inr_iff [simp]: "require b m = Inr () \<longleftrightarrow> b"
  by (simp add: require_def)

lemma read_bytes_Inr_iff: "read_bytes dir n = Inr b \<longleftrightarrow> dget dir n = Some (File b)"
  by (auto simp: read_bytes_def split: option.splits entry.splits)

lemma canonical_checksums_signed:
  assumes "\<And>n b. (n, b) \<in> set (signed_files E g r) \<Longrightarrow> dget dir n = Some (File b)"
  shows "canonical_checksums E dir = Inr (utf8 (checksums_text E (signed_files E g r)))"
  using assms [of "''evidence.json''"] assms [of "''manifest.json''"] assms [of "''report.md''"]
  by (simp add: canonical_checksums_def artifact_files_def checksum_line_def read_bytes_def signed_files_def
      checksums_text_def)

text \<open>A directory with the required names agrees with the bundle when it does on each of them.\<close>

lemma bundle_entries:
  "dget (evidence_bundle E g r) n =
     (if n = ''checksums.sha256'' then Some (File (utf8 (checksums_text E (signed_files E g r))))
      else map_option File (dget (signed_files E g r) n))"
  by (auto simp: evidence_bundle_def signed_files_def checksums_text_def)

lemma same_as_bundle_iff:
  assumes "set (dkeys dir) = set required_files"
  shows "dget dir = dget (evidence_bundle E g r) \<longleftrightarrow>
    dget dir ''checksums.sha256'' = Some (File (utf8 (checksums_text E (signed_files E g r))))
    \<and> (\<forall>(n, b) \<in> set (signed_files E g r). dget dir n = Some (File b))"
    (is "?l \<longleftrightarrow> ?r")
proof
  assume ?l
  then show ?r by (simp add: bundle_entries signed_files_def)
next
  assume r: ?r
  show ?l
  proof
    fix n
    show "dget dir n = dget (evidence_bundle E g r) n"
    proof (cases "n \<in> set required_files")
      case True
      with r show ?thesis by (auto simp: bundle_entries signed_files_def required_files_def)
    next
      case False
      with assms have "dget dir n = None" by (simp add: map_of_eq_None_iff)
      with False show ?thesis by (auto simp: bundle_entries signed_files_def required_files_def)
    qed
  qed
qed

text \<open>The checks of the verifier, with the reading of the checksums resolved.\<close>

lemma verified_files:
  assumes "verify_evidence E golden_file (Some (Folder dir)) = Inr m"
    and golden: "read_json E ''portfolio-evidence.json'' golden_file = Inr g"
  shows "\<exists>r. expected_report g (sha256_bytes E (canonical_json (JDict g))) = Inr r
      \<and> dget dir = dget (evidence_bundle E g r)"
    and "read_json E ''manifest.json'' (dget dir ''manifest.json'') = Inr m"
proof -
  let ?h = "sha256_bytes E (canonical_json (JDict g))"
  obtain actual r where names: "set (dkeys dir) = set required_files"
    and m: "read_json E ''manifest.json'' (dget dir ''manifest.json'') = Inr m"
    and files: "dget dir ''checksums.sha256'' = Some (File actual)" "canonical_checksums E dir = Inr actual"
      "dget dir ''evidence.json'' = Some (File (canonical_json (JDict g) @ [LF]))"
      "dget dir ''manifest.json'' = Some (File (canonical_json (manifest_of ?h) @ [LF]))"
      "dget dir ''report.md'' = Some (File (utf8 r))"
    and r: "expected_report g ?h = Inr r"
    using assms(1) golden
    by (simp add: verify_evidence_def bind_sum_Inr_iff Let_def read_bytes_Inr_iff) (elim exE conjE, simp)
  have signed: "\<forall>(n, b) \<in> set (signed_files E g r). dget dir n = Some (File b)"
    using files(3-5) by (simp add: signed_files_def)
  then have "canonical_checksums E dir = Inr (utf8 (checksums_text E (signed_files E g r)))"
    by (intro canonical_checksums_signed) auto
  with files(1,2) signed have "dget dir = dget (evidence_bundle E g r)"
    by (simp add: same_as_bundle_iff [OF names])
  with r show "\<exists>r. expected_report g ?h = Inr r \<and> dget dir = dget (evidence_bundle E g r)" by blast
  show "read_json E ''manifest.json'' (dget dir ''manifest.json'') = Inr m" by (rule m)
qed

lemma bundle_verified:
  assumes hex: "\<And>b. is_hex64 (sha256_bytes E b)"
    and plain: "\<And>s. ascii s \<Longrightarrow> CR \<notin> set s \<Longrightarrow> read_utf8 E s = Some s"
    and objects: "\<And>name d. \<exists>d'. read_json E name (Some (File (canonical_json (JDict d) @ [LF]))) = Inr d'"
    and golden: "read_json E ''portfolio-evidence.json'' golden_file = Inr g"
    and r: "expected_report g (sha256_bytes E (canonical_json (JDict g))) = Inr r"
    and dir: "dget dir = dget (evidence_bundle E g r)"
    and m: "read_json E ''manifest.json'' (dget dir ''manifest.json'') = Inr m"
  shows "verify_evidence E golden_file (Some (Folder dir)) = Inr m"
proof -
  let ?files = "signed_files E g r" and ?h = "sha256_bytes E (canonical_json (JDict g))"
  let ?text = "checksums_text E ?files"
  have "set (dkeys dir) = dom (dget (evidence_bundle E g r))" using dir by (metis dom_map_of_conv_image_fst set_map)
  also have "\<dots> = set required_files"
    by (auto simp: dom_def bundle_entries signed_files_def required_files_def split: if_splits)
  finally have names: "set (dkeys dir) = set required_files" .
  have files: "dget dir ''checksums.sha256'' = Some (File (utf8 ?text))"
      and signed: "\<forall>(n, b) \<in> set ?files. dget dir n = Some (File b)"
    using same_as_bundle_iff [OF names] dir by blast+
  have ascii: "ascii ?text" by (rule checksums_text_ascii [OF hex]) (simp add: signed_files_names)
  have "CR \<notin> set (sha256_bytes E b)" for b using hex64_chars(2) [OF hex, of b] by auto
  then have "CR \<notin> set ?text" by (auto simp: checksums_text_def signed_files_def)
  then have "read_checksums E (Some (File (utf8 ?text))) = Inr (map (\<lambda>(n, b). (n, sha256_bytes E b)) ?files)"
    using read_checksums_canonical [OF hex plain [OF ascii]] utf8_ascii [OF ascii] by simp
  moreover have "compare_checksums E dir (map (\<lambda>(n, b). (n, sha256_bytes E b)) ?files) = Inr ()"
    using signed by (auto simp: compare_checksums_iff)
  moreover have "canonical_checksums E dir = Inr (utf8 ?text)"
    by (rule canonical_checksums_signed) (use signed in auto)
  moreover have one: "dget dir ''evidence.json'' = Some (File (canonical_json (JDict g) @ [LF]))"
      "dget dir ''manifest.json'' = Some (File (canonical_json (manifest_of ?h) @ [LF]))"
      "dget dir ''report.md'' = Some (File (utf8 r))"
    using signed by (simp_all add: signed_files_def)
  moreover obtain e where "read_json E ''evidence.json'' (dget dir ''evidence.json'') = Inr e"
    using objects [of "''evidence.json''" g] one(1) by auto
  ultimately show ?thesis
    using names files golden r m
    by (simp add: verify_evidence_def bind_sum_Inr_iff Let_def read_bytes_Inr_iff)
qed


text \<open>A small fixture, a digest of the length only and a parser that knows the fixture.\<close>

definition ex_golden :: "(string, json) dict" where
  "ex_golden = [(''execution'', JDict [(''branch_statuses'', JDict [(''notify'', JStr ''SKIPPED''), (''parse'', JStr ''COMPLETED'')])])]"

definition ex_evidence_libs :: evidence_libs where
  "ex_evidence_libs =
     \<lparr>sha256_bytes = (\<lambda>b. replicate 63 (CHR ''0'') @ [hex_digit (length b mod 16)]),
      read_utf8 = Some,
      json_loads = (\<lambda>t. Some (JDict (if contains_str ''execution'' t then ex_golden else [])))\<rparr>"

definition ex_golden_file :: "entry option" where
  "ex_golden_file = Some (File (canonical_json (JDict ex_golden)))"

lemma ex_evidence_libs_ok:
  "\<forall>b. is_hex64 (sha256_bytes ex_evidence_libs b)"
  "\<forall>s. ascii s \<and> CR \<notin> set s \<longrightarrow> read_utf8 ex_evidence_libs s = Some s"
  "\<forall>name d. \<exists>d'. read_json ex_evidence_libs name (Some (File (canonical_json (JDict d) @ [LF]))) = Inr d'"
  "read_json ex_evidence_libs ''portfolio-evidence.json'' ex_golden_file = Inr ex_golden"
proof -
  define S where "S = set ''0123456789abcdef''"
  have "\<forall>k \<in> set [0..<16]. hex_digit k \<in> S" unfolding S_def by code_simp
  then have "hex_digit (length b mod 16) \<in> S" for b :: string by (rule bspec) simp
  moreover have "CHR ''0'' \<in> S" by (simp add: S_def)
  ultimately show "\<forall>b. is_hex64 (sha256_bytes ex_evidence_libs b)"
    unfolding is_hex64_def ex_evidence_libs_def S_def [symmetric] by simp
  show "\<forall>s. ascii s \<and> CR \<notin> set s \<longrightarrow> read_utf8 ex_evidence_libs s = Some s"
    by (simp add: ex_evidence_libs_def)
  show "\<forall>name d. \<exists>d'. read_json ex_evidence_libs name (Some (File (canonical_json (JDict d) @ [LF]))) = Inr d'"
    by (simp add: ex_evidence_libs_def read_json_def)
  show "read_json ex_evidence_libs ''portfolio-evidence.json'' ex_golden_file = Inr ex_golden"
    by code_simp
qed

definition ex_report :: string where
  "ex_report = report_text (sha256_bytes ex_evidence_libs (canonical_json (JDict ex_golden)))
     (to_py (JDict [(''notify'', JStr ''SKIPPED''), (''parse'', JStr ''COMPLETED'')]))"

lemma ex_report_ok:
  "expected_report ex_golden (sha256_bytes ex_evidence_libs (canonical_json (JDict ex_golden))) = Inr ex_report"
  by (simp add: expected_report_def branch_statuses_def index_json_def ex_golden_def ex_report_def)


text \<open>
  A generated bundle is accepted exactly when it was generated from the committed
  evidence: the evidence has the same canonical JSON, and the report that the generator writes
  (with the steps sorted) is the one that the verifier expects (in the order of the file).
\<close>

theorem generated_evidence_verifies:
  assumes "\<forall>b. is_hex64 (sha256_bytes E b)"
    and "\<forall>s. ascii s \<and> CR \<notin> set s \<longrightarrow> read_utf8 E s = Some s"
    and "\<forall>name d. \<exists>d'. read_json E name (Some (File (canonical_json (JDict d) @ [LF]))) = Inr d'"
    and "read_json E ''portfolio-evidence.json'' golden_file = Inr g"
    and "generate_evidence E evidence old = Inr (dir, manifest)"
  shows "(\<exists>m. verify_evidence E golden_file (Some (Folder dir)) = Inr m) \<longleftrightarrow>
    canonical_json (JDict evidence) = canonical_json (JDict g)
    \<and> expected_report g (sha256_bytes E (canonical_json (JDict g)))
        = markdown evidence (sha256_bytes E (canonical_json (JDict evidence)))"
proof
  obtain r where r: "markdown evidence (sha256_bytes E (canonical_json (JDict evidence))) = Inr r"
    and dir: "dir = evidence_bundle E evidence r"
    using assms(5) by (auto simp: generate_evidence_bundle)
  {
    assume "\<exists>m. verify_evidence E golden_file (Some (Folder dir)) = Inr m"
    then obtain r' where r': "expected_report g (sha256_bytes E (canonical_json (JDict g))) = Inr r'"
      and same: "dget (evidence_bundle E evidence r) = dget (evidence_bundle E g r')"
      using verified_files(1) [OF _ assms(4)] dir by metis
    have "canonical_json (JDict evidence) = canonical_json (JDict g)"
      using fun_cong [OF same, of "''evidence.json''"] by (simp add: bundle_entries signed_files_def)
    moreover have "r = r'"
      using fun_cong [OF same, of "''report.md''"] by (auto simp: bundle_entries signed_files_def dest: utf8_inj)
    ultimately show "canonical_json (JDict evidence) = canonical_json (JDict g)
      \<and> expected_report g (sha256_bytes E (canonical_json (JDict g)))
          = markdown evidence (sha256_bytes E (canonical_json (JDict evidence)))"
      using r r' by simp
  next
    assume same: "canonical_json (JDict evidence) = canonical_json (JDict g)
      \<and> expected_report g (sha256_bytes E (canonical_json (JDict g)))
          = markdown evidence (sha256_bytes E (canonical_json (JDict evidence)))"
    then have "signed_files E evidence r = signed_files E g r" by (simp add: signed_files_def)
    then have agree: "dget dir = dget (evidence_bundle E g r)" by (simp add: dir bundle_entries fun_eq_iff)
    let ?h = "sha256_bytes E (canonical_json (JDict g))"
    have "dget dir ''manifest.json'' = Some (File (canonical_json (manifest_of ?h) @ [LF]))"
      unfolding agree by (simp add: bundle_entries signed_files_def)
    then obtain m where m: "read_json E ''manifest.json'' (dget dir ''manifest.json'') = Inr m"
      using assms(3) by (auto simp: manifest_of_def)
    have "verify_evidence E golden_file (Some (Folder dir)) = Inr m"
      by (rule bundle_verified [OF _ _ _ assms(4) _ agree m]) (use assms(1-3) same r in auto)
    then show "\<exists>m. verify_evidence E golden_file (Some (Folder dir)) = Inr m" by blast
  }
qed

definition ex_generated :: "(string, json) dict" where
  "ex_generated = [(''execution'', JDict [(''branch_statuses'', JDict [(''parse'', JStr ''COMPLETED''), (''notify'', JStr ''SKIPPED'')])])]"

theorem generated_evidence_verifies_witness:
  "\<exists>dir manifest m. generate_evidence ex_evidence_libs ex_generated None = Inr (dir, manifest)
    \<and> verify_evidence ex_evidence_libs ex_golden_file (Some (Folder dir)) = Inr m"
proof -
  have same: "canonical_json (JDict ex_generated) = canonical_json (JDict ex_golden)" by code_simp
  have report: "markdown ex_generated (sha256_bytes ex_evidence_libs (canonical_json (JDict ex_generated))) = Inr ex_report"
    by code_simp
  obtain dir manifest where g: "generate_evidence ex_evidence_libs ex_generated None = Inr (dir, manifest)"
    using report by (simp add: generate_evidence_bundle)
  show ?thesis
    using generated_evidence_verifies [OF ex_evidence_libs_ok g] same report ex_report_ok g by auto
qed

end
