(* ===== verification/Demo.thy ===== *)
theory Demo
  imports Runner Tasks Evidence Webhooks
begin

text \<open>
  \<open>scripts/portfolio_demo.py\<close>: the demonstration that runs the engine on fixed workflows and
  collects what it observes. Every section is the composition of the engine's operations that
  the script calls, so that running the models reproduces the evidence that the repository
  has committed (\<open>tests/fixtures/golden/portfolio-evidence.json\<close>). Two things are outside the
  model and are arguments: the result of parsing the YAML texts (part of \<open>libs\<close>) and the
  number of probes that the threads' barrier has seen active at once.
\<close>

section \<open>The workflows\<close>

definition text_lines :: "string list \<Rightarrow> string" where
  "text_lines ls = concat (map (\<lambda>l. l @ [LF]) ls)"

definition branching_yaml :: string where
  "branching_yaml = text_lines
     [''name: evidence-branching'', ''steps:'',
      ''  - id: parse'', ''    task: parse_text'', ''    params:'',
      ''      text: '' @ [CHR 0x22] @ ''business request from ACME'' @ [CHR 0x22],
      ''  - id: classify'', ''    task: classify_with_llm'', ''    depends_on: [parse]'', ''    params:'',
      ''      labels: [business, spam]'',
      ''      text: '' @ [CHR 0x22] @ ''business request from ACME'' @ [CHR 0x22],
      ''  - id: notify_business'', ''    task: send_notification'', ''    depends_on: [classify]'', ''    condition:'',
      ''      step: classify'', ''      contains: business'',
      ''  - id: notify_spam'', ''    task: send_notification'', ''    depends_on: [classify]'', ''    condition:'',
      ''      step: classify'', ''      contains: spam'']"

definition failure_yaml :: string where
  "failure_yaml = text_lines
     [''name: evidence-failure'', ''steps:'', ''  - id: parse'', ''    task: parse_text'', ''  - id: fail'',
      ''    task: always_fail'', ''    depends_on: [parse]'', ''    retries: 1'', ''    params:'',
      ''      message: '' @ [CHR 0x22] @ ''intentional evidence failure'' @ [CHR 0x22]]"

definition parallel_yaml :: string where
  "parallel_yaml = text_lines
     [''name: evidence-parallel'', ''steps:'', ''  - id: first'', ''    task: probe'', ''  - id: second'', ''    task: probe'']"

definition typed_yaml :: string where
  "typed_yaml = text_lines
     [''name: evidence-typed'', ''typed_io: true'', ''steps:'', ''  - id: typed'', ''    task: typed_probe'',
      ''    params:'', ''      proof: TaskInput->TaskResult'']"

definition cycle_yaml :: string where
  "cycle_yaml = text_lines
     [''name: cycle'', ''steps:'', ''  - id: one'', ''    task: parse_text'', ''    depends_on: [two]'',
      ''  - id: two'', ''    task: parse_text'', ''    depends_on: [one]'']"

definition unknown_yaml :: string where
  "unknown_yaml = text_lines [''name: unknown'', ''steps:'', ''  - id: only'', ''    task: absent'']"

section \<open>Helpers\<close>

text \<open>
  A task as an entry of the registry. A call that never returns has no place in a run; the
  demonstration makes none.
\<close>

definition as_object :: "'v task \<Rightarrow> (pricing \<times> 'v) task_object" where
  "as_object f =
     \<lparr>to_class = ''function'',
      to_call = Some (\<lambda>w context params.
        case f w context params of Some r \<Rightarrow> r | None \<Rightarrow> (w, Inl ''does not return'')),
      to_run = None\<rparr>"

definition demo_args :: "string \<Rightarrow> int option \<Rightarrow> string option \<Rightarrow> 'w run_args" where
  "demo_args run_id concurrency trigger =
     \<lparr>ra_run_id = Some run_id, ra_registry = [], ra_concurrency = concurrency, ra_typed_io = None,
      ra_trace = map_option (\<lambda>t. new_trace (Some t) None) trigger, ra_services = None, ra_version_hash = None,
      ra_events = None\<rparr>"

text \<open>\<open>WorkflowExecutor(load_workflow_yaml(text), registry, ...).execute()\<close>.\<close>

definition run_executor :: "'w env \<Rightarrow> string \<Rightarrow> 'w registry \<Rightarrow> int option \<Rightarrow> trace_context option \<Rightarrow> 'w process
    \<Rightarrow> 'w process \<times> (exn + 'w exec)" where
  "run_executor env yaml registry concurrency trace =
     bind_st (lift_sum (load_workflow_yaml (nv_libs env) yaml)) (\<lambda>config.
       execute_config env config registry concurrency None trace)"

text \<open>Subscripts; the keys read are there.\<close>

definition py_at :: "pyval \<Rightarrow> string \<Rightarrow> pyval" where
  "py_at v k = (case v of PyDict d \<Rightarrow> get_default PyNone d (PyStr k) | _ \<Rightarrow> PyNone)"

definition py_items :: "pyval \<Rightarrow> pyval list" where
  "py_items v = (case v of PyList vs \<Rightarrow> vs | _ \<Rightarrow> [])"

definition py_pick :: "string list \<Rightarrow> pyval \<Rightarrow> pyval" where
  "py_pick ks v = py_str_dict (map (\<lambda>k. (k, py_at v k)) ks)"

text \<open>The \<open>repr\<close> of a back-off delay, which is a half or a whole number of seconds.\<close>

definition delay_repr :: "rat \<Rightarrow> string" where
  "delay_repr d = (if d = 1/2 then ''0.5'' else str_int \<lfloor>d\<rfloor> @ ''.0'')"

text \<open>The stores that a section creates for itself; the tables of the SQLite database are empty.\<close>

definition new_stores :: "'w process \<Rightarrow> 'w process \<times> (exn + unit)" where
  "new_stores p =
     (p\<lparr>pr_runs := [], pr_schedules := [], pr_webhooks := [], pr_versions := [], pr_claims := [], pr_events := [],
        pr_db := \<lparr>db_tables = \<lparr>tb_runs = [], tb_steps = [], tb_schedules = [], tb_webhooks = [],
           tb_definitions = [], tb_claims = [], tb_events = []\<rparr>, db_faults = []\<rparr>\<rparr>, Inr ())"

section \<open>The sections of the evidence\<close>

text \<open>\<open>try: ... except ValueError\<close>.\<close>

definition refused :: "('s \<Rightarrow> 's \<times> (exn + 'a)) \<Rightarrow> 's \<Rightarrow> 's \<times> (exn + bool)" where
  "refused m p =
     (case m p of
        (p', Inl e) \<Rightarrow> (p', if is_value_error e then Inr True else Inl e)
      | (p', Inr _) \<Rightarrow> (p', Inr False))"

definition validation_evidence :: "'w env \<Rightarrow> 'w process \<Rightarrow> 'w process \<times> (exn + pyval)" where
  "validation_evidence env =
     bind_st (lift_sum (load_workflow_yaml (nv_libs env) branching_yaml)) (\<lambda>config.
     bind_st (case load_workflow_yaml (nv_libs env) cycle_yaml of
                Inl (WorkflowValidationError _) \<Rightarrow> return_st True
              | Inl e \<Rightarrow> raise_st e
              | Inr _ \<Rightarrow> return_st False) (\<lambda>cycle_refused.
     bind_st (refused (run_executor env unknown_yaml (nv_registry env) None None)) (\<lambda>unknown_task_refused.
       return_st (py_str_dict
         [(''valid_yaml'', PyBool (wf_name config = ''evidence-branching'')),
          (''cycle_refused'', PyBool cycle_refused),
          (''unknown_task_refused'', PyBool unknown_task_refused)]))))"

definition typed_probe :: "'w task_object" where
  "typed_probe =
     \<lparr>to_class = ''TypedProbe'', to_call = None,
      to_run = Some (\<lambda>w context params.
        (w, Inr (task_ok (py_str_dict [(''kind'', PyStr ''typed''), (''params'', py_str_dict params)])
                   [(''adapter'', PyStr ''TaskInput->TaskResult'')])))\<rparr>"

definition probe :: "'v task_env \<Rightarrow> 'v task" where
  "probe te w context params = parse_text te w context [(''text'', PyStr ''parallel evidence'')]"

definition execution_view :: "int \<Rightarrow> (string, pyval) dict \<Rightarrow> (string, pyval) dict \<Rightarrow> (string, pyval) dict
    \<Rightarrow> 'w exec \<Rightarrow> 'w exec \<Rightarrow> 'w exec \<Rightarrow> pyval" where
  "execution_view observed_max branch failure rerun par typed backoffs =
     (let retries = filter (\<lambda>e. py_at e ''kind'' = PyStr ''step.retry'')
        (case ex_trace backoffs of
           None \<Rightarrow> [] | Some t \<Rightarrow> map (py_str_dict \<circ> event_payload \<circ> EventObject) (tc_events t))
      in py_str_dict
        [(''branch_statuses'', get_default PyNone branch ''step_statuses''),
         (''typed_io'', get_default PyNone (ex_results typed) ''typed''),
         (''trace_kinds'', PyList (map (\<lambda>e. py_at e ''kind'') (py_items (get_default PyNone branch ''events'')))),
         (''bounded_parallel'', py_str_dict
           [(''limit'', PyInt 2), (''observed_max'', PyInt observed_max),
            (''statuses'', py_str_values (status_dict par))]),
         (''partial_failure_status'', get_default PyNone failure ''status''),
         (''partial_failure_step_statuses'', get_default PyNone failure ''step_statuses''),
         (''partial_failure_trace'', PyList (map (py_pick [''kind'', ''attempt'']) (py_items (get_default PyNone failure ''events'')))),
         (''dlq_attempts'', case py_items (get_default PyNone failure ''dead_letters'') of
            [] \<Rightarrow> PyNone | l # _ \<Rightarrow> py_at l ''attempts''),
         (''retry_backoff'', py_str_dict
           [(''observed_seconds'', PyList (map (PyFloat \<circ> delay_repr) (ex_sleeps backoffs))),
            (''retry_events'', PyList (map (py_pick [''kind'', ''attempt'']) retries))]),
         (''rerun_preserved_id'', PyBool (get_default PyNone rerun ''run_id'' = get_default PyNone failure ''run_id''))])"

definition execution_evidence :: "(pricing \<times> 'v) env \<Rightarrow> 'v task_env \<Rightarrow> int \<Rightarrow> (pricing \<times> 'v) process
    \<Rightarrow> (pricing \<times> 'v) process \<times> (exn + (pyval \<times> (string, pyval) dict))" where
  "execution_evidence env te observed_max =
     bind_st new_stores (\<lambda>_.
     bind_st (run_workflow env branching_yaml (offline_storage env)
       (demo_args ''normalized-branch-run'' (Some 2) (Some ''normalized-trigger''))) (\<lambda>branch.
     bind_st (run_workflow env failure_yaml (offline_storage env)
       (demo_args ''normalized-failure-run'' None (Some ''normalized-trigger''))) (\<lambda>failure.
     bind_st (run_workflow env failure_yaml (offline_storage env)
       (demo_args ''normalized-failure-run'' None (Some ''normalized-trigger''))) (\<lambda>rerun.
     bind_st (run_executor env parallel_yaml [(''probe'', as_object (probe te))] (Some 2) None) (\<lambda>parallel.
     bind_st (run_executor env typed_yaml [(''typed_probe'', typed_probe)] None None) (\<lambda>typed.
     bind_st (run_executor env failure_yaml (nv_registry env) None (Some (new_trace (Some ''normalized-trigger'') None)))
       (\<lambda>backoff.
       return_st (execution_view observed_max branch failure rerun parallel typed backoff, branch))))))))"

text \<open>2026-01-01 in UTC, and the schedule put back to a minute before it.\<close>

definition fixed_now :: int where
  "fixed_now = 1767225600000000"

definition put_due :: "'w env \<Rightarrow> scheduled_workflow \<Rightarrow> 'w process \<Rightarrow> 'w process \<times> (exn + unit)" where
  "put_due env schedule =
     so_put (sv_schedules (in_memory (nv_libs env))) (schedule\<lparr>sw_next_run := Some (fixed_now - 60000000)\<rparr>)"

definition demo_tick :: "'w env \<Rightarrow> string \<Rightarrow> 'w process \<Rightarrow> 'w process \<times> (exn + (string, pyval) dict list)" where
  "demo_tick env run_id =
     dispatch_due (nv_libs env) (sv_schedules (in_memory (nv_libs env))) (Some (sv_claim (in_memory (nv_libs env))))
       (\<lambda>p. nv_clock env (pr_world p))
       (\<lambda>yaml. run_workflow env yaml (offline_storage env) (demo_args run_id None None)) (Some fixed_now)"

definition runtime_evidence :: "'w env \<Rightarrow> 'w process \<Rightarrow> 'w process \<times> (exn + pyval)" where
  "runtime_evidence env =
     bind_st new_stores (\<lambda>_.
     bind_st (run_workflow env branching_yaml (offline_storage env) (demo_args ''memory-run'' None None)) (\<lambda>memory_run.
     bind_st (run_workflow env branching_yaml (database_storage env) (demo_args ''sqlite-run'' None None)) (\<lambda>sqlite_run.
     bind_st (register (nv_libs env) (sv_schedules (in_memory (nv_libs env))) ''evidence-schedule'' ''* * * * *''
       branching_yaml fixed_now) (\<lambda>schedule.
     bind_st (put_due env schedule) (\<lambda>_.
     bind_st (demo_tick env ''scheduled-run'') (\<lambda>dispatched.
     bind_st (so_get (sv_schedules (in_memory (nv_libs env))) ''evidence-schedule'') (\<lambda>ran.
     bind_st (case ran of None \<Rightarrow> return_st () | Some s \<Rightarrow> put_due env s) (\<lambda>_.
     bind_st (demo_tick env ''duplicate-scheduled-run'') (\<lambda>duplicate.
     bind_st (sg_get_run (offline_storage env) (py_str (get_default PyNone memory_run ''run_id''))) (\<lambda>in_memory_run.
     bind_st (sg_get_run (database_storage env) (py_str (get_default PyNone sqlite_run ''run_id''))) (\<lambda>in_sqlite_run.
       return_st (py_str_dict
         [(''in_memory_round_trip'', PyBool (in_memory_run \<noteq> None)),
          (''sqlite_round_trip'', PyBool (in_sqlite_run \<noteq> None)),
          (''schedule_due_dispatch'', PyList (map (\<lambda>item. get_default PyNone item ''name'') dispatched)),
          (''schedule_duplicate_dispatch'', PyList (map (\<lambda>item. get_default PyNone item ''name'') duplicate))]))))))))))))"

definition evidence_body :: string where
  "evidence_body = ''{'' @ [CHR 0x22] @ ''event'' @ [CHR 0x22] @ '':'' @ [CHR 0x22] @ ''evidence'' @ [CHR 0x22] @ ''}''"

text \<open>The clock is read once per request to the limiter.\<close>

definition security_evidence :: "libs \<Rightarrow> rat \<times> rat \<times> rat \<Rightarrow> exn + pyval" where
  "security_evidence L instants =
     (let (hooks, _) = webhook_register (mem_ops wh_name) ''evidence-hook'' branching_yaml [] (Some ''normalized-secret'') [];
          verify = \<lambda>signature. snd (verify_signature L (mem_ops wh_name) ''evidence-hook'' evidence_body (Some signature) hooks);
          policy = \<lparr>ap_api_keys = [(''normalized-key'', OPERATOR)], ap_required = True\<rparr>;
          limiter = \<lparr>rl_limit = 2, rl_window_seconds = 3600, rl_recognized = [], rl_buckets = []\<rparr>;
          (t1, t2, t3) = instants;
          (l1, r1) = allow limiter None (Some ''evidence'') t1;
          (l2, r2) = allow l1 None (Some ''evidence'') t2;
          (_, r3) = allow l2 None (Some ''evidence'') t3;
          (claims1, c1) = claim ''evidence'' (Some ''one'') [];
          (_, c2) = claim ''evidence'' (Some ''one'') claims1
      in bind_sum (verify (''sha256='' @ hmac_hex L ''normalized-secret'' evidence_body)) (\<lambda>valid.
         bind_sum (verify ''sha256=bad'') (\<lambda>invalid.
         bind_sum c1 (\<lambda>b1. bind_sum c2 (\<lambda>b2.
           Inr (py_str_dict
             [(''webhook_hmac'', py_str_dict [(''valid'', PyBool valid), (''invalid'', PyBool invalid)]),
              (''idempotency'', PyList [PyBool b1, PyBool b2]),
              (''auth'', py_str_dict
                [(''operator_allowed'', PyBool (authorize policy (Some ''normalized-key'') OPERATOR)),
                 (''viewer_refused'', PyBool (authorize policy None VIEWER))]),
              (''rate_limit'', PyList [PyBool r1, PyBool r2, PyBool r3])]))))))"

text \<open>The tasks are called directly; what they return is a value.\<close>

definition called :: "((pricing \<times> 'v) \<times> (string + pyval)) option \<Rightarrow> (pricing \<times> 'v) process
    \<Rightarrow> (pricing \<times> 'v) process \<times> (exn + pyval)" where
  "called r p =
     (case r of
        None \<Rightarrow> (p, Inl (RuntimeError ''does not return''))
      | Some (w, Inl m) \<Rightarrow> (p\<lparr>pr_world := w\<rparr>, Inl (RuntimeError m))
      | Some (w, Inr v) \<Rightarrow> (p\<lparr>pr_world := w\<rparr>, Inr v))"

definition tasks_evidence :: "'v task_env \<Rightarrow> (pricing \<times> 'v) process \<Rightarrow> (pricing \<times> 'v) process \<times> (exn + pyval)" where
  "tasks_evidence te =
     bind_st (\<lambda>p. called (parse_text te (pr_world p) [] [(''text'', PyStr ''deterministic parsed input'')]) p) (\<lambda>parsed.
     bind_st (\<lambda>p. called (classify_with_llm te (pr_world p) []
       [(''text'', PyStr ''business request''), (''labels'', PyList [PyStr ''business'', PyStr ''spam''])]) p) (\<lambda>classified.
       return_st (py_str_dict [(''text_parsing'', parsed), (''simulated_classification'', classified)])))"

definition demo_environment :: pyval where
  "demo_environment = py_str_dict
     [(''database'', PyStr ''sqlite-memory''), (''network'', PyStr ''disabled''), (''credentials'', PyStr ''redacted''),
      (''provider_output'', PyStr ''deterministic-simulation''), (''timestamps'', PyStr ''normalized''),
      (''durations'', PyStr ''normalized''), (''paths'', PyStr ''normalized''), (''ids'', PyStr ''normalized'')]"

definition portfolio_evidence :: "(pricing \<times> 'v) env \<Rightarrow> 'v task_env \<Rightarrow> int \<Rightarrow> rat \<times> rat \<times> rat
    \<Rightarrow> (pricing \<times> 'v) process \<Rightarrow> (pricing \<times> 'v) process \<times> (exn + pyval)" where
  "portfolio_evidence env te observed_max instants =
     bind_st (execution_evidence env te observed_max) (\<lambda>(execution, branch).
     bind_st (validation_evidence env) (\<lambda>validation.
     bind_st (runtime_evidence env) (\<lambda>runtime.
     bind_st (lift_sum (security_evidence (nv_libs env) instants)) (\<lambda>security.
     bind_st (tasks_evidence te) (\<lambda>tasks.
       return_st (py_str_dict
         [(''schema_version'', PyInt 1), (''environment'', demo_environment), (''validation'', validation),
          (''execution'', execution), (''runtime'', runtime), (''security'', security), (''tasks'', tasks),
          (''dashboard_fixture'', py_str_dict
            [(''run_id'', PyStr ''normalized-branch-run''), (''status'', get_default PyNone branch ''status''),
             (''step_statuses'', get_default PyNone branch ''step_statuses''),
             (''events'', get_default PyNone branch ''events''),
             (''dead_letters'', get_default PyNone branch ''dead_letters'')])]))))))"

text \<open>A Python value as JSON; dictionaries have strings as keys.\<close>

fun json_of :: "pyval \<Rightarrow> json option" where
  "json_of PyNone = Some JNull"
| "json_of (PyBool b) = Some (JBool b)"
| "json_of (PyInt i) = Some (JInt i)"
| "json_of (PyFloat r) = Some (JFloat r)"
| "json_of (PyStr s) = Some (JStr s)"
| "json_of (PyList vs) = map_option JList (those (map json_of vs))"
| "json_of (PyDict d) =
     map_option JDict (those (map (\<lambda>(k, v). case k of PyStr s \<Rightarrow> map_option (Pair s) (json_of v) | _ \<Rightarrow> None) d))"
| "json_of (PyTaskResult out err meta) = None"

section \<open>The environment of the demonstration\<close>

definition py_map :: "(string \<times> pyval) list \<Rightarrow> pyval" where
  "py_map = py_str_dict"

definition py_strs :: "string list \<Rightarrow> pyval" where
  "py_strs ss = PyList (map PyStr ss)"

definition demo_condition :: "string \<Rightarrow> pyval" where
  "demo_condition label = py_str_dict [(''step'', PyStr ''classify''), (''contains'', PyStr label)]"

text \<open>What PyYAML reads the texts as.\<close>

definition demo_documents :: "(string \<times> pyval) list" where
  "demo_documents =
     [(branching_yaml, py_str_dict [(''name'', PyStr ''evidence-branching''), (''steps'', PyList
        [py_str_dict [(''id'', PyStr ''parse''), (''task'', PyStr ''parse_text''),
           (''params'', py_str_dict [(''text'', PyStr ''business request from ACME'')])],
         py_str_dict [(''id'', PyStr ''classify''), (''task'', PyStr ''classify_with_llm''), (''depends_on'', py_strs [''parse'']),
           (''params'', py_str_dict [(''labels'', py_strs [''business'', ''spam'']), (''text'', PyStr ''business request from ACME'')])],
         py_str_dict [(''id'', PyStr ''notify_business''), (''task'', PyStr ''send_notification''), (''depends_on'', py_strs [''classify'']),
           (''condition'', demo_condition ''business'')],
         py_str_dict [(''id'', PyStr ''notify_spam''), (''task'', PyStr ''send_notification''), (''depends_on'', py_strs [''classify'']),
           (''condition'', demo_condition ''spam'')]])]),
      (failure_yaml, py_str_dict [(''name'', PyStr ''evidence-failure''), (''steps'', PyList
        [py_str_dict [(''id'', PyStr ''parse''), (''task'', PyStr ''parse_text'')],
         py_str_dict [(''id'', PyStr ''fail''), (''task'', PyStr ''always_fail''), (''depends_on'', py_strs [''parse'']), (''retries'', PyInt 1),
           (''params'', py_str_dict [(''message'', PyStr ''intentional evidence failure'')])]])]),
      (parallel_yaml, py_str_dict [(''name'', PyStr ''evidence-parallel''), (''steps'', PyList
        [py_str_dict [(''id'', PyStr ''first''), (''task'', PyStr ''probe'')],
         py_str_dict [(''id'', PyStr ''second''), (''task'', PyStr ''probe'')]])]),
      (typed_yaml, py_str_dict [(''name'', PyStr ''evidence-typed''), (''typed_io'', PyBool True), (''steps'', PyList
        [py_str_dict [(''id'', PyStr ''typed''), (''task'', PyStr ''typed_probe''),
           (''params'', py_str_dict [(''proof'', PyStr ''TaskInput->TaskResult'')])]])]),
      (cycle_yaml, py_str_dict [(''name'', PyStr ''cycle''), (''steps'', PyList
        [py_str_dict [(''id'', PyStr ''one''), (''task'', PyStr ''parse_text''), (''depends_on'', py_strs [''two''])],
         py_str_dict [(''id'', PyStr ''two''), (''task'', PyStr ''parse_text''), (''depends_on'', py_strs [''one''])]])]),
      (unknown_yaml, py_str_dict [(''name'', PyStr ''unknown''), (''steps'', PyList
        [py_str_dict [(''id'', PyStr ''only''), (''task'', PyStr ''absent'')]])])]"

definition demo_task_env :: "unit task_env" where
  "demo_task_env =
     \<lparr>te_sdks = \<lparr>ls_openai = None, ls_anthropic = None, ls_clock = (\<lambda>_. 0), ls_sleep = (\<lambda>d w. w)\<rparr>,
      te_openai_api_key = Some [], te_anthropic_api_key = Some [],
      te_libs = table_libs demo_documents,
      te_int = (\<lambda>v. case v of PyInt i \<Rightarrow> Inr i | _ \<Rightarrow> Inl ''invalid'')\<rparr>"

definition demo_env :: "(pricing \<times> unit) env" where
  "demo_env =
     \<lparr>nv_libs = table_libs demo_documents, nv_registry = map (\<lambda>(n, f). (n, as_object f)) (task_registry demo_task_env),
      nv_uuid = (\<lambda>n. ''uuid-'' @ nat_digits n), nv_clock = (\<lambda>_. fixed_now), nv_monotonic = (\<lambda>_. 0), nv_redis_clock = (\<lambda>_. 0),
      nv_choices = (\<lambda>w n. []), nv_delay = (\<lambda>y r h c w. (w, Inl ''no broker'')), nv_probe = (\<lambda>w. False),
      nv_validation_text = ''validation error'', nv_async = False, nv_beat = False, nv_concurrency_limit = 1,
      nv_locking = False, nv_redis_locking = False, nv_auth = \<lparr>ap_api_keys = [], ap_required = False\<rparr>,
      nv_app_name = ''async-workflow-engine'', nv_db_ping = (\<lambda>w. Some ()), nv_redis_ping = (\<lambda>w. None), nv_task_docs = []\<rparr>"

definition demo_process :: "(pricing \<times> unit) process" where
  "demo_process =
     \<lparr>pr_runs = [], pr_schedules = [], pr_webhooks = [], pr_versions = [], pr_claims = [], pr_events = [],
      pr_db = ex_db [], pr_db_available = False, pr_limiter = None, pr_locks = [],
      pr_redis = \<lparr>rd_data = [], rd_ttls = []\<rparr>, pr_uuids = 0, pr_world = (initial_pricing, ())\<rparr>"

section \<open>What the runs of the demonstration do\<close>

definition branching_config :: workflow_config where
  "branching_config =
     \<lparr>wf_name = ''evidence-branching'', wf_steps = [\<lparr>st_id = ''parse'', st_task = ''parse_text'',
     st_depends_on = Some [], st_retries = 3, st_params = [(''text'', PyStr ''business request from ACME'')],
     st_condition = None\<rparr>, \<lparr>st_id = ''classify'', st_task = ''classify_with_llm'', st_depends_on =
     Some [''parse''], st_retries = 3, st_params = [(''labels'', PyList [PyStr ''business'', PyStr ''spam'']),
     (''text'', PyStr ''business request from ACME'')], st_condition = None\<rparr>, \<lparr>st_id =
     ''notify_business'', st_task = ''send_notification'', st_depends_on = Some [''classify''], st_retries = 3,
     st_params = [], st_condition = Some \<lparr>sc_step = ''classify'', sc_equals = None, sc_not_equals = None,
     sc_contains = Some ''business''\<rparr>\<rparr>, \<lparr>st_id = ''notify_spam'', st_task =
     ''send_notification'', st_depends_on = Some [''classify''], st_retries = 3, st_params = [], st_condition =
     Some \<lparr>sc_step = ''classify'', sc_equals = None, sc_not_equals = None, sc_contains = Some
     ''spam''\<rparr>\<rparr>], wf_schedule = None, wf_typed_io = False\<rparr>"

definition failure_config :: workflow_config where
  "failure_config =
     \<lparr>wf_name = ''evidence-failure'', wf_steps = [\<lparr>st_id = ''parse'', st_task = ''parse_text'',
     st_depends_on = Some [], st_retries = 3, st_params = [], st_condition = None\<rparr>, \<lparr>st_id =
     ''fail'', st_task = ''always_fail'', st_depends_on = Some [''parse''], st_retries = 1, st_params =
     [(''message'', PyStr ''intentional evidence failure'')], st_condition = None\<rparr>], wf_schedule = None,
     wf_typed_io = False\<rparr>"

definition parallel_config :: workflow_config where
  "parallel_config =
     \<lparr>wf_name = ''evidence-parallel'', wf_steps = [\<lparr>st_id = ''first'', st_task = ''probe'',
     st_depends_on = Some [], st_retries = 3, st_params = [], st_condition = None\<rparr>, \<lparr>st_id =
     ''second'', st_task = ''probe'', st_depends_on = Some [], st_retries = 3, st_params = [], st_condition =
     None\<rparr>], wf_schedule = None, wf_typed_io = False\<rparr>"

definition typed_config :: workflow_config where
  "typed_config =
     \<lparr>wf_name = ''evidence-typed'', wf_steps = [\<lparr>st_id = ''typed'', st_task = ''typed_probe'',
     st_depends_on = Some [], st_retries = 3, st_params = [(''proof'', PyStr ''TaskInput->TaskResult'')],
     st_condition = None\<rparr>], wf_schedule = None, wf_typed_io = True\<rparr>"

definition unknown_config :: workflow_config where
  "unknown_config =
     \<lparr>wf_name = ''unknown'', wf_steps = [\<lparr>st_id = ''only'', st_task = ''absent'', st_depends_on =
     Some [], st_retries = 3, st_params = [], st_condition = None\<rparr>], wf_schedule = None, wf_typed_io =
     False\<rparr>"

definition demo_event :: "string option \<Rightarrow> nat \<Rightarrow> string \<Rightarrow> string option \<Rightarrow> nat option \<Rightarrow> execution_event" where
  "demo_event run_id n kind step attempt =
     \<lparr>ev_sequence = n, ev_kind = kind, ev_trigger_id = Some ''normalized-trigger'', ev_run_id = run_id,
      ev_step_id = step, ev_attempt = attempt, ev_details = []\<rparr>"

definition demo_finished :: "string option \<Rightarrow> nat \<Rightarrow> string \<Rightarrow> execution_event" where
  "demo_finished run_id n status = (demo_event run_id n ''run.finished'' None None)\<lparr>ev_details := [(''status'', PyStr status)]\<rparr>"

definition demo_trace :: "string option \<Rightarrow> execution_event list \<Rightarrow> trace_context" where
  "demo_trace run_id events = \<lparr>tc_trigger_id = Some ''normalized-trigger'', tc_run_id = run_id, tc_events = events\<rparr>"

definition parsed :: "int \<Rightarrow> string \<Rightarrow> pyval" where
  "parsed words preview = py_str_dict
     [(''status'', PyStr ''parsed''), (''word_count'', PyInt words), (''chunk_count'', PyInt 1), (''preview'', PyStr preview)]"

definition branching_exec :: "trace_context option \<Rightarrow> (pricing \<times> unit) exec" where
  "branching_exec trace =
     \<lparr>ex_statuses = [(''parse'', COMPLETED), (''classify'', COMPLETED), (''notify_business'', COMPLETED), (''notify_spam'', SKIPPED)],
      ex_results =
        [(''parse'', parsed 4 ''business request from ACME''),
         (''classify'', py_str_dict [(''category'', PyStr ''business''), (''source'', PyStr ''sim'')]),
         (''notify_business'', py_str_dict
           [(''status'', PyStr ''sent''), (''channel'', PyStr ''email''), (''message'', PyStr ''Workflow step completed.''),
            (''context_keys'', py_strs [''classify'', ''parse''])])],
      ex_retry_counts = [(''parse'', 0), (''classify'', 0), (''notify_business'', 0), (''notify_spam'', 0)],
      ex_attempt_counts = [(''parse'', 1), (''classify'', 1), (''notify_business'', 1), (''notify_spam'', 0)],
      ex_errors = [], ex_dead_letters = [], ex_trace = trace, ex_sleeps = [], ex_world = (initial_pricing, ())\<rparr>"

definition branching_trace :: trace_context where
  "branching_trace =
     (let e = demo_event (Some ''normalized-branch-run'')
      in demo_trace (Some ''normalized-branch-run'')
        [e 1 ''trigger.received'' None None, e 2 ''run.started'' None None,
         e 3 ''step.started'' (Some ''parse'') None, e 4 ''step.completed'' (Some ''parse'') (Some 1),
         e 5 ''step.started'' (Some ''classify'') None, e 6 ''step.completed'' (Some ''classify'') (Some 1),
         e 7 ''step.skipped'' (Some ''notify_spam'') None,
         e 8 ''step.started'' (Some ''notify_business'') None, e 9 ''step.completed'' (Some ''notify_business'') (Some 1),
         demo_finished (Some ''normalized-branch-run'') 10 ''completed''])"

definition failure_exec :: "trace_context \<Rightarrow> (pricing \<times> unit) exec" where
  "failure_exec trace =
     \<lparr>ex_statuses = [(''parse'', COMPLETED), (''fail'', FAILED)],
      ex_results = [(''parse'', parsed 16 (take 80 sample_text))],
      ex_retry_counts = [(''parse'', 0), (''fail'', 2)], ex_attempt_counts = [(''parse'', 1), (''fail'', 2)],
      ex_errors = [(''fail'', ''intentional evidence failure'')],
      ex_dead_letters = [\<lparr>dl_step_id = ''fail'', dl_task = ''always_fail'', dl_error = ''intentional evidence failure'',
         dl_attempts = 2, dl_params = [(''message'', PyStr ''intentional evidence failure'')]\<rparr>],
      ex_trace = Some trace, ex_sleeps = [1/2], ex_world = (initial_pricing, ())\<rparr>"

text \<open>The events of the failing run, numbered from after the first \<open>n\<close>.\<close>

definition failure_events :: "string option \<Rightarrow> nat \<Rightarrow> execution_event list" where
  "failure_events run_id n =
     (let e = \<lambda>k. demo_event run_id (n + k)
      in [e 1 ''run.started'' None None,
          e 2 ''step.started'' (Some ''parse'') None, e 3 ''step.completed'' (Some ''parse'') (Some 1),
          e 4 ''step.started'' (Some ''fail'') None, e 5 ''step.retry'' (Some ''fail'') (Some 1),
          e 6 ''step.failed'' (Some ''fail'') (Some 2), e 7 ''dlq.recorded'' (Some ''fail'') (Some 2),
          demo_finished run_id (n + 8) ''failed''])"

definition failure_trace :: trace_context where
  "failure_trace = demo_trace (Some ''normalized-failure-run'')
     (demo_event (Some ''normalized-failure-run'') 1 ''trigger.received'' None None # failure_events (Some ''normalized-failure-run'') 1)"

definition backoff_trace :: trace_context where
  "backoff_trace = demo_trace None (failure_events None 0)"

definition parallel_exec :: "(pricing \<times> unit) exec" where
  "parallel_exec =
     \<lparr>ex_statuses = [(''first'', COMPLETED), (''second'', COMPLETED)],
      ex_results = [(''first'', parsed 2 ''parallel evidence''), (''second'', parsed 2 ''parallel evidence'')],
      ex_retry_counts = [(''first'', 0), (''second'', 0)], ex_attempt_counts = [(''first'', 1), (''second'', 1)],
      ex_errors = [], ex_dead_letters = [], ex_trace = None, ex_sleeps = [], ex_world = (initial_pricing, ())\<rparr>"

definition typed_exec :: "(pricing \<times> unit) exec" where
  "typed_exec =
     \<lparr>ex_statuses = [(''typed'', COMPLETED)],
      ex_results = [(''typed'', py_str_dict [(''kind'', PyStr ''typed''),
        (''params'', py_str_dict [(''proof'', PyStr ''TaskInput->TaskResult'')])])],
      ex_retry_counts = [(''typed'', 0)], ex_attempt_counts = [(''typed'', 1)],
      ex_errors = [], ex_dead_letters = [], ex_trace = None, ex_sleeps = [], ex_world = (initial_pricing, ())\<rparr>"

lemma demo_loads:
  "load_workflow_yaml (table_libs demo_documents) branching_yaml = Inr branching_config"
  "load_workflow_yaml (table_libs demo_documents) failure_yaml = Inr failure_config"
  "load_workflow_yaml (table_libs demo_documents) parallel_yaml = Inr parallel_config"
  "load_workflow_yaml (table_libs demo_documents) typed_yaml = Inr typed_config"
  "load_workflow_yaml (table_libs demo_documents) unknown_yaml = Inr unknown_config"
  by code_simp+

lemma demo_cycle_refused:
  "\<exists>m. load_workflow_yaml (table_libs demo_documents) cycle_yaml = Inl (WorkflowValidationError m)"
proof -
  have "case load_workflow_yaml (table_libs demo_documents) cycle_yaml of Inl (WorkflowValidationError _) \<Rightarrow> True | _ \<Rightarrow> False"
    by code_simp
  then show ?thesis by (auto split: sum.splits exn.splits)
qed

text \<open>The engine and the start of each run.\<close>

definition demo_execute :: "workflow_config \<Rightarrow> (pricing \<times> unit) registry \<Rightarrow> int option \<Rightarrow> trace_context option
    \<Rightarrow> (pricing \<times> unit) exec \<times> exn option" where
  "demo_execute config registry concurrency trace =
     execute (make_engine demo_env config registry concurrency None) (\<lambda>_. []) (init_exec config trace (initial_pricing, ()))"

definition triggered :: "string \<Rightarrow> trace_context" where
  "triggered run_id = emit ''trigger.received'' None None [] (new_trace (Some ''normalized-trigger'') (Some run_id))"

lemma branching_runs:
  "demo_execute branching_config [] None None = (branching_exec None, None)"
  "demo_execute branching_config [] (Some 2) (Some (triggered ''normalized-branch-run'')) = (branching_exec (Some branching_trace), None)"
  by code_simp+

lemma failure_runs:
  "demo_execute failure_config [] None (Some (triggered ''normalized-failure-run'')) = (failure_exec failure_trace, None)"
  "demo_execute failure_config (nv_registry demo_env) None (Some (new_trace (Some ''normalized-trigger'') None)) = (failure_exec backoff_trace, None)"
  by code_simp+

lemma probe_runs:
  "demo_execute parallel_config [(''probe'', as_object (probe demo_task_env))] (Some 2) None = (parallel_exec, None)"
  "demo_execute typed_config [(''typed_probe'', typed_probe)] None None = (typed_exec, None)"
  by code_simp+

lemma unknown_refused:
  "\<exists>m. demo_execute unknown_config (nv_registry demo_env) None None
    = (init_exec unknown_config None (initial_pricing, ()), Some (ValueError m))"
proof -
  let ?en = "make_engine demo_env unknown_config (nv_registry demo_env) None None"
  have "dget (nv_registry demo_env) ''absent'' = None" "nv_registry demo_env \<noteq> []"
    by (simp_all add: demo_env_def task_registry_def)
  then have "validate_registry ?en \<noteq> None" "\<forall>e. validate_registry ?en = Some e \<longrightarrow> (\<exists>m. e = ValueError m)"
    by (auto simp: validate_registry_def make_engine_def unknown_config_def Let_def)
  then show ?thesis by (auto simp: demo_execute_def execute_def)
qed

end
