(* ===== verification/Golden.thy ===== *)
theory Golden
  imports Demo
begin

text \<open>
  The evidence that the demonstration collects is the evidence the repository has committed:
  running the models on the workflows of \<open>portfolio_demo.py\<close> gives, in canonical JSON, the
  golden fixture \<open>tests/fixtures/golden/portfolio-evidence.json\<close>, so that the bundle generated
  from it is the one the verifier accepts.
\<close>

section \<open>The golden fixture\<close>

definition golden_evidence :: "(string, json) dict" where
  "golden_evidence =
     [(''dashboard_fixture'', JDict [(''dead_letters'', JList []), (''events'', JList [JDict [(''attempt'', JNull),
        (''details'', JDict []), (''kind'', JStr ''trigger.received''), (''run_id'', JStr ''normalized-branch-run''),
        (''sequence'', JInt 1), (''step_id'', JNull), (''trigger_id'', JStr ''normalized-trigger'')], JDict
        [(''attempt'', JNull), (''details'', JDict []), (''kind'', JStr ''run.started''), (''run_id'', JStr
        ''normalized-branch-run''), (''sequence'', JInt 2), (''step_id'', JNull), (''trigger_id'', JStr
        ''normalized-trigger'')], JDict [(''attempt'', JNull), (''details'', JDict []), (''kind'', JStr
        ''step.started''), (''run_id'', JStr ''normalized-branch-run''), (''sequence'', JInt 3), (''step_id'', JStr
        ''parse''), (''trigger_id'', JStr ''normalized-trigger'')], JDict [(''attempt'', JInt 1), (''details'', JDict
        []), (''kind'', JStr ''step.completed''), (''run_id'', JStr ''normalized-branch-run''), (''sequence'', JInt 4),
        (''step_id'', JStr ''parse''), (''trigger_id'', JStr ''normalized-trigger'')], JDict [(''attempt'', JNull),
        (''details'', JDict []), (''kind'', JStr ''step.started''), (''run_id'', JStr ''normalized-branch-run''),
        (''sequence'', JInt 5), (''step_id'', JStr ''classify''), (''trigger_id'', JStr ''normalized-trigger'')], JDict
        [(''attempt'', JInt 1), (''details'', JDict []), (''kind'', JStr ''step.completed''), (''run_id'', JStr
        ''normalized-branch-run''), (''sequence'', JInt 6), (''step_id'', JStr ''classify''), (''trigger_id'', JStr
        ''normalized-trigger'')], JDict [(''attempt'', JNull), (''details'', JDict []), (''kind'', JStr
        ''step.skipped''), (''run_id'', JStr ''normalized-branch-run''), (''sequence'', JInt 7), (''step_id'', JStr
        ''notify_spam''), (''trigger_id'', JStr ''normalized-trigger'')], JDict [(''attempt'', JNull), (''details'',
        JDict []), (''kind'', JStr ''step.started''), (''run_id'', JStr ''normalized-branch-run''), (''sequence'', JInt
        8), (''step_id'', JStr ''notify_business''), (''trigger_id'', JStr ''normalized-trigger'')], JDict
        [(''attempt'', JInt 1), (''details'', JDict []), (''kind'', JStr ''step.completed''), (''run_id'', JStr
        ''normalized-branch-run''), (''sequence'', JInt 9), (''step_id'', JStr ''notify_business''), (''trigger_id'',
        JStr ''normalized-trigger'')], JDict [(''attempt'', JNull), (''details'', JDict [(''status'', JStr
        ''completed'')]), (''kind'', JStr ''run.finished''), (''run_id'', JStr ''normalized-branch-run''),
        (''sequence'', JInt 10), (''step_id'', JNull), (''trigger_id'', JStr ''normalized-trigger'')]]), (''run_id'',
        JStr ''normalized-branch-run''), (''status'', JStr ''completed''), (''step_statuses'', JDict [(''classify'',
        JStr ''COMPLETED''), (''notify_business'', JStr ''COMPLETED''), (''notify_spam'', JStr ''SKIPPED''), (''parse'',
        JStr ''COMPLETED'')])]),
      (''environment'', JDict [(''credentials'', JStr ''redacted''), (''database'', JStr ''sqlite-memory''),
        (''durations'', JStr ''normalized''), (''ids'', JStr ''normalized''), (''network'', JStr ''disabled''),
        (''paths'', JStr ''normalized''), (''provider_output'', JStr ''deterministic-simulation''), (''timestamps'',
        JStr ''normalized'')]),
      (''execution'', JDict [(''bounded_parallel'', JDict [(''limit'', JInt 2), (''observed_max'', JInt 2),
        (''statuses'', JDict [(''first'', JStr ''COMPLETED''), (''second'', JStr ''COMPLETED'')])]),
        (''branch_statuses'', JDict [(''classify'', JStr ''COMPLETED''), (''notify_business'', JStr ''COMPLETED''),
        (''notify_spam'', JStr ''SKIPPED''), (''parse'', JStr ''COMPLETED'')]), (''dlq_attempts'', JInt 2),
        (''partial_failure_status'', JStr ''failed''), (''partial_failure_step_statuses'', JDict [(''fail'', JStr
        ''FAILED''), (''parse'', JStr ''COMPLETED'')]), (''partial_failure_trace'', JList [JDict [(''attempt'', JNull),
        (''kind'', JStr ''trigger.received'')], JDict [(''attempt'', JNull), (''kind'', JStr ''run.started'')], JDict
        [(''attempt'', JNull), (''kind'', JStr ''step.started'')], JDict [(''attempt'', JInt 1), (''kind'', JStr
        ''step.completed'')], JDict [(''attempt'', JNull), (''kind'', JStr ''step.started'')], JDict [(''attempt'', JInt
        1), (''kind'', JStr ''step.retry'')], JDict [(''attempt'', JInt 2), (''kind'', JStr ''step.failed'')], JDict
        [(''attempt'', JInt 2), (''kind'', JStr ''dlq.recorded'')], JDict [(''attempt'', JNull), (''kind'', JStr
        ''run.finished'')]]), (''rerun_preserved_id'', JBool True), (''retry_backoff'', JDict [(''observed_seconds'',
        JList [JFloat ''0.5'']), (''retry_events'', JList [JDict [(''attempt'', JInt 1), (''kind'', JStr
        ''step.retry'')]])]), (''trace_kinds'', JList [JStr ''trigger.received'', JStr ''run.started'', JStr
        ''step.started'', JStr ''step.completed'', JStr ''step.started'', JStr ''step.completed'', JStr
        ''step.skipped'', JStr ''step.started'', JStr ''step.completed'', JStr ''run.finished'']), (''typed_io'', JDict
        [(''kind'', JStr ''typed''), (''params'', JDict [(''proof'', JStr ''TaskInput->TaskResult'')])])]),
      (''runtime'', JDict [(''in_memory_round_trip'', JBool True), (''schedule_due_dispatch'', JList [JStr
        ''evidence-schedule'']), (''schedule_duplicate_dispatch'', JList []), (''sqlite_round_trip'', JBool True)]),
      (''schema_version'', JInt 1),
      (''security'', JDict [(''auth'', JDict [(''operator_allowed'', JBool True), (''viewer_refused'', JBool False)]),
        (''idempotency'', JList [JBool True, JBool False]), (''rate_limit'', JList [JBool True, JBool True, JBool
        False]), (''webhook_hmac'', JDict [(''invalid'', JBool False), (''valid'', JBool True)])]),
      (''tasks'', JDict [(''simulated_classification'', JDict [(''category'', JStr ''business''), (''source'', JStr
        ''sim'')]), (''text_parsing'', JDict [(''chunk_count'', JInt 1), (''preview'', JStr
        ''deterministic parsed input''), (''status'', JStr ''parsed''), (''word_count'', JInt 3)])]),
      (''validation'', JDict [(''cycle_refused'', JBool True), (''unknown_task_refused'', JBool True),
        (''valid_yaml'', JBool True)])]"

section \<open>Runs over the stores\<close>

lemmas st_defs = bind_st_def return_st_def lift_sum_def

definition demo_result :: "workflow_config \<Rightarrow> (pricing \<times> unit) exec \<Rightarrow> string \<Rightarrow> (string, pyval) dict" where
  "demo_result config st run_id =
     (let result = run_result config st run_id
      in case ex_trace st of
           None \<Rightarrow> result
         | Some t \<Rightarrow> dset ''events'' (PyList (map py_str_dict (map (event_payload \<circ> EventObject) (tc_events t)))) result)"

lemma demo_env_simps [simp]:
  "nv_libs demo_env = table_libs demo_documents" "nv_choices demo_env = (\<lambda>w n. [])"
  by (simp_all add: demo_env_def)

lemma demo_execute_config:
  assumes "pr_world p = (initial_pricing, ())" and "demo_execute config registry concurrency trace = (st, None)"
    and "ex_world st = (initial_pricing, ())"
  shows "execute_config demo_env config registry concurrency None trace p = (p, Inr st)"
proof -
  have "p\<lparr>pr_world := (initial_pricing, ())\<rparr> = p" using assms(1) by (cases p) simp
  with assms show ?thesis by (simp add: execute_config_def demo_execute_def)
qed

lemma demo_run:
  assumes p: "pr_world p = (initial_pricing, ())" and y: "load_workflow_yaml (table_libs demo_documents) yaml = Inr config"
    and x: "demo_execute config [] concurrency (map_option (\<lambda>t. emit ''trigger.received'' None None [] (new_trace (Some t) (Some rid))) trigger) = (st, None)"
    and w: "ex_world st = (initial_pricing, ())" and rid: "rid \<noteq> []"
  shows "run_workflow demo_env yaml ops (demo_args rid concurrency trigger) p =
    (case sg_save_run ops (run_input_of config yaml st (Some rid) None) p of
       (p', Inl e) \<Rightarrow> (p', Inl e) | (p', Inr saved) \<Rightarrow> (p', Inr (demo_result config st saved)))"
proof -
  have "fix_run_id demo_env (demo_args rid concurrency trigger) p
      = (p, Inr (map_option (\<lambda>t. new_trace (Some t) (Some rid)) trigger, Some rid))"
    using rid by (cases trigger) (simp_all add: fix_run_id_def demo_args_def st_defs new_trace_def)
  moreover have "execute_config demo_env config [] concurrency None
      (map_option (emit ''trigger.received'' None None []) (map_option (\<lambda>t. new_trace (Some t) (Some rid)) trigger)) p = (p, Inr st)"
    by (rule demo_execute_config [OF p _ w]) (simp add: option.map_comp comp_def x)
  ultimately show ?thesis
    using y by (auto simp: run_workflow_def pinned_definition_def store_version_def st_defs demo_args_def save_events_def
        demo_result_def version_entry_def Let_def split: prod.splits sum.splits option.splits)
qed

lemma memory_save:
  assumes "ri_run_id i = Some rid" and "rid \<noteq> []"
  shows "\<exists>r. sg_save_run (offline_storage env) i p = (p\<lparr>pr_runs := dset rid r (pr_runs p)\<rparr>, Inr rid)"
  using assms by (auto simp: offline_storage_def with_fresh_def lift_op_def set_runs_def mem_save_run_def choose_run_id_def Let_def)

lemma demo_memory_run:
  assumes "pr_world p = (initial_pricing, ())" and "load_workflow_yaml (table_libs demo_documents) yaml = Inr config"
    and "demo_execute config [] concurrency (map_option (\<lambda>t. emit ''trigger.received'' None None [] (new_trace (Some t) (Some rid))) trigger) = (st, None)"
    and "ex_world st = (initial_pricing, ())" and "rid \<noteq> []"
  shows "\<exists>r. run_workflow demo_env yaml (offline_storage demo_env) (demo_args rid concurrency trigger) p
    = (p\<lparr>pr_runs := dset rid r (pr_runs p)\<rparr>, Inr (demo_result config st rid))"
  using memory_save [of "run_input_of config yaml st (Some rid) None" rid demo_env p] assms(5)
  unfolding demo_run [OF assms] by (auto simp: run_input_of_def)

lemma demo_executor:
  assumes "pr_world p = (initial_pricing, ())" and "load_workflow_yaml (table_libs demo_documents) yaml = Inr config"
    and "demo_execute config registry concurrency trace = (st, None)" and "ex_world st = (initial_pricing, ())"
  shows "run_executor demo_env yaml registry concurrency trace p = (p, Inr st)"
  using assms(2) demo_execute_config [OF assms(1,3,4)] by (simp add: run_executor_def st_defs)

section \<open>The sections\<close>

definition validation_value :: pyval where
  "validation_value = py_str_dict
     [(''valid_yaml'', PyBool True), (''cycle_refused'', PyBool True), (''unknown_task_refused'', PyBool True)]"

lemma validation_runs:
  assumes "pr_world p = (initial_pricing, ())"
  shows "validation_evidence demo_env p = (p, Inr validation_value)"
proof -
  obtain m where m: "load_workflow_yaml (table_libs demo_documents) cycle_yaml = Inl (WorkflowValidationError m)"
    using demo_cycle_refused by blast
  obtain m' where x: "demo_execute unknown_config (nv_registry demo_env) None None
      = (init_exec unknown_config None (initial_pricing, ()), Some (ValueError m'))"
    using unknown_refused by blast
  have same: "p\<lparr>pr_world := (initial_pricing, ())\<rparr> = p" using assms by (cases p) simp
  have "execute_config demo_env unknown_config (nv_registry demo_env) None None None p = (p, Inl (ValueError m'))"
    using x assms same by (simp add: execute_config_def demo_execute_def init_exec_def)
  then have "run_executor demo_env unknown_yaml (nv_registry demo_env) None None p = (p, Inl (ValueError m'))"
    by (simp add: run_executor_def st_defs demo_loads)
  moreover have "wf_name branching_config = ''evidence-branching''" by (simp add: branching_config_def)
  ultimately show ?thesis
    using m by (simp add: validation_evidence_def validation_value_def st_defs refused_def demo_loads)
qed

definition execution_value :: pyval where
  "execution_value = execution_view 2
     (demo_result branching_config (branching_exec (Some branching_trace)) ''normalized-branch-run'')
     (demo_result failure_config (failure_exec failure_trace) ''normalized-failure-run'')
     (demo_result failure_config (failure_exec failure_trace) ''normalized-failure-run'')
     parallel_exec typed_exec (failure_exec backoff_trace)"

lemma exec_worlds [simp]:
  "ex_world (branching_exec t) = (initial_pricing, ())" "ex_world (failure_exec t') = (initial_pricing, ())"
  "ex_world parallel_exec = (initial_pricing, ())" "ex_world typed_exec = (initial_pricing, ())"
  by (simp_all add: branching_exec_def failure_exec_def parallel_exec_def typed_exec_def)

lemma triggered_runs:
  "demo_execute branching_config [] (Some 2) (map_option (\<lambda>t. emit ''trigger.received'' None None []
     (new_trace (Some t) (Some ''normalized-branch-run''))) (Some ''normalized-trigger'')) = (branching_exec (Some branching_trace), None)"
  "demo_execute failure_config [] None (map_option (\<lambda>t. emit ''trigger.received'' None None []
     (new_trace (Some t) (Some ''normalized-failure-run''))) (Some ''normalized-trigger'')) = (failure_exec failure_trace, None)"
  "demo_execute branching_config [] None (map_option (\<lambda>t. emit ''trigger.received'' None None []
     (new_trace (Some t) (Some rid))) None) = (branching_exec None, None)"
  using branching_runs failure_runs(1) by (simp_all add: triggered_def)

lemma execution_runs:
  assumes w: "pr_world p = (initial_pricing, ())"
  shows "\<exists>p'. execution_evidence demo_env demo_task_env 2 p = (p', Inr (execution_value,
      demo_result branching_config (branching_exec (Some branching_trace)) ''normalized-branch-run''))
    \<and> pr_world p' = (initial_pricing, ())"
proof -
  obtain p0 where p0: "new_stores p = (p0, Inr ())" "pr_world p0 = (initial_pricing, ())"
    using w by (simp add: new_stores_def)
  obtain r1 where r1: "run_workflow demo_env branching_yaml (offline_storage demo_env)
      (demo_args ''normalized-branch-run'' (Some 2) (Some ''normalized-trigger'')) p0
    = (p0\<lparr>pr_runs := dset ''normalized-branch-run'' r1 (pr_runs p0)\<rparr>,
       Inr (demo_result branching_config (branching_exec (Some branching_trace)) ''normalized-branch-run''))"
    using demo_memory_run [OF p0(2) demo_loads(1) triggered_runs(1)] by auto
  have fail: "\<exists>r. run_workflow demo_env failure_yaml (offline_storage demo_env)
      (demo_args ''normalized-failure-run'' None (Some ''normalized-trigger'')) q
    = (q\<lparr>pr_runs := dset ''normalized-failure-run'' r (pr_runs q)\<rparr>,
       Inr (demo_result failure_config (failure_exec failure_trace) ''normalized-failure-run''))"
    if "pr_world q = (initial_pricing, ())" for q
    using demo_memory_run [OF that demo_loads(2) triggered_runs(2)] by auto
  let ?p1 = "p0\<lparr>pr_runs := dset ''normalized-branch-run'' r1 (pr_runs p0)\<rparr>"
  obtain r2 where r2: "run_workflow demo_env failure_yaml (offline_storage demo_env)
      (demo_args ''normalized-failure-run'' None (Some ''normalized-trigger'')) ?p1
    = (?p1\<lparr>pr_runs := dset ''normalized-failure-run'' r2 (pr_runs ?p1)\<rparr>,
       Inr (demo_result failure_config (failure_exec failure_trace) ''normalized-failure-run''))"
    using fail [of ?p1] p0(2) by auto
  let ?p2 = "?p1\<lparr>pr_runs := dset ''normalized-failure-run'' r2 (pr_runs ?p1)\<rparr>"
  obtain r3 where r3: "run_workflow demo_env failure_yaml (offline_storage demo_env)
      (demo_args ''normalized-failure-run'' None (Some ''normalized-trigger'')) ?p2
    = (?p2\<lparr>pr_runs := dset ''normalized-failure-run'' r3 (pr_runs ?p2)\<rparr>,
       Inr (demo_result failure_config (failure_exec failure_trace) ''normalized-failure-run''))"
    using fail [of ?p2] p0(2) by auto
  let ?p3 = "?p2\<lparr>pr_runs := dset ''normalized-failure-run'' r3 (pr_runs ?p2)\<rparr>"
  have w3: "pr_world ?p3 = (initial_pricing, ())" using p0(2) by simp
  note direct = demo_executor [OF w3 demo_loads(3) probe_runs(1)] demo_executor [OF w3 demo_loads(4) probe_runs(2)]
    demo_executor [OF w3 demo_loads(2) failure_runs(2)]
  have "execution_evidence demo_env demo_task_env 2 p = (?p3, Inr (execution_value,
      demo_result branching_config (branching_exec (Some branching_trace)) ''normalized-branch-run''))"
    unfolding execution_evidence_def bind_st_def return_st_def p0(1) r1 r2 r3 prod.case sum.case
    by (simp only: direct exec_worlds prod.case sum.case execution_value_def)
  with w3 show ?thesis by blast
qed

text \<open>The in-memory services of a process, and its database without faults.\<close>

lemma sqlite_save:
  assumes "ri_run_id i = Some rid" and "rid \<noteq> []" and "ri_dead_letters i = []" and "db_faults (pr_db p) = []"
  shows "\<exists>db. sg_save_run (database_storage demo_env) i p = (p\<lparr>pr_db := db\<rparr>, Inr rid)
    \<and> db_faults db = [] \<and> dget (tb_runs (db_tables db)) rid \<noteq> None"
  using assms
  by (auto simp: database_storage_def with_fresh_def lift_op_def set_db_def db_save_run_def session_def save_run_body_def
      choose_run_id_def Let_def)

lemma sqlite_get:
  assumes "db_faults (pr_db p) = []" and "dget (tb_runs (db_tables (pr_db p))) rid \<noteq> None"
  shows "\<exists>r. sg_get_run (database_storage demo_env) rid p = (p, Inr (Some r))"
proof -
  have "pr_db p\<lparr>db_faults := []\<rparr> = pr_db p" using assms(1) by (cases "pr_db p") simp
  with assms show ?thesis
    by (auto simp: database_storage_def lift_op_def set_db_def db_get_run_def session_def Let_def read_run_def)
qed

lemma memory_get: "sg_get_run (offline_storage demo_env) rid p = (p, Inr (dget (pr_runs p) rid))"
  by (simp add: offline_storage_def lift_op_def set_runs_def mem_get_run_def)

lemma memory_schedules:
  "so_put (sv_schedules (in_memory L)) x p = (p\<lparr>pr_schedules := dset (sw_name x) x (pr_schedules p)\<rparr>, Inr ())"
  "so_get (sv_schedules (in_memory L)) n p = (p, Inr (dget (pr_schedules p) n))"
  "so_list (sv_schedules (in_memory L)) p = (p, Inr (dvals (pr_schedules p)))"
  by (simp_all add: in_memory_def lift_store_def lift_op_def set_schedules_def mem_ops_def mem_put_def mem_get_def mem_list_def)

lemma memory_claim:
  "k \<noteq> [] \<Longrightarrow> sv_claim (in_memory L) ns (Some k) p =
    (if (ns, k) \<in> set (pr_claims p) then (p, Inr False) else (p\<lparr>pr_claims := List.insert (ns, k) (pr_claims p)\<rparr>, Inr True))"
  by (simp add: in_memory_def lift_op_def set_claims_def claim_def)

section \<open>The scheduler of the demonstration\<close>

definition due_schedule :: "int option \<Rightarrow> scheduled_workflow" where
  "due_schedule previous =
     \<lparr>sw_name = ''evidence-schedule'', sw_cron = ''* * * * *'', sw_yaml_definition = branching_yaml,
      sw_last_run = previous, sw_next_run = Some (fixed_now - 60000000), sw_enabled = True\<rparr>"

abbreviation fire :: "string \<times> string" where
  "fire \<equiv> (''schedule:evidence-schedule'', ''2025-12-31T23:59:00+00:00'')"

lemma due_fire: "fire_time (due_schedule previous) = ''2025-12-31T23:59:00+00:00''"
proof -
  have "isoformat (fixed_now - 60000000) = ''2025-12-31T23:59:00+00:00''" by code_simp
  then show ?thesis by (simp add: fire_time_def due_schedule_def)
qed

lemma first_tick:
  assumes w: "pr_world p = (initial_pricing, ())" and s: "pr_schedules p = [(''evidence-schedule'', due_schedule None)]"
    and c: "fire \<notin> set (pr_claims p)"
  shows "\<exists>p' r. demo_tick demo_env ''scheduled-run'' p
      = (p', Inr [dispatched_row (due_schedule None) (demo_result branching_config (branching_exec None) ''scheduled-run'')])
    \<and> pr_runs p' = dset ''scheduled-run'' r (pr_runs p) \<and> pr_db p' = pr_db p \<and> fire \<in> set (pr_claims p')
    \<and> pr_schedules p' = [(''evidence-schedule'', ran (table_libs demo_documents) fixed_now (due_schedule None))]
    \<and> pr_world p' = (initial_pricing, ())"
proof -
  let ?p1 = "p\<lparr>pr_claims := List.insert fire (pr_claims p)\<rparr>"
  obtain r where r: "run_workflow demo_env branching_yaml (offline_storage demo_env) (demo_args ''scheduled-run'' None None) ?p1
      = (?p1\<lparr>pr_runs := dset ''scheduled-run'' r (pr_runs ?p1)\<rparr>, Inr (demo_result branching_config (branching_exec None) ''scheduled-run''))"
    using demo_memory_run [OF _ demo_loads(1) triggered_runs(3), of ?p1] w by auto
  have name: "sw_name (due_schedule None) = ''evidence-schedule''" "sw_yaml_definition (due_schedule None) = branching_yaml"
    and ran: "sw_name (ran (table_libs demo_documents) fixed_now (due_schedule None)) = ''evidence-schedule''"
    and due: "is_due fixed_now (due_schedule None)"
    by (simp_all add: due_schedule_def ran_def is_due_def Let_def)
  have claim: "claim_fire (Some (sv_claim (in_memory (table_libs demo_documents)))) (due_schedule None) p = (?p1, Inr True)"
    using c by (simp add: claim_fire_def memory_claim due_fire name)
  have "demo_tick demo_env ''scheduled-run'' p = (?p1\<lparr>pr_runs := dset ''scheduled-run'' r (pr_runs p),
      pr_schedules := [(''evidence-schedule'', ran (table_libs demo_documents) fixed_now (due_schedule None))]\<rparr>,
      Inr [dispatched_row (due_schedule None) (demo_result branching_config (branching_exec None) ''scheduled-run'')])"
    using due r by (simp add: demo_tick_def dispatch_due_def due_def memory_schedules at_time_def s claim name mark_ran_def ran)
  with w show ?thesis by auto
qed

lemma second_tick:
  assumes "pr_schedules p = [(''evidence-schedule'', due_schedule previous)]" and "fire \<in> set (pr_claims p)"
  shows "demo_tick demo_env run_id p = (p, Inr [])"
proof -
  have "is_due fixed_now (due_schedule previous)" "sw_name (due_schedule previous) = ''evidence-schedule''"
    by (simp_all add: due_schedule_def is_due_def)
  with assms show ?thesis
    by (simp add: demo_tick_def dispatch_due_def due_def memory_schedules at_time_def claim_fire_def memory_claim due_fire)
qed

definition runtime_value :: pyval where
  "runtime_value = py_str_dict
     [(''in_memory_round_trip'', PyBool True), (''sqlite_round_trip'', PyBool True),
      (''schedule_due_dispatch'', PyList [PyStr ''evidence-schedule'']), (''schedule_duplicate_dispatch'', PyList [])]"

lemma demo_result_run_id [simp]: "get_default PyNone (demo_result config st rid) ''run_id'' = PyStr rid"
  by (simp add: demo_result_def run_result_def Let_def get_default_def split: option.split)

lemma registered_schedule:
  "\<exists>next. register (table_libs demo_documents) (sv_schedules (in_memory (table_libs demo_documents))) ''evidence-schedule''
      ''* * * * *'' branching_yaml fixed_now p
    = (p\<lparr>pr_schedules := dset ''evidence-schedule'' ((due_schedule None)\<lparr>sw_next_run := next\<rparr>) (pr_schedules p)\<rparr>,
       Inr ((due_schedule None)\<lparr>sw_next_run := next\<rparr>))"
proof -
  have "is_valid_cron (table_libs demo_documents) ''* * * * *''" by code_simp
  then show ?thesis by (auto simp: register_def memory_schedules due_schedule_def Let_def)
qed

lemma put_due_schedule:
  assumes "pr_schedules p = [(''evidence-schedule'', x)]" and "x\<lparr>sw_next_run := Some (fixed_now - 60000000)\<rparr> = due_schedule previous"
  shows "put_due demo_env x p = (p\<lparr>pr_schedules := [(''evidence-schedule'', due_schedule previous)]\<rparr>, Inr ())"
proof -
  have "sw_name (due_schedule previous) = ''evidence-schedule''" by (simp add: due_schedule_def)
  with assms show ?thesis by (simp add: put_due_def memory_schedules)
qed

lemma runtime_runs:
  assumes w: "pr_world p = (initial_pricing, ())"
  shows "\<exists>p'. runtime_evidence demo_env p = (p', Inr runtime_value) \<and> pr_world p' = (initial_pricing, ())"
proof -
  let ?sched = "sv_schedules (in_memory (table_libs demo_documents))"
  obtain p0 where p0: "new_stores p = (p0, Inr ())" "pr_world p0 = (initial_pricing, ())"
      "pr_schedules p0 = []" "pr_claims p0 = []" "db_faults (pr_db p0) = []"
    using w by (simp add: new_stores_def)
  obtain r where memory: "run_workflow demo_env branching_yaml (offline_storage demo_env) (demo_args ''memory-run'' None None) p0
      = (p0\<lparr>pr_runs := dset ''memory-run'' r (pr_runs p0)\<rparr>, Inr (demo_result branching_config (branching_exec None) ''memory-run''))"
    using demo_memory_run [OF p0(2) demo_loads(1) triggered_runs(3)] by auto
  let ?p1 = "p0\<lparr>pr_runs := dset ''memory-run'' r (pr_runs p0)\<rparr>"
  let ?i = "run_input_of branching_config branching_yaml (branching_exec None) (Some ''sqlite-run'') None"
  have i: "ri_run_id ?i = Some ''sqlite-run''" "ri_dead_letters ?i = []"
    by (simp_all add: run_input_of_def branching_exec_def)
  have w1: "pr_world ?p1 = (initial_pricing, ())" "db_faults (pr_db ?p1) = []" using p0 by simp_all
  obtain db where db: "sg_save_run (database_storage demo_env) ?i ?p1 = (?p1\<lparr>pr_db := db\<rparr>, Inr ''sqlite-run'')"
      "db_faults db = []" "dget (tb_runs (db_tables db)) ''sqlite-run'' \<noteq> None"
    using sqlite_save [OF i(1) _ i(2) w1(2)] by auto
  have sqlite: "run_workflow demo_env branching_yaml (database_storage demo_env) (demo_args ''sqlite-run'' None None) ?p1
      = (?p1\<lparr>pr_db := db\<rparr>, Inr (demo_result branching_config (branching_exec None) ''sqlite-run''))"
    using demo_run [OF w1(1) demo_loads(1) triggered_runs(3), of "''sqlite-run''" "database_storage demo_env"] db(1) by simp
  let ?p2 = "?p1\<lparr>pr_db := db\<rparr>"
  obtain nx where nx: "register (table_libs demo_documents) ?sched ''evidence-schedule'' ''* * * * *'' branching_yaml fixed_now ?p2
      = (?p2\<lparr>pr_schedules := [(''evidence-schedule'', (due_schedule None)\<lparr>sw_next_run := nx\<rparr>)]\<rparr>,
         Inr ((due_schedule None)\<lparr>sw_next_run := nx\<rparr>))"
    using registered_schedule [of ?p2] p0(3) by auto
  let ?p3 = "?p2\<lparr>pr_schedules := [(''evidence-schedule'', (due_schedule None)\<lparr>sw_next_run := nx\<rparr>)]\<rparr>"
  let ?p4 = "?p3\<lparr>pr_schedules := [(''evidence-schedule'', due_schedule None)]\<rparr>"
  have first: "put_due demo_env ((due_schedule None)\<lparr>sw_next_run := nx\<rparr>) ?p3 = (?p4, Inr ())"
    by (rule put_due_schedule) (simp_all add: due_schedule_def)
  obtain p5 r' where tick: "demo_tick demo_env ''scheduled-run'' ?p4
      = (p5, Inr [dispatched_row (due_schedule None) (demo_result branching_config (branching_exec None) ''scheduled-run'')])"
    and p5: "pr_runs p5 = dset ''scheduled-run'' r' (pr_runs ?p4)" "pr_db p5 = db" "fire \<in> set (pr_claims p5)"
      "pr_schedules p5 = [(''evidence-schedule'', ran (table_libs demo_documents) fixed_now (due_schedule None))]"
      "pr_world p5 = (initial_pricing, ())"
    using first_tick [of ?p4] p0(2,4) by auto
  let ?s = "ran (table_libs demo_documents) fixed_now (due_schedule None)"
  let ?p6 = "p5\<lparr>pr_schedules := [(''evidence-schedule'', due_schedule (Some fixed_now))]\<rparr>"
  have got: "so_get ?sched ''evidence-schedule'' p5 = (p5, Inr (Some ?s))" using p5(4) by (simp add: memory_schedules)
  have second: "put_due demo_env ?s p5 = (?p6, Inr ())"
    by (rule put_due_schedule [OF p5(4)]) (simp add: due_schedule_def ran_def Let_def)
  have again: "demo_tick demo_env ''duplicate-scheduled-run'' ?p6 = (?p6, Inr [])"
    by (rule second_tick) (use p5(3) in simp_all)
  obtain q where q: "sg_get_run (database_storage demo_env) ''sqlite-run'' ?p6 = (?p6, Inr (Some q))"
    using sqlite_get [of ?p6 "''sqlite-run''"] p5(2) db(2,3) by auto
  have m: "sg_get_run (offline_storage demo_env) ''memory-run'' ?p6 = (?p6, Inr (Some r))"
    using p5(1) by (simp add: memory_get)
  have row: "get_default PyNone (dispatched_row (due_schedule None) x) ''name'' = PyStr ''evidence-schedule''" for x
    by (simp add: dispatched_row_def due_schedule_def get_default_def)
  have "runtime_evidence demo_env p = (?p6, Inr runtime_value)"
    unfolding runtime_evidence_def bind_st_def return_st_def demo_env_simps p0(1) memory sqlite nx prod.case sum.case
    by (simp only: first tick got second again q m prod.case sum.case option.case demo_result_run_id py_str.simps)
      (simp add: runtime_value_def row)
  with p5(5) show ?thesis by auto
qed

definition security_value :: pyval where
  "security_value = py_str_dict
     [(''webhook_hmac'', py_str_dict [(''valid'', PyBool True), (''invalid'', PyBool False)]),
      (''idempotency'', PyList [PyBool True, PyBool False]),
      (''auth'', py_str_dict [(''operator_allowed'', PyBool True), (''viewer_refused'', PyBool False)]),
      (''rate_limit'', PyList [PyBool True, PyBool True, PyBool False])]"

lemma security_runs: "security_evidence (table_libs demo_documents) (0, 1, 2) = Inr security_value"
  by code_simp

definition tasks_value :: pyval where
  "tasks_value = py_str_dict
     [(''text_parsing'', parsed 3 ''deterministic parsed input''),
      (''simulated_classification'', py_str_dict [(''category'', PyStr ''business''), (''source'', PyStr ''sim'')])]"

lemma direct_tasks:
  "parse_text demo_task_env (initial_pricing, ()) [] [(''text'', PyStr ''deterministic parsed input'')]
    = Some ((initial_pricing, ()), Inr (parsed 3 ''deterministic parsed input''))"
  "classify_with_llm demo_task_env (initial_pricing, ()) []
      [(''text'', PyStr ''business request''), (''labels'', PyList [PyStr ''business'', PyStr ''spam''])]
    = Some ((initial_pricing, ()), Inr (py_str_dict [(''category'', PyStr ''business''), (''source'', PyStr ''sim'')]))"
  by code_simp+

lemma tasks_run:
  assumes "pr_world p = (initial_pricing, ())"
  shows "tasks_evidence demo_task_env p = (p, Inr tasks_value)"
proof -
  have "p\<lparr>pr_world := (initial_pricing, ())\<rparr> = p" using assms by (cases p) simp
  with assms show ?thesis by (simp add: tasks_evidence_def st_defs called_def direct_tasks tasks_value_def)
qed

section \<open>The golden evidence\<close>

definition demo_evidence :: pyval where
  "demo_evidence =
     (let branch = demo_result branching_config (branching_exec (Some branching_trace)) ''normalized-branch-run''
      in py_str_dict
        [(''schema_version'', PyInt 1), (''environment'', demo_environment), (''validation'', validation_value),
         (''execution'', execution_value), (''runtime'', runtime_value), (''security'', security_value), (''tasks'', tasks_value),
         (''dashboard_fixture'', py_str_dict
           [(''run_id'', PyStr ''normalized-branch-run''), (''status'', get_default PyNone branch ''status''),
            (''step_statuses'', get_default PyNone branch ''step_statuses''),
            (''events'', get_default PyNone branch ''events''),
            (''dead_letters'', get_default PyNone branch ''dead_letters'')])])"

lemma portfolio_runs:
  "\<exists>p'. portfolio_evidence demo_env demo_task_env 2 (0, 1, 2) demo_process = (p', Inr demo_evidence)"
proof -
  have w: "pr_world demo_process = (initial_pricing, ())" by (simp add: demo_process_def)
  obtain p1 where 1: "execution_evidence demo_env demo_task_env 2 demo_process = (p1, Inr (execution_value,
      demo_result branching_config (branching_exec (Some branching_trace)) ''normalized-branch-run''))"
    "pr_world p1 = (initial_pricing, ())" using execution_runs [OF w] by blast
  obtain p2 where 2: "runtime_evidence demo_env p1 = (p2, Inr runtime_value)" "pr_world p2 = (initial_pricing, ())"
    using runtime_runs [OF 1(2)] by blast
  show ?thesis
    unfolding portfolio_evidence_def bind_st_def return_st_def lift_sum_def demo_env_simps 1(1) prod.case sum.case
      validation_runs [OF 1(2)] 2(1) security_runs tasks_run [OF 2(2)]
    by (simp add: demo_evidence_def Let_def)
qed

lemma demo_evidence_json:
  "\<exists>d b s. json_of demo_evidence = Some (JDict d) \<and> json_same (JDict d) (JDict golden_evidence)
    \<and> branch_statuses d = Inr b \<and> sorted_items b = Inr s \<and> branch_statuses golden_evidence = Inr (JDict s)"
proof -
  have "case json_of demo_evidence of
      Some (JDict d) \<Rightarrow> json_same (JDict d) (JDict golden_evidence)
        \<and> (case branch_statuses d of Inr b \<Rightarrow>
             (case sorted_items b of Inr s \<Rightarrow> branch_statuses golden_evidence = Inr (JDict s) | Inl _ \<Rightarrow> False)
           | Inl _ \<Rightarrow> False)
    | _ \<Rightarrow> False"
    by code_simp
  then show ?thesis by (auto split: option.splits json.splits sum.splits)
qed


definition golden_libs :: evidence_libs where
  "golden_libs = ex_evidence_libs\<lparr>json_loads := (\<lambda>t. Some (JDict golden_evidence))\<rparr>"


end
