(* ===== verification/Parsers.thy ===== *)
theory Parsers
  imports Docparse Lines "HOL-Library.Word"
begin

text \<open>
  The document parsers of \<open>internal/vendor_core/docparse.py\<close>. PyMuPDF, python-docx and
  Beautiful Soup are one record of functions: what they open, what they read of it, and
  whether they are installed. What the parsers make of it is modelled: the handle a PDF
  parser opens and closes on every path, the lines an HTML text is normalised to, and the
  title of a Markdown text. The choice of a parser is in theory \<open>Docparse\<close>.
\<close>

section \<open>Results\<close>

record parsed_document =
  pd_text :: string
  pd_title :: "string option"
  pd_metadata :: "(string, pyval) dict"
  pd_page_count :: int

record parse_result =
  ps_filename :: "string option"
  ps_document :: "parsed_document option"
  ps_error :: "string option"

definition ps_ok :: "parse_result \<Rightarrow> bool" where
  "ps_ok r = (ps_document r \<noteq> None)"

datatype parse_error = ImportError string | LibraryError string

text \<open>\<open>{"source": filename} if filename else {}\<close>\<close>

definition source_of :: "string option \<Rightarrow> (string, pyval) dict" where
  "source_of filename =
     (case filename of Some f \<Rightarrow> if f \<noteq> [] then [(''source'', PyStr f)] else [] | None \<Rightarrow> [])"

text \<open>The input of a parser: bytes, or an object that is not, by its \<open>str\<close>.\<close>

datatype content = Bytes "8 word list" | Text string

section \<open>The libraries\<close>

text \<open>
  An open PDF document is what iterating over it gives, page by page (the text, or the
  text of the exception), and its metadata. \<open>decode\<close> is
  \<open>bytes.decode("utf-8", errors="replace")\<close>.
\<close>

record pdf_file =
  pdf_pages :: "(string + string) list"
  pdf_meta :: "(string, string option) dict option"

record 'h parser_libs =
  lb_has_fitz :: bool
  lb_fitz_open :: "content \<Rightarrow> string + pdf_file"
  lb_has_docx :: bool
  lb_docx_paragraphs :: "content \<Rightarrow> string + string list"
  lb_has_bs4 :: bool
  lb_soup :: "content \<Rightarrow> 'h"
  lb_soup_title :: "'h \<Rightarrow> string option option"
  lb_soup_tags :: "string list \<Rightarrow> 'h \<Rightarrow> nat list"
  lb_decompose :: "nat \<Rightarrow> 'h \<Rightarrow> 'h"
  lb_get_text :: "'h \<Rightarrow> string"
  lb_decode :: "8 word list \<Rightarrow> string"

section \<open>The parsers\<close>

text \<open>The state of the PDF parser is the number of documents that are open.\<close>

fun page_texts :: "(string + string) list \<Rightarrow> string + string list" where
  "page_texts [] = Inr []"
| "page_texts (Inl msg # ps) = Inl msg"
| "page_texts (Inr t # ps) = (case page_texts ps of Inl msg \<Rightarrow> Inl msg | Inr ts \<Rightarrow> Inr (t # ts))"

definition pdf_title :: "pdf_file \<Rightarrow> string option" where
  "pdf_title doc =
     (let meta = (case pdf_meta doc of None \<Rightarrow> [] | Some m \<Rightarrow> m)
      in case dget meta ''title'' of Some (Some t) \<Rightarrow> if t \<noteq> [] then Some t else None | _ \<Rightarrow> None)"

definition parse_pdf :: "'h parser_libs \<Rightarrow> content \<Rightarrow> string option \<Rightarrow> nat \<Rightarrow> nat \<times> (parse_error + parsed_document)" where
  "parse_pdf P data filename opened =
     (if \<not> lb_has_fitz P
      then (opened, Inl (ImportError ''PyMuPDF is not installed. Install it via 'pip install pymupdf'.''))
      else case lb_fitz_open P data of
        Inl msg \<Rightarrow> (opened, Inl (LibraryError msg))
      | Inr doc \<Rightarrow>
          (let opened = opened + 1;
               body = page_texts (pdf_pages doc);
               opened = opened - 1
           in case body of
                Inl msg \<Rightarrow> (opened, Inl (LibraryError msg))
              | Inr pages \<Rightarrow>
                  (opened, Inr \<lparr>pd_text = join_str [LF, LF] pages, pd_title = pdf_title doc,
                     pd_metadata = source_of filename, pd_page_count = int (length pages)\<rparr>)))"

definition parse_docx :: "'h parser_libs \<Rightarrow> content \<Rightarrow> string option \<Rightarrow> parse_error + parsed_document" where
  "parse_docx P data filename =
     (if \<not> lb_has_docx P
      then Inl (ImportError ''python-docx is not installed. Install it via 'pip install python-docx'.'')
      else case lb_docx_paragraphs P data of
        Inl msg \<Rightarrow> Inl (LibraryError msg)
      | Inr paragraphs \<Rightarrow>
          Inr \<lparr>pd_text = join_str [LF] paragraphs, pd_title = None,
            pd_metadata = source_of filename, pd_page_count = 0\<rparr>)"

definition html_lines :: "string \<Rightarrow> string list" where
  "html_lines raw = map strip (filter (\<lambda>line. strip line \<noteq> []) (splitlines raw))"

definition html_text :: "string \<Rightarrow> string" where
  "html_text raw = join_str [LF] (html_lines raw)"

definition parse_html :: "'h parser_libs \<Rightarrow> content \<Rightarrow> string option \<Rightarrow> parse_error + parsed_document" where
  "parse_html P data filename =
     (if \<not> lb_has_bs4 P
      then Inl (ImportError ''beautifulsoup4 is not installed. Install it via 'pip install beautifulsoup4'.'')
      else
        let soup = lb_soup P data;
            title = (case lb_soup_title P soup of Some t \<Rightarrow> t | None \<Rightarrow> None);
            soup = foldl (\<lambda>s tag. lb_decompose P tag s) soup (lb_soup_tags P [''script'', ''style''] soup);
            raw = lb_get_text P soup
        in Inr \<lparr>pd_text = html_text raw, pd_title = title,
             pd_metadata = source_of filename, pd_page_count = 0\<rparr>)"

fun markdown_title :: "string list \<Rightarrow> string option" where
  "markdown_title [] = None"
| "markdown_title (line # ls) =
     (if startswith line ''# '' then Some (strip (drop 2 line)) else markdown_title ls)"

definition parse_markdown :: "'h parser_libs \<Rightarrow> content \<Rightarrow> string option \<Rightarrow> parse_error + parsed_document" where
  "parse_markdown P data filename =
     (let raw = (case data of Bytes bs \<Rightarrow> lb_decode P bs | Text s \<Rightarrow> s)
      in Inr \<lparr>pd_text = raw, pd_title = markdown_title (splitlines raw),
           pd_metadata = source_of filename, pd_page_count = 0\<rparr>)"

text \<open>The method of the chosen class.\<close>

fun parse :: "'h parser_libs \<Rightarrow> parser \<Rightarrow> content \<Rightarrow> string option \<Rightarrow> nat \<Rightarrow> nat \<times> (parse_error + parsed_document)" where
  "parse P PdfParser data filename opened = parse_pdf P data filename opened"
| "parse P DocxParser data filename opened = (opened, parse_docx P data filename)"
| "parse P HtmlParser data filename opened = (opened, parse_html P data filename)"
| "parse P MarkdownParser data filename opened = (opened, parse_markdown P data filename)"

section \<open>Handles and metadata\<close>

text \<open>No path leaves a document open, and a parsed document names its source.\<close>

lemma parse_pdf_closes: "fst (parse_pdf P data filename opened) = opened"
  by (auto simp: parse_pdf_def Let_def split: sum.splits)

theorem parse_closes: "fst (parse P q data filename opened) = opened"
  by (cases q) (simp_all add: parse_pdf_closes)

lemma parse_source:
  assumes "snd (parse P q data filename opened) = Inr d"
  shows "pd_metadata d = source_of filename"
  using assms
  by (cases q) (auto simp: parse_pdf_def parse_docx_def parse_html_def parse_markdown_def Let_def
      split: if_splits sum.splits)

lemma page_texts_map [simp]: "page_texts (map Inr ts) = Inr ts"
  by (induction ts) simp_all

lemma page_texts_InrD: "page_texts ps = Inr ts \<Longrightarrow> ps = map Inr ts"
  by (induction ps arbitrary: ts rule: page_texts.induct) (auto split: sum.splits)

text \<open>A PDF is parsed exactly when the library is there and every page has a text.\<close>

theorem parse_pdf_ok_iff:
  "snd (parse_pdf P data filename opened) = Inr d \<longleftrightarrow>
     (\<exists>doc pages. lb_has_fitz P \<and> lb_fitz_open P data = Inr doc \<and> pdf_pages doc = map Inr pages
        \<and> d = \<lparr>pd_text = join_str [LF, LF] pages, pd_title = pdf_title doc,
                pd_metadata = source_of filename, pd_page_count = int (length pages)\<rparr>)"
proof (cases "lb_fitz_open P data")
  case (Inl msg)
  then show ?thesis by (simp add: parse_pdf_def)
next
  case (Inr doc)
  show ?thesis
    by (cases "page_texts (pdf_pages doc)") (auto simp: parse_pdf_def Inr dest: page_texts_InrD)
qed

section \<open>The text of an HTML document\<close>

lemma set_strip: "set (strip s) \<subseteq> set s"
  by (auto simp: strip_def rstrip_def lstrip_def dest!: set_dropWhileD)

lemma splitlines_join:
  "\<forall>l \<in> set ls. l \<noteq> [] \<and> (\<forall>c \<in> set l. \<not> line_break c) \<Longrightarrow> splitlines (join_str [LF] ls) = ls"
  by (induction "[LF] :: string" ls rule: join_str.induct) (simp_all add: splitlines_last)

lemma strip_strip [simp]: "strip (strip s) = strip s"
proof (cases "strip s = []")
  case True
  have "strip [] = []" by (simp add: strip_def lstrip_def rstrip_def)
  then show ?thesis by (simp only: True)
next
  case False
  define t where "t = dropWhile is_space s"
  have t: "strip s = rev (dropWhile is_space (rev t))"
    by (simp add: strip_def rstrip_def lstrip_def t_def)
  then obtain u where u: "t = strip s @ u"
    by (metis rev_append rev_rev_ident takeWhile_dropWhile_id)
  with False have "hd t = hd (strip s)" "t \<noteq> []" by auto
  moreover have "\<not> is_space (hd t)" using \<open>t \<noteq> []\<close> unfolding t_def by (rule hd_dropWhile)
  ultimately have "\<not> is_space (hd (strip s))" by simp
  with False have "lstrip (strip s) = strip s" by (cases "strip s") (simp_all add: lstrip_def)
  moreover have "rstrip (strip s) = strip s" by (simp add: t rstrip_def)
  ultimately show ?thesis by (simp add: strip_def)
qed

lemma html_lines_stripped:
  "\<forall>l \<in> set (html_lines raw). l \<noteq> [] \<and> strip l = l \<and> (\<forall>c \<in> set l. \<not> line_break c)"
proof
  fix l assume "l \<in> set (html_lines raw)"
  then obtain m where "m \<in> set (splitlines raw)" "strip m \<noteq> []" "l = strip m"
    by (auto simp: html_lines_def)
  then show "l \<noteq> [] \<and> strip l = l \<and> (\<forall>c \<in> set l. \<not> line_break c)"
    using splitlines_no_break [of raw] by (auto dest: set_strip [THEN subsetD])
qed

text \<open>The lines of the text are its stripped lines, and normalising it again changes nothing.\<close>

lemma splitlines_html_text: "splitlines (html_text raw) = html_lines raw"
  unfolding html_text_def using html_lines_stripped by (intro splitlines_join) blast

theorem html_text_normal: "html_text (html_text raw) = html_text raw"
proof -
  have "html_lines (html_text raw) = map strip (filter (\<lambda>l. strip l \<noteq> []) (html_lines raw))"
    by (simp add: html_lines_def [of "html_text raw"] splitlines_html_text)
  also have "filter (\<lambda>l. strip l \<noteq> []) (html_lines raw) = html_lines raw"
    using html_lines_stripped [of raw] by (simp add: filter_id_conv)
  also have "map strip (html_lines raw) = html_lines raw"
    using html_lines_stripped [of raw] by (simp add: map_idI)
  finally have "html_lines (html_text raw) = html_lines raw" .
  then show ?thesis by (subst html_text_def) (simp add: html_text_def [of raw, symmetric])
qed

section \<open>The title of a Markdown text\<close>

text \<open>It is the first level-one heading, wherever it stands.\<close>

lemma markdown_title_find:
  "markdown_title ls = map_option (\<lambda>l. strip (drop 2 l)) (find (\<lambda>l. startswith l ''# '') ls)"
  by (induction ls) simp_all

text \<open>A text that begins with a heading line is titled by it, and is kept as it is.\<close>

theorem markdown_heading:
  assumes "\<forall>c \<in> set h. \<not> line_break c"
  shows "parse P MarkdownParser (Text (''# '' @ h @ LF # body)) filename opened =
    (opened, Inr \<lparr>pd_text = ''# '' @ h @ LF # body, pd_title = Some (strip h),
       pd_metadata = source_of filename, pd_page_count = 0\<rparr>)"
proof -
  have nb: "\<forall>c \<in> set (''# '' @ h). \<not> line_break c" using assms by (auto simp: line_break_def)
  have "splitlines (''# '' @ h @ LF # body) = (''# '' @ h) # splitlines body"
    using splitlines_line [OF nb, of body] by simp
  then show ?thesis by (simp add: parse_markdown_def Let_def)
qed

end
