(* ===== verification/CeleryApp.thy ===== *)
theory CeleryApp
  imports Settings
begin

text \<open>
  \<open>internal/vendor_core/tasks.py\<close>: the Celery application the worker is made of, with its
  configuration and the handlers of three signals. Celery is the application's name, its
  broker and result backend, its configuration and the handlers that were connected; a
  handler is what it logs.
\<close>

datatype celery_signal =
    TaskPrerun string string
  | TaskPostrun string string string
  | TaskFailure string string

record celery_app =
  ce_name :: string
  ce_broker :: string
  ce_backend :: string
  ce_conf :: "(string, pyval) dict"

text \<open>The log line of a signal: its level and its message.\<close>

fun on_signal :: "celery_signal \<Rightarrow> string \<times> string" where
  "on_signal (TaskPrerun task_name task_id) =
     (''INFO'', ''Celery task started: '' @ task_name @ ''['' @ task_id @ '']'')"
| "on_signal (TaskPostrun task_name task_id state) =
     (''INFO'', ''Celery task completed: '' @ task_name @ ''['' @ task_id @ ''] - State: '' @ state)"
| "on_signal (TaskFailure task_id exc) =
     (''ERROR'', ''Celery task failed: task_id='' @ task_id @ '' - Exception: '' @ exc)"

definition celery_conf :: "(string, pyval) dict" where
  "celery_conf =
     [(''task_serializer'', PyStr ''json''), (''accept_content'', PyList [PyStr ''json'']),
      (''result_serializer'', PyStr ''json''), (''timezone'', PyStr ''UTC''), (''enable_utc'', PyBool True),
      (''task_track_started'', PyBool True), (''task_time_limit'', PyInt 3600)]"

text \<open>The error is the message of the \<open>ImportError\<close>.\<close>

definition create_celery_app :: "bool \<Rightarrow> string \<Rightarrow> string \<Rightarrow> string \<Rightarrow> string + celery_app" where
  "create_celery_app has_celery service_name broker_url backend_url =
     (if \<not> has_celery
      then Inl ''celery module is not installed. Install it via 'pip install celery' in your service.''
      else Inr \<lparr>ce_name = service_name, ce_broker = broker_url, ce_backend = backend_url, ce_conf = celery_conf\<rparr>)"

text \<open>The application of \<open>worker.py\<close>.\<close>

definition worker_app :: "bool \<Rightarrow> app_config \<Rightarrow> string + celery_app" where
  "worker_app has_celery config =
     create_celery_app has_celery (cf_app_name config) (cf_celery_broker_url config) (cf_celery_result_backend config)"

text \<open>
  Tasks and results are exchanged as JSON only, so that a worker never unpickles what the
  broker holds.
\<close>

lemma worker_app_json_only:
  "worker_app has_celery config = Inr app \<Longrightarrow>
     dget (ce_conf app) ''accept_content'' = Some (PyList [PyStr ''json''])
     \<and> dget (ce_conf app) ''task_serializer'' = Some (PyStr ''json'')
     \<and> dget (ce_conf app) ''result_serializer'' = Some (PyStr ''json'')"
  by (auto simp: worker_app_def create_celery_app_def celery_conf_def split: if_splits)

end
