(* ===== verification/Logging.thy ===== *)
theory Logging
  imports Runtime
begin

text \<open>
  The correlation identifiers of \<open>internal/vendor_core/logging.py\<close>: the patcher that puts the
  current identifier on every log record, and the middleware that sets it for the time of a
  request. The context variable is a field of the state; \<open>reset(token)\<close> brings back the value
  that \<open>set\<close> replaced. The text of a log record is not modelled beyond what it reports; the
  time it reports is left out.
\<close>

datatype log_event =
    RequestStarted string string string
  | RequestFailed string string string
  | RequestCompleted string string nat

record 'w log_state =
  lg_correlation_id :: "string option"
  lg_records :: "(string \<times> log_event) list"
  lg_uuids :: nat
  lg_world :: 'w

record log_request =
  lq_correlation_header :: "string option"
  lq_method :: string
  lq_path :: string
  lq_client :: "string option"

record log_response =
  lp_status_code :: nat
  lp_headers :: "(string, string) dict"

definition correlation_id_patcher :: "string option \<Rightarrow> string" where
  "correlation_id_patcher corr_id =
     (case corr_id of Some c \<Rightarrow> if c \<noteq> [] then c else ''-'' | None \<Rightarrow> ''-'')"

definition log_record :: "log_event \<Rightarrow> 'w log_state \<Rightarrow> 'w log_state" where
  "log_record e s =
     s\<lparr>lg_records := lg_records s @ [(correlation_id_patcher (lg_correlation_id s), e)]\<rparr>"

text \<open>\<open>request.headers.get("X-Correlation-ID") or str(uuid.uuid4())\<close>\<close>

definition choose_correlation_id :: "(nat \<Rightarrow> string) \<Rightarrow> log_request \<Rightarrow> 'w log_state \<Rightarrow> 'w log_state \<times> string" where
  "choose_correlation_id uuid rq s =
     (case lq_correlation_header rq of
        Some h \<Rightarrow> if h \<noteq> [] then (s, h) else (s\<lparr>lg_uuids := Suc (lg_uuids s)\<rparr>, uuid (lg_uuids s))
      | None \<Rightarrow> (s\<lparr>lg_uuids := Suc (lg_uuids s)\<rparr>, uuid (lg_uuids s)))"

text \<open>
  \<open>call_next\<close> runs the rest of the application with the identifier on \<open>request.state\<close>; it
  logs through the same state and either raises, with a text, or responds.
\<close>

definition log_dispatch ::
  "(nat \<Rightarrow> string) \<Rightarrow> (string \<Rightarrow> 'w log_state \<Rightarrow> 'w log_state \<times> (string + log_response)) \<Rightarrow> log_request
     \<Rightarrow> 'w log_state \<Rightarrow> 'w log_state \<times> (string + log_response)" where
  "log_dispatch uuid call_next rq s =
     (let (s, correlation_id) = choose_correlation_id uuid rq s;
          token = lg_correlation_id s;
          s = s\<lparr>lg_correlation_id := Some correlation_id\<rparr>;
          s = log_record (RequestStarted (lq_method rq) (lq_path rq)
                (case lq_client rq of Some c \<Rightarrow> c | None \<Rightarrow> ''unknown'')) s
      in case call_next correlation_id s of
           (s, Inl exc) \<Rightarrow>
             (let s = log_record (RequestFailed (lq_method rq) (lq_path rq) exc) s
              in (s\<lparr>lg_correlation_id := token\<rparr>, Inl exc))
         | (s, Inr response) \<Rightarrow>
             (let s = log_record (RequestCompleted (lq_method rq) (lq_path rq) (lp_status_code response)) s;
                  response = response\<lparr>lp_headers := dset ''X-Correlation-ID'' correlation_id (lp_headers response)\<rparr>
              in (s\<lparr>lg_correlation_id := token\<rparr>, Inr response)))"

section \<open>The set-up\<close>

text \<open>
  The state of loguru that the set-up changes: its handlers, the extra fields of every record
  and whether the patcher is installed.
\<close>

record log_handler =
  lh_sink :: string
  lh_level :: string
  lh_format :: string

record logger =
  lo_handlers :: "log_handler list"
  lo_extra :: "(string, string) dict"
  lo_patched :: bool
  lo_messages :: "string list"

definition log_format :: string where
  "log_format =
     ''<green>{time:YYYY-MM-DD HH:mm:ss.SSS}</green> | '' @ ''<level>{level: <8}</level> | ''
     @ ''<cyan>{extra[service]}</cyan> | '' @ ''<magenta>{extra[correlation_id]}</magenta> | ''
     @ ''<cyan>{name}</cyan>:<cyan>{function}</cyan>:<cyan>{line}</cyan> - '' @ ''<level>{message}</level>''"

definition setup_logging :: "string \<Rightarrow> string \<Rightarrow> logger \<Rightarrow> logger" where
  "setup_logging level service_name l =
     (let l = l\<lparr>lo_handlers := []\<rparr>;
          l = l\<lparr>lo_handlers := lo_handlers l @ [\<lparr>lh_sink = ''stdout'', lh_level = level, lh_format = log_format\<rparr>]\<rparr>;
          l = l\<lparr>lo_extra := [(''service'', service_name)], lo_patched := True\<rparr>
      in l\<lparr>lo_messages := lo_messages l @
           [''Logging configured for service: '' @ service_name @ '' (Level: '' @ level @ '')'']\<rparr>)"

text \<open>However often it is set up, records go to one place, and only the last set-up counts.\<close>

lemma setup_logging_once:
  "lo_handlers (setup_logging level name (setup_logging level' name' l)) = lo_handlers (setup_logging level name l)
     \<and> length (lo_handlers (setup_logging level name l)) = 1
     \<and> lo_extra (setup_logging level name (setup_logging level' name' l)) = lo_extra (setup_logging level name l)"
  by (simp add: setup_logging_def)

section \<open>Properties\<close>

lemma log_record_simps [simp]:
  "lg_correlation_id (log_record e s) = lg_correlation_id s"
  "lg_uuids (log_record e s) = lg_uuids s"
  "lg_records (log_record e s) = lg_records s @ [(correlation_id_patcher (lg_correlation_id s), e)]"
  by (simp_all add: log_record_def)

text \<open>On either path the context variable is what it was before.\<close>

theorem log_dispatch_restores:
  "lg_correlation_id (fst (log_dispatch uuid call_next rq s)) = lg_correlation_id s"
  by (auto simp: log_dispatch_def choose_correlation_id_def Let_def split: prod.splits sum.splits option.splits)

text \<open>
  The identifier of a request: the one it brings, or a fresh one. Every record that is logged
  while it is handled carries it, and the response has it as its header, provided the
  application logs with the variable as the middleware has set it.
\<close>

definition request_id :: "(nat \<Rightarrow> string) \<Rightarrow> log_request \<Rightarrow> 'w log_state \<Rightarrow> string" where
  "request_id uuid rq s = snd (choose_correlation_id uuid rq s)"

definition logs_only :: "(string \<Rightarrow> 'w log_state \<Rightarrow> 'w log_state \<times> (string + log_response)) \<Rightarrow> bool" where
  "logs_only call_next \<longleftrightarrow>
     (\<forall>cid s. lg_correlation_id (fst (call_next cid s)) = lg_correlation_id s
        \<and> (\<exists>es. lg_records (fst (call_next cid s)) =
             lg_records s @ map (Pair (correlation_id_patcher (lg_correlation_id s))) es))"

theorem log_dispatch_correlated:
  assumes "logs_only call_next" and "\<forall>n. uuid n \<noteq> []" and "log_dispatch uuid call_next rq s = (s', r)"
  shows "\<exists>es. lg_records s' = lg_records s @ map (Pair (request_id uuid rq s)) es"
    and "r = Inr response \<Longrightarrow> dget (lp_headers response) ''X-Correlation-ID'' = Some (request_id uuid rq s)"
proof -
  obtain s1 cid where c: "choose_correlation_id uuid rq s = (s1, cid)" by force
  then have s1: "lg_records s1 = lg_records s" "request_id uuid rq s = cid" "cid \<noteq> []"
    using assms(2) by (auto simp: choose_correlation_id_def request_id_def split: option.splits if_splits)
  define s2 where "s2 = log_record (RequestStarted (lq_method rq) (lq_path rq)
    (case lq_client rq of Some c \<Rightarrow> c | None \<Rightarrow> ''unknown'')) (s1\<lparr>lg_correlation_id := Some cid\<rparr>)"
  obtain s3 q where n: "call_next cid s2 = (s3, q)" by force
  have p: "correlation_id_patcher (lg_correlation_id s2) = cid"
    using s1(3) by (simp add: s2_def correlation_id_patcher_def)
  from assms(1) have "lg_correlation_id (fst (call_next cid s2)) = lg_correlation_id s2
    \<and> (\<exists>es. lg_records (fst (call_next cid s2)) = lg_records s2 @ map (Pair (correlation_id_patcher (lg_correlation_id s2))) es)"
    unfolding logs_only_def by blast
  then obtain es where es: "lg_records s3 = lg_records s2 @ map (Pair cid) es"
    and v: "correlation_id_patcher (lg_correlation_id s3) = cid"
    unfolding n using p by auto
  have r2: "lg_records s2 = lg_records s @ [(cid, RequestStarted (lq_method rq) (lq_path rq)
    (case lq_client rq of Some c \<Rightarrow> c | None \<Rightarrow> ''unknown''))]"
    using p s1(1) by (simp add: s2_def)
  have d: "(s', r) = (case q of
      Inl exc \<Rightarrow> ((log_record (RequestFailed (lq_method rq) (lq_path rq) exc) s3)\<lparr>lg_correlation_id := lg_correlation_id s1\<rparr>, Inl exc)
    | Inr response \<Rightarrow> ((log_record (RequestCompleted (lq_method rq) (lq_path rq) (lp_status_code response)) s3)\<lparr>lg_correlation_id := lg_correlation_id s1\<rparr>,
        Inr (response\<lparr>lp_headers := dset ''X-Correlation-ID'' cid (lp_headers response)\<rparr>)))"
    using assms(3) by (simp add: log_dispatch_def c Let_def s2_def [symmetric] n split: sum.splits)
  obtain e where "lg_records s' = lg_records s3 @ [(cid, e)]"
    using d v by (cases q) auto
  then have "lg_records s' = lg_records s @ map (Pair cid) (RequestStarted (lq_method rq) (lq_path rq)
    (case lq_client rq of Some c \<Rightarrow> c | None \<Rightarrow> ''unknown'') # es @ [e])"
    using es r2 by simp
  then show "\<exists>es. lg_records s' = lg_records s @ map (Pair (request_id uuid rq s)) es"
    unfolding s1(2) by (rule exI)
  show "dget (lp_headers response) ''X-Correlation-ID'' = Some (request_id uuid rq s)" if "r = Inr response"
    using d that s1(2) by (cases q) auto
qed

end
