(* ===== verification/Forbidden.thy ===== *)
theory Forbidden
  imports Lines "HOL-Library.List_Lexorder" "HOL-Library.Char_ord"
begin

text \<open>
  The scan of \<open>scripts/check_forbidden.py\<close> for retired dependencies and values shaped like
  credentials. Its four regular expressions are sequences of atoms; the search tries every
  position and every length of each atom. The reference is the language the expressions
  denote: a text has a match when it can be cut into what comes before, a word of the
  language, and what comes after.
\<close>

section \<open>Patterns\<close>

text \<open>
  \<open>Edge\<close> is \<open>\b\<close>, \<open>Run P lo hi\<close> a repeated character class, \<open>Maybe w\<close> an optional group,
  \<open>OneOf ws\<close> a group of alternatives.
\<close>

datatype atom =
    Edge
  | Lit string
  | Maybe string
  | OneOf "string list"
  | Run "char \<Rightarrow> bool" nat "nat option"

text \<open>\<open>\w\<close> below 256.\<close>

definition is_word :: "char \<Rightarrow> bool" where
  "is_word c =
     (let n = of_char c :: nat
      in (48 \<le> n \<and> n \<le> 57) \<or> (65 \<le> n \<and> n \<le> 90) \<or> n = 95 \<or> (97 \<le> n \<and> n \<le> 122)
         \<or> n \<in> {170, 178, 179, 181, 185, 186, 188, 189, 190} \<or> (192 \<le> n \<and> n \<noteq> 215 \<and> n \<noteq> 247))"

lemma is_word_code [code]:
  "is_word c =
     (let n = code_point c
      in (48 \<le> n \<and> n \<le> 57) \<or> (65 \<le> n \<and> n \<le> 90) \<or> n = 95 \<or> (97 \<le> n \<and> n \<le> 122)
         \<or> list_ex (HOL.eq n) [170, 178, 179, 181, 185, 186, 188, 189, 190] \<or> (192 \<le> n \<and> n \<noteq> 215 \<and> n \<noteq> 247))"
  by (auto simp: is_word_def code_point_def Let_def)

definition edge :: "string \<Rightarrow> string \<Rightarrow> bool" where
  "edge before after =
     ((before \<noteq> [] \<and> is_word (last before)) \<noteq> (after \<noteq> [] \<and> is_word (hd after)))"

text \<open>The lengths an atom can take at a position.\<close>

definition run_fits :: "nat option \<Rightarrow> nat \<Rightarrow> bool" where
  "run_fits hi n = (case hi of None \<Rightarrow> True | Some h \<Rightarrow> n \<le> h)"

fun lengths :: "string \<Rightarrow> atom \<Rightarrow> string \<Rightarrow> nat list" where
  "lengths before Edge s = (if edge before s then [0] else [])"
| "lengths before (Lit w) s = (if startswith s w then [length w] else [])"
| "lengths before (Maybe w) s = (if startswith s w then [length w, 0] else [0])"
| "lengths before (OneOf ws) s = map length (filter (startswith s) ws)"
| "lengths before (Run P lo hi) s = filter (run_fits hi) [lo..<Suc (length (takeWhile P s))]"

fun match_here :: "string \<Rightarrow> atom list \<Rightarrow> string \<Rightarrow> bool" where
  "match_here before [] s = True"
| "match_here before (a # as) s =
     list_ex (\<lambda>n. match_here (before @ take n s) as (drop n s)) (lengths before a s)"

fun search_from :: "string \<Rightarrow> atom list \<Rightarrow> string \<Rightarrow> bool" where
  "search_from before as [] = match_here before as []"
| "search_from before as (c # s) = (match_here before as (c # s) \<or> search_from (before @ [c]) as s)"

text \<open>
  A pattern is its alternatives; the flag is \<open>re.IGNORECASE\<close>, for patterns written in lower
  case.
\<close>

record pattern =
  pt_alternatives :: "atom list list"
  pt_ignore_case :: bool

definition search :: "pattern \<Rightarrow> string \<Rightarrow> bool" where
  "search p s =
     (let t = (if pt_ignore_case p then lower s else s)
      in list_ex (\<lambda>as. search_from [] as t) (pt_alternatives p))"

definition in_ranges :: "(nat \<times> nat) list \<Rightarrow> char \<Rightarrow> bool" where
  "in_ranges rs c = list_ex (\<lambda>(lo, hi). lo \<le> of_char c \<and> of_char c \<le> hi) rs"

lemma in_ranges_code [code]:
  "in_ranges rs c = (let n = code_point c in list_ex (\<lambda>(lo, hi). int lo \<le> n \<and> n \<le> int hi) rs)"
  by (simp add: in_ranges_def code_point_def Let_def case_prod_beta)

definition digits :: "nat \<times> nat" where "digits = (48, 57)"
definition uppers :: "nat \<times> nat" where "uppers = (65, 90)"
definition lowers :: "nat \<times> nat" where "lowers = (97, 122)"

definition shared_core_pattern :: pattern where
  "shared_core_pattern =
     \<lparr>pt_alternatives =
        [[Edge, OneOf [''from'', ''import''], Run is_space 1 None, Lit ''shared_core'', Edge],
         [Lit ''shared-core'']],
      pt_ignore_case = True\<rparr>"

definition aws_pattern :: pattern where
  "aws_pattern =
     \<lparr>pt_alternatives = [[Edge, Lit ''AKIA'', Run (in_ranges [digits, uppers]) 16 (Some 16), Edge]],
      pt_ignore_case = False\<rparr>"

definition github_pattern :: pattern where
  "github_pattern =
     \<lparr>pt_alternatives = [[Edge, Lit ''gh'', OneOf [''p'', ''o'', ''u'', ''s'', ''r''], Lit ''_'',
        Run (in_ranges [uppers, lowers, digits]) 20 None, Edge]],
      pt_ignore_case = False\<rparr>"

definition openai_pattern :: pattern where
  "openai_pattern =
     \<lparr>pt_alternatives = [[Edge, Lit ''sk-'', Maybe ''proj-'',
        Run (in_ranges [uppers, lowers, digits, (95, 95), (45, 45)]) 20 None, Edge]],
      pt_ignore_case = False\<rparr>"

definition patterns :: "(string, pattern) dict" where
  "patterns =
     [(''retired shared_core dependency'', shared_core_pattern), (''AWS access key'', aws_pattern),
      (''GitHub token'', github_pattern), (''OpenAI-style API key'', openai_pattern)]"

section \<open>The scan\<close>

definition allowed_pattern_paths :: "(string, string list) dict" where
  "allowed_pattern_paths =
     [(''retired shared_core dependency'',
       [''tests/test_self_containment.py'', ''tests/test_tooling_contracts.py'', ''THIRD_PARTY_NOTICES.md'']),
      (''GitHub token'', [''tests/test_tooling_contracts.py''])]"

definition excluded_tracked_prefixes :: "string list" where
  "excluded_tracked_prefixes = [''.commandcode/'', ''.superpowers/'']"

text \<open>
  What reading a file gives: its text, no text of UTF-8, or an error of the system.
\<close>

datatype file_text = Contents string | Undecodable | Unreadable string

text \<open>
  The tree that is scanned: whether it is the repository, the exit code and output of
  \<open>git ls-files\<close>, the paths of all files below the root, and their contents. Paths are
  relative, with slashes, and are ordered by their parts.
\<close>

record scan_root =
  sc_is_repository :: bool
  sc_git :: "nat \<times> string"
  sc_tree :: "string list"
  sc_read :: "string \<Rightarrow> file_text"

definition slashes :: "string \<Rightarrow> string" where
  "slashes s = map (\<lambda>c. if c = CHR 0x5C then CHR ''/'' else c) s"

definition excluded :: "string \<Rightarrow> bool" where
  "excluded path = list_ex (startswith (slashes path)) excluded_tracked_prefixes"

definition scan_files :: "scan_root \<Rightarrow> string list" where
  "scan_files r =
     (if \<not> sc_is_repository r then sort_key (split_char (CHR ''/'')) (sc_tree r)
      else case sc_git r of (code, out) \<Rightarrow>
        if code \<noteq> 0 then []
        else sort_key (split_char (CHR ''/''))
               (filter (\<lambda>p. p \<noteq> [] \<and> \<not> excluded p) (splitlines out)))"

definition file_violations :: "string \<Rightarrow> string \<Rightarrow> string list" where
  "file_violations path contents =
     concat (map (\<lambda>(label, p).
       if search p contents \<and> path \<notin> set (get_default [] allowed_pattern_paths label)
       then [path @ '': '' @ label] else []) patterns)"

fun violations :: "(string \<Rightarrow> file_text) \<Rightarrow> string list \<Rightarrow> string + string list" where
  "violations read [] = Inr []"
| "violations read (path # ps) =
     (case read path of
        Unreadable msg \<Rightarrow> Inl msg
      | Undecodable \<Rightarrow> violations read ps
      | Contents s \<Rightarrow>
          (case violations read ps of
             Inl msg \<Rightarrow> Inl msg
           | Inr vs \<Rightarrow> Inr (file_violations path s @ vs)))"

definition find_violations :: "scan_root \<Rightarrow> string + string list" where
  "find_violations r = violations (sc_read r) (scan_files r)"

text \<open>The exit code of the script, when it does not raise.\<close>

definition check_forbidden :: "scan_root \<Rightarrow> string + nat" where
  "check_forbidden r =
     (case find_violations r of Inl msg \<Rightarrow> Inl msg | Inr vs \<Rightarrow> Inr (if vs = [] then 0 else 1))"

section \<open>The reference: the language of a pattern\<close>

fun denotes :: "string \<Rightarrow> atom \<Rightarrow> string \<Rightarrow> string \<Rightarrow> bool" where
  "denotes before Edge m after = (m = [] \<and> edge before after)"
| "denotes before (Lit w) m after = (m = w)"
| "denotes before (Maybe w) m after = (m = w \<or> m = [])"
| "denotes before (OneOf ws) m after = (m \<in> set ws)"
| "denotes before (Run P lo hi) m after = ((\<forall>c \<in> set m. P c) \<and> lo \<le> length m \<and> run_fits hi (length m))"

fun matches :: "string \<Rightarrow> atom list \<Rightarrow> string \<Rightarrow> string \<Rightarrow> bool" where
  "matches before [] m after = (m = [])"
| "matches before (a # as) m after =
     (\<exists>m1 m2. m = m1 @ m2 \<and> denotes before a m1 (m2 @ after) \<and> matches (before @ m1) as m2 after)"

lemma takeWhile_le_iff: "n \<le> length (takeWhile P s) \<longleftrightarrow> n \<le> length s \<and> (\<forall>c \<in> set (take n s). P c)"
proof (induction s arbitrary: n)
  case Nil
  then show ?case by simp
next
  case (Cons c s)
  then show ?case by (cases n) auto
qed

lemma startswith_take: "startswith s w \<longleftrightarrow> length w \<le> length s \<and> take (length w) s = w"
  by (auto simp: startswith_iff) (metis append_take_drop_id)

lemma lengths_iff:
  "n \<in> set (lengths before a s) \<longleftrightarrow> n \<le> length s \<and> denotes before a (take n s) (drop n s)"
proof (cases a)
  case Edge
  then show ?thesis by (cases "n = 0"; cases s) simp_all
next
  case (Lit w)
  then show ?thesis by (auto simp: startswith_take)
next
  case (Maybe w)
  then show ?thesis by (auto simp: startswith_take)
next
  case (OneOf ws)
  then show ?thesis by (force simp: startswith_take)
next
  case (Run P lo hi)
  have "n \<in> set (lengths before a s) \<longleftrightarrow> lo \<le> n \<and> n \<le> length (takeWhile P s) \<and> run_fits hi n"
    by (auto simp: Run less_Suc_eq_le simp del: upt_Suc)
  then show ?thesis by (auto simp: Run takeWhile_le_iff min_absorb2)
qed

lemma match_here_iff: "match_here before as s \<longleftrightarrow> (\<exists>m after. s = m @ after \<and> matches before as m after)"
proof (induction as arbitrary: before s)
  case Nil
  then show ?case by simp
next
  case (Cons a as)
  have "match_here before (a # as) s \<longleftrightarrow>
    (\<exists>n. n \<le> length s \<and> denotes before a (take n s) (drop n s)
      \<and> (\<exists>m after. drop n s = m @ after \<and> matches (before @ take n s) as m after))"
    by (simp only: match_here.simps list_ex_iff Bex_def lengths_iff Cons.IH conj_assoc)
  also have "\<dots> \<longleftrightarrow> (\<exists>m after. s = m @ after \<and> matches before (a # as) m after)"
  proof
    assume "\<exists>n. n \<le> length s \<and> denotes before a (take n s) (drop n s)
      \<and> (\<exists>m after. drop n s = m @ after \<and> matches (before @ take n s) as m after)"
    then obtain n m after where n: "denotes before a (take n s) (drop n s)" "drop n s = m @ after"
      "matches (before @ take n s) as m after" by blast
    have "s = (take n s @ m) @ after" using n(2) by (metis append.assoc append_take_drop_id)
    moreover have "matches before (a # as) (take n s @ m) after" using n by auto
    ultimately show "\<exists>m after. s = m @ after \<and> matches before (a # as) m after" by blast
  next
    assume "\<exists>m after. s = m @ after \<and> matches before (a # as) m after"
    then obtain m1 m2 after where m: "s = m1 @ m2 @ after" "denotes before a m1 (m2 @ after)"
      "matches (before @ m1) as m2 after" by auto
    then show "\<exists>n. n \<le> length s \<and> denotes before a (take n s) (drop n s)
      \<and> (\<exists>m after. drop n s = m @ after \<and> matches (before @ take n s) as m after)"
      by (intro exI [of _ "length m1"]) auto
  qed
  finally show ?case .
qed

lemma search_from_iff:
  "search_from before as s \<longleftrightarrow> (\<exists>pre rest. s = pre @ rest \<and> match_here (before @ pre) as rest)"
proof (induction s arbitrary: before)
  case Nil
  then show ?case by simp
next
  case (Cons c s)
  show ?case
  proof
    assume "search_from before as (c # s)"
    then consider "match_here before as (c # s)" | "search_from (before @ [c]) as s" by auto
    then show "\<exists>pre rest. c # s = pre @ rest \<and> match_here (before @ pre) as rest"
    proof cases
      case 1
      then show ?thesis by (intro exI [of _ "[]"] exI [of _ "c # s"]) simp
    next
      case 2
      then obtain pre rest where "s = pre @ rest" "match_here (before @ [c] @ pre) as rest"
        unfolding Cons.IH by auto
      then show ?thesis by (intro exI [of _ "c # pre"] exI [of _ rest]) simp
    qed
  next
    assume "\<exists>pre rest. c # s = pre @ rest \<and> match_here (before @ pre) as rest"
    then obtain pre rest where p: "c # s = pre @ rest" "match_here (before @ pre) as rest" by blast
    show "search_from before as (c # s)"
    proof (cases pre)
      case Nil
      with p have "rest = c # s" by simp
      with p(2) Nil show ?thesis by simp
    next
      case (Cons d pre')
      with p have "s = pre' @ rest \<and> match_here ((before @ [c]) @ pre') as rest" by simp
      then have "search_from (before @ [c]) as s" unfolding Cons.IH by blast
      then show ?thesis by simp
    qed
  qed
qed

lemma search_iff:
  "search p s \<longleftrightarrow>
     (\<exists>as \<in> set (pt_alternatives p). \<exists>before m after.
        (if pt_ignore_case p then lower s else s) = before @ m @ after \<and> matches before as m after)"
  by (simp add: search_def list_ex_iff search_from_iff match_here_iff) blast

section \<open>What the scan reports\<close>

lemma violations_Inr_iff:
  "violations read ps = Inr vs \<longleftrightarrow>
     (\<forall>p \<in> set ps. \<forall>msg. read p \<noteq> Unreadable msg)
     \<and> vs = concat (map (\<lambda>p. case read p of Contents s \<Rightarrow> file_violations p s | _ \<Rightarrow> []) ps)"
proof (induction ps arbitrary: vs)
  case Nil
  then show ?case by auto
next
  case (Cons p ps)
  show ?case
  proof (cases "read p")
    case (Contents s)
    show ?thesis
    proof (cases "violations read ps")
      case (Inl msg)
      then have "\<not> (\<forall>p \<in> set ps. \<forall>msg. read p \<noteq> Unreadable msg)" using Cons.IH by fastforce
      with Contents Inl show ?thesis by auto
    next
      case (Inr ws)
      then show ?thesis using Cons.IH [of ws] Contents by auto
    qed
  qed (use Cons.IH in auto)
qed

lemma file_violations_iff:
  "v \<in> set (file_violations path s) \<longleftrightarrow>
     (\<exists>label p. v = path @ '': '' @ label \<and> (label, p) \<in> set patterns \<and> search p s
        \<and> path \<notin> set (get_default [] allowed_pattern_paths label))"
  by (auto simp: file_violations_def split: if_splits)

lemma in_file_text: "v \<in> set (case f of Contents s \<Rightarrow> g s | _ \<Rightarrow> []) \<longleftrightarrow> (\<exists>s. f = Contents s \<and> v \<in> set (g s))"
  by (cases f) simp_all

definition reported :: "scan_root \<Rightarrow> string \<Rightarrow> string \<Rightarrow> bool" where
  "reported r path label \<longleftrightarrow>
     (\<exists>s p. path \<in> set (scan_files r) \<and> sc_read r path = Contents s \<and> (label, p) \<in> set patterns
        \<and> path \<notin> set (get_default [] allowed_pattern_paths label)
        \<and> (\<exists>as \<in> set (pt_alternatives p). \<exists>before m after.
              (if pt_ignore_case p then lower s else s) = before @ m @ after \<and> matches before as m after))"

theorem find_violations_iff:
  "find_violations r = Inr vs \<Longrightarrow>
     v \<in> set vs \<longleftrightarrow> (\<exists>path label. v = path @ '': '' @ label \<and> reported r path label)"
proof -
  assume "find_violations r = Inr vs"
  then have vs: "vs = concat (map (\<lambda>p. case sc_read r p of Contents s \<Rightarrow> file_violations p s | _ \<Rightarrow> []) (scan_files r))"
    by (simp only: find_violations_def violations_Inr_iff)
  have "v \<in> set vs \<longleftrightarrow> (\<exists>path \<in> set (scan_files r). \<exists>s. sc_read r path = Contents s \<and> v \<in> set (file_violations path s))"
    unfolding vs by (simp add: in_file_text) metis
  also have "\<dots> \<longleftrightarrow> (\<exists>path label. v = path @ '': '' @ label \<and> reported r path label)"
    unfolding reported_def search_iff [symmetric] file_violations_iff by blast
  finally show ?thesis .
qed

text \<open>The script succeeds exactly when every file can be read and nothing is reported.\<close>

theorem check_forbidden_passes_iff:
  "check_forbidden r = Inr 0 \<longleftrightarrow>
     (\<forall>path \<in> set (scan_files r). \<forall>msg. sc_read r path \<noteq> Unreadable msg)
     \<and> (\<forall>path label. \<not> reported r path label)"
proof (cases "find_violations r")
  case (Inl msg)
  then have "\<not> (\<forall>path \<in> set (scan_files r). \<forall>msg. sc_read r path \<noteq> Unreadable msg)"
    using violations_Inr_iff [of "sc_read r" "scan_files r"] by (auto simp: find_violations_def)
  with Inl show ?thesis by (auto simp: check_forbidden_def)
next
  case (Inr vs)
  then have "\<forall>path \<in> set (scan_files r). \<forall>msg. sc_read r path \<noteq> Unreadable msg"
    by (simp add: find_violations_def violations_Inr_iff)
  moreover have "vs = [] \<longleftrightarrow> (\<forall>path label. \<not> reported r path label)"
  proof -
    have "vs = [] \<longleftrightarrow> (\<forall>v. v \<notin> set vs)" by auto
    then show ?thesis unfolding find_violations_iff [OF Inr] by blast
  qed
  ultimately show ?thesis using Inr by (simp add: check_forbidden_def)
qed

text \<open>A key is found wherever it stands alone, and not inside a longer word.\<close>

lemma aws_key_found:
  assumes "length k = 16" and "\<forall>c \<in> set k. in_ranges [digits, uppers] c"
    and "before = [] \<or> \<not> is_word (last before)" and "after = [] \<or> \<not> is_word (hd after)"
  shows "search aws_pattern (before @ ''AKIA'' @ k @ after)"
proof -
  define as where "as = [Edge, Lit ''AKIA'', Run (in_ranges [digits, uppers]) 16 (Some 16), Edge]"
  have w: "is_word c" if "c \<in> set k" for c
    using that assms(2) by (auto simp: in_ranges_def digits_def uppers_def is_word_def Let_def)
  have "edge before (''AKIA'' @ k @ after)" using assms(3) by (auto simp: edge_def is_word_def)
  moreover have "k \<noteq> []" using assms(1) by auto
  then have "edge (before @ ''AKIA'' @ k) after" using assms(4) w by (auto simp: edge_def)
  ultimately have "matches before as (''AKIA'' @ k) after"
    using assms(1,2) by (simp add: as_def run_fits_def)
  then have "match_here before as ((''AKIA'' @ k) @ after)" unfolding match_here_iff by blast
  then have "search_from [] as (before @ (''AKIA'' @ k) @ after)"
    unfolding search_from_iff append_Nil by blast
  then show ?thesis by (simp add: search_def aws_pattern_def as_def del: search_from.simps match_here.simps)
qed

lemma scan_finds_key: "search aws_pattern ''id=AKIA0123456789ABCDEF;''"
  by code_simp

lemma scan_passes_longer_word: "search aws_pattern ''xAKIA0123456789ABCDEF'' = False"
  by code_simp

lemma scan_ignores_case: "search shared_core_pattern ''From   Shared_Core import x''"
  by code_simp

end
