(* ===== verification/Example.thy ===== *)
theory Example
  imports Demo Dag
begin

text \<open>
  \<open>examples/run_demo.py\<close>: the end-to-end example, as the composition of the operations it
  calls. What it prints is a record; a failing \<open>assert\<close> ends it without one. As in theory
  \<open>Demo\<close>, PyYAML's reading of the two texts is part of the environment.
\<close>

section \<open>The workflows\<close>

definition in_quotes :: "string \<Rightarrow> string" where
  "in_quotes s = [CHR 0x22] @ s @ [CHR 0x22]"

definition request_text :: string where
  "request_text = ''ACME Corp requests a business quote for 500 widgets.''"

definition branching_workflow :: string where
  "branching_workflow = text_lines
     [[], ''name: lead_intake'', ''steps:'',
      ''  - id: parse_input'', ''    task: parse_text'', ''    params:'', ''      text: '' @ in_quotes request_text,
      ''  - id: classify'', ''    task: classify_with_llm'', ''    depends_on: [parse_input]'', ''    params:'',
      ''      labels: [business, support, spam]'', ''      text: '' @ in_quotes request_text,
      ''  - id: notify_sales'', ''    task: send_notification'', ''    depends_on: [classify]'', ''    condition:'',
      ''      step: classify'', ''      contains: business'', ''    params:'', ''      channel: slack'',
      ''      message: '' @ in_quotes ''New business lead routed to sales.'',
      ''  - id: quarantine'', ''    task: send_notification'', ''    depends_on: [classify]'', ''    condition:'',
      ''      step: classify'', ''      contains: spam'']"

definition dlq_workflow :: string where
  "dlq_workflow = text_lines
     [[], ''name: flaky_pipeline'', ''steps:'', ''  - id: ingest'', ''    task: parse_text'',
      ''  - id: risky'', ''    task: always_fail'', ''    depends_on: [ingest]'', ''    retries: 1'']"

section \<open>The example\<close>

record example_report =
  er_first :: "(string, pyval) dict"
  er_dag :: dag
  er_failed :: "(string, pyval) dict"
  er_runs :: "string list"
  er_rerun :: "(string, pyval) dict"
  er_schedule :: scheduled_workflow

text \<open>The arguments of \<open>run_workflow(yaml, storage, run_id=...)\<close>.\<close>

definition plain_args :: "string option \<Rightarrow> 'w run_args" where
  "plain_args run_id =
     \<lparr>ra_run_id = run_id, ra_registry = [], ra_concurrency = None, ra_typed_io = None, ra_trace = None,
      ra_services = None, ra_version_hash = None, ra_events = None\<rparr>"

definition py_text :: "pyval \<Rightarrow> string" where
  "py_text v = (case v of PyStr s \<Rightarrow> s | _ \<Rightarrow> [])"

definition text_dict :: "pyval \<Rightarrow> (string, string) dict" where
  "text_dict v = (case v of PyDict d \<Rightarrow> map (\<lambda>(k, x). (py_text k, py_text x)) d | _ \<Rightarrow> [])"

abbreviation entry_of :: "(string, pyval) dict \<Rightarrow> string \<Rightarrow> pyval" where
  "entry_of result k \<equiv> get_default PyNone result k"

definition assert_st :: "bool \<Rightarrow> ('s \<Rightarrow> 's \<times> (exn + 'a option)) \<Rightarrow> 's \<Rightarrow> 's \<times> (exn + 'a option)" where
  "assert_st b m = (if b then m else return_st None)"

definition run_demo :: "'w env \<Rightarrow> 'w process \<Rightarrow> 'w process \<times> (exn + example_report option)" where
  "run_demo env =
     (let storage = offline_storage env
      in bind_st new_stores (\<lambda>_.
      bind_st (run_workflow env branching_workflow storage (plain_args None)) (\<lambda>result.
      let statuses = text_dict (entry_of result ''step_statuses'')
      in assert_st (dget statuses ''notify_sales'' = Some ''COMPLETED'')
      (assert_st (dget statuses ''quarantine'' = Some ''SKIPPED'')
      (bind_st (lift_sum (load_workflow_yaml (nv_libs env) branching_workflow)) (\<lambda>config.
      bind_st (run_workflow env dlq_workflow storage (plain_args None)) (\<lambda>dlq_result.
      assert_st (entry_of dlq_result ''status'' = PyStr ''failed'')
      (assert_st (truthy (entry_of dlq_result ''dead_letters''))
      (bind_st (sg_list_runs storage 50) (\<lambda>rows.
      bind_st (run_workflow env branching_workflow storage (plain_args (Some (py_text (entry_of result ''run_id''))))) (\<lambda>rerun.
      assert_st (entry_of rerun ''run_id'' = entry_of result ''run_id'')
      (bind_st (\<lambda>p. register (nv_libs env) (sv_schedules (in_memory (nv_libs env))) ''nightly_intake'' ''0 2 * * *''
                  branching_workflow (nv_clock env (pr_world p)) p) (\<lambda>sched.
      return_st (Some
        \<lparr>er_first = result, er_dag = build_dag config (Some statuses), er_failed = dlq_result,
         er_runs = map (\<lambda>r. take 8 (py_text (entry_of r ''run_id''))) rows, er_rerun = rerun, er_schedule = sched\<rparr>))))))))))))))"

section \<open>The environment of the example\<close>

definition example_documents :: "(string \<times> pyval) list" where
  "example_documents =
     [(branching_workflow, py_str_dict [(''name'', PyStr ''lead_intake''), (''steps'', PyList
        [py_str_dict [(''id'', PyStr ''parse_input''), (''task'', PyStr ''parse_text''),
           (''params'', py_str_dict [(''text'', PyStr request_text)])],
         py_str_dict [(''id'', PyStr ''classify''), (''task'', PyStr ''classify_with_llm''), (''depends_on'', py_strs [''parse_input'']),
           (''params'', py_str_dict [(''labels'', py_strs [''business'', ''support'', ''spam'']), (''text'', PyStr request_text)])],
         py_str_dict [(''id'', PyStr ''notify_sales''), (''task'', PyStr ''send_notification''), (''depends_on'', py_strs [''classify'']),
           (''condition'', demo_condition ''business''),
           (''params'', py_str_dict [(''channel'', PyStr ''slack''), (''message'', PyStr ''New business lead routed to sales.'')])],
         py_str_dict [(''id'', PyStr ''quarantine''), (''task'', PyStr ''send_notification''), (''depends_on'', py_strs [''classify'']),
           (''condition'', demo_condition ''spam'')]])]),
      (dlq_workflow, py_str_dict [(''name'', PyStr ''flaky_pipeline''), (''steps'', PyList
        [py_str_dict [(''id'', PyStr ''ingest''), (''task'', PyStr ''parse_text'')],
         py_str_dict [(''id'', PyStr ''risky''), (''task'', PyStr ''always_fail''), (''depends_on'', py_strs [''ingest'']), (''retries'', PyInt 1)]])])]"

definition example_env :: "(pricing \<times> unit) env" where
  "example_env = demo_env\<lparr>nv_libs := table_libs example_documents\<rparr>"

lemma run_demo_passes:
  "case run_demo example_env demo_process of
     (p, Inr (Some report)) \<Rightarrow>
       entry_of (er_first report) ''status'' = PyStr ''completed''
       \<and> text_dict (entry_of (er_first report) ''step_statuses'') =
           [(''parse_input'', ''COMPLETED''), (''classify'', ''COMPLETED''), (''notify_sales'', ''COMPLETED''), (''quarantine'', ''SKIPPED'')]
       \<and> map (\<lambda>n. py_text (entry_of n ''status'')) (dag_nodes (er_dag report)) =
           [''COMPLETED'', ''COMPLETED'', ''COMPLETED'', ''SKIPPED'']
       \<and> entry_of (er_failed report) ''status'' = PyStr ''failed''
       \<and> length (er_runs report) = 2 \<and> dkeys (pr_runs p) = [''uuid-0'', ''uuid-1'']
   | _ \<Rightarrow> False"
  by code_simp

end
