(* ===== verification/Spec2Isabelle.thy ===== *)
theory Spec2Isabelle
  imports Execution Versions Webhooks Scheduler Auth Locks Docparse Runner Invariants Tasks Worker Progress Cache Schema Golden
    Parsers CeleryApp Logging Forbidden Example
begin

text \<open>
  A verification development of the async workflow engine, a service that runs workflows
  written in YAML: steps with dependencies, conditions and retries, executed in order or in
  parallel layers, started by an HTTP call, a webhook, a cron schedule or a queue. All paths
  below are under \<open>src/workflow_engine/\<close>, but for \<open>scripts/\<close>, \<open>examples/\<close>, \<open>tests/\<close> and
  \<open>alembic/\<close>; \<open>vendor_core\<close> is \<open>internal/vendor_core\<close>.

  \<^bold>\<open>The program.\<close> A request reaches \<open>main.py\<close>, which checks the caller (\<open>auth.py\<close>), claims
  its idempotency key (\<open>contracts.py\<close>), takes the lock of the workflow (\<open>locks.py\<close>) and calls
  \<open>runner.py\<close>: the definition is stored as a version (\<open>versions.py\<close>), parsed (\<open>parser.py\<close>),
  executed (\<open>executor.py\<close>, with a trace, \<open>trace.py\<close>), and its record and events are saved
  (\<open>storage.py\<close> or \<open>storage_db.py\<close>, \<open>trace_store.py\<close>). The stores come in two backends, the
  memory of the process or the database, chosen at each use by \<open>runtime.py\<close> and \<open>db.py\<close>.
  \<open>scheduler.py\<close> and \<open>webhooks.py\<close> keep registrations that dispatch the same way, and
  \<open>worker.py\<close> is a second process over the same database, fed by Celery.

  \<^bold>\<open>Conventions\<close> (\<^theory_text>\<open>Prelude\<close>, \<^theory_text>\<open>PyValue\<close>, \<^theory_text>\<open>Libraries\<close>). A dictionary is an association list in
  insertion order; a Python value that a workflow can contain is a \<open>pyval\<close>; a raised
  exception is \<open>Inl\<close> of the datatype \<open>exn\<close>, a returned value \<open>Inr\<close>. A stateful operation is a
  function \<open>'s \<Rightarrow> 's \<times> (exn + 'a)\<close>, so that the state an exception leaves behind is part of
  the model. A call that may never return has \<open>None\<close> for not returning. Characters are code
  points below 256. Time stamps are integers (microseconds), delays and clocks rationals.
  PyYAML, pydantic's coercions, SHA-256, HMAC, croniter, JSON and the LLM SDKs are arguments
  (\<open>libs\<close>, \<open>llm_sdks\<close>); the broker, the clocks and the health probes are fields of \<open>env\<close>.
  What the properties need of them are their hypotheses.

  \<^bold>\<open>Theories and what their lemmas show.\<close>

  \<^item> \<^theory_text>\<open>Parser\<close>: \<open>parser.py\<close>. \<open>detect_cycles\<close> (Kahn's algorithm) accepts exactly the acyclic
    graphs and reports exactly the steps a cycle blocks; a definition that loads is well
    formed; conditions mean what they say.
  \<^item> \<^theory_text>\<open>Trace\<close>, \<^theory_text>\<open>Contracts\<close>: \<open>trace.py\<close>, \<open>trace_store.py\<close>, \<open>contracts.py\<close>. Events are numbered
    without gaps; a key is granted once (locale \<open>idempotency\<close>).
  \<^item> \<^theory_text>\<open>Executor\<close>, \<^theory_text>\<open>Execution\<close>: \<open>executor.py\<close>, its state and its steps; a parallel layer is an
    interleaving of attempts under an arbitrary list of choices. Runs of loaded workflows
    end, account for every step, order their events by the dependencies, and do not depend
    on the schedule when tasks only read their dependencies. There is no
    fuel: each round of \<open>exec_loop\<close> that makes progress takes a step out of \<open>PENDING\<close>, each
    step of the pool uses up work that is left (\<open>drain\<close>), and the termination proofs say so.
    Retries equal a reference loop.
  \<^item> \<^theory_text>\<open>Stores\<close>, \<^theory_text>\<open>Versions\<close>, \<^theory_text>\<open>Webhooks\<close>, \<^theory_text>\<open>Scheduler\<close>, \<^theory_text>\<open>Storage\<close>: the store protocols as
    locales (\<open>keyed_store\<close>, \<open>version_store\<close>, \<open>webhook_registry\<close>, \<open>scheduling\<close>,
    \<open>run_storage\<close>), the in-memory stores as interpretations, and the clients' lemmas.
  \<^item> \<^theory_text>\<open>Database\<close>, \<^theory_text>\<open>Schema\<close>: \<open>models.py\<close>, \<open>storage_db.py\<close> and the Alembic migrations. The database
    stores interpret the same locales, whatever faults the database has; the two backends
    return the same run; migrations are reversible and agree with the models, and
    \<open>scripts/check_sqlite_migrations.py\<close> passes.
  \<^item> \<^theory_text>\<open>Auth\<close>, \<^theory_text>\<open>Locks\<close>, \<^theory_text>\<open>Cache\<close>: \<open>auth.py\<close>, \<open>locks.py\<close>, \<open>vendor_core/redis.py\<close> and
    \<open>vendor_core/testing.py\<close>. Mutual exclusion in every interleaving, as far as it holds; the
    rate limit; the cache and the waiting lock; a Redis manager leaks no client.
  \<^item> \<^theory_text>\<open>Settings\<close>, \<^theory_text>\<open>Logging\<close>: \<open>config.py\<close>, \<open>vendor_core/config.py\<close>, \<open>vendor_core/logging.py\<close> and
    what \<open>main.py\<close>, \<open>worker.py\<close> and \<open>db.py\<close> make of the settings when they are imported; the
    Celery application of \<open>vendor_core/tasks.py\<close> (\<^theory_text>\<open>CeleryApp\<close>). With the defaults every
    request is let through; with a limit, unknown keys share one budget; the configuration
    check; the correlation identifier on every log record of a request.
  \<^item> \<^theory_text>\<open>Runtime\<close>, \<^theory_text>\<open>Runner\<close>, \<^theory_text>\<open>Dag\<close>, \<^theory_text>\<open>Vendor\<close>, \<^theory_text>\<open>Api\<close>, \<^theory_text>\<open>Worker\<close>: \<open>runtime.py\<close>, \<open>db.py\<close>, \<open>runner.py\<close>,
    \<open>dag.py\<close>, errors and health, \<open>main.py\<close>, \<open>worker.py\<close>. The record \<open>process\<close> is the state of one
    process, \<open>env\<close> its configuration; each endpoint is one operation on it.
  \<^item> \<^theory_text>\<open>Lines\<close>, \<^theory_text>\<open>Docparse\<close>, \<^theory_text>\<open>Parsers\<close>, \<^theory_text>\<open>Pricing\<close>, \<^theory_text>\<open>Llm\<close>, \<^theory_text>\<open>Tasks\<close>: the registered tasks
    (\<open>tasks.py\<close>) and what they call (\<open>docparse.py\<close>, \<open>pricing.py\<close>, \<open>llm.py\<close> of \<open>vendor_core\<close>);
    the document parsers, which leave no document open and normalise a text once and for all.
  \<^item> \<^theory_text>\<open>Demo\<close>, \<^theory_text>\<open>Evidence\<close>, \<^theory_text>\<open>Golden\<close>, \<^theory_text>\<open>Example\<close>, \<^theory_text>\<open>Forbidden\<close>: the programs under \<open>scripts/\<close> and
    \<open>examples/\<close>. Running the models on the workflows of \<open>portfolio_demo.py\<close> gives the evidence
    committed under \<open>tests/fixtures/golden/\<close>; \<open>verify_portfolio_evidence.py\<close> accepts one bundle
    only; the assertions of \<open>run_demo.py\<close> hold; \<open>check_forbidden.py\<close> passes exactly when no
    file it may read has a word of the languages of its patterns.
  \<^item> \<^theory_text>\<open>Invariants\<close>, \<^theory_text>\<open>Progress\<close>: what every history of requests preserves (locales over predicates
    on the process, with a sublocale for the predicates on registrations), and that requests
    that can be served are served.
  \<^item> This theory: the properties that span components. Access control, idempotency, locks,
    ticks and queued runs, over the endpoints of \<open>main.py\<close>.

  \<^bold>\<open>Not modelled.\<close> FastAPI's routing and body validation, SQLAlchemy and Celery beyond their
  documented behaviour, the reading of the settings from the environment, the generic
  repository of \<open>vendor_core/database.py\<close> (calls of a SQLAlchemy session, without a user),
  \<open>alembic/env.py\<close> and \<open>scripts/check_package.py\<close> (they start other programs).
  Requests of one process run one after another; what interleaves are the attempts of a
  layer and the holders of a lock. Log lines and the rounding of floats are left out.
\<close>

section \<open>Example requests\<close>

definition ex_request :: request where
  "ex_request = \<lparr>rq_api_key = None, rq_client = None, rq_idempotency_key = Some ''k'', rq_signature = None, rq_body = []\<rparr>"

definition ex_anonymous :: request where
  "ex_anonymous = ex_request\<lparr>rq_idempotency_key := None\<rparr>"

definition ex_closed_env :: "nat env" where
  "ex_closed_env = ex_env\<lparr>nv_auth := \<lparr>ap_api_keys = [(''s3cret'', VIEWER)], ap_required = True\<rparr>\<rparr>"

definition ex_schedule :: "string \<Rightarrow> scheduled_workflow" where
  "ex_schedule yaml = \<lparr>sw_name = ''nightly'', sw_cron = ''0 0 * * *'', sw_yaml_definition = yaml,
     sw_last_run = None, sw_next_run = Some 0, sw_enabled = True\<rparr>"

definition ex_scheduled :: "string \<Rightarrow> nat process" where
  "ex_scheduled yaml = (ex_process False)\<lparr>pr_schedules := [(''nightly'', ex_schedule yaml)]\<rparr>"

section \<open>Requests\<close>

text \<open>What the checks at the start of a request can change, and how they refuse.\<close>

lemma check_access_effect:
  assumes "check_access env rq minimum p = (p', r)"
  shows "\<exists>l. p' = p\<lparr>pr_limiter := l\<rparr> \<and> (pr_limiter p = None \<longrightarrow> l = None)
    \<and> (r = Inr () \<and> authorize (nv_auth env) (rq_api_key rq) minimum
      \<or> (\<exists>s d c. r = Inl (HTTPException s d c)
          \<and> (s = 429 \<and> pr_limiter p \<noteq> None
             \<or> s = (if empty_key (rq_api_key rq) then 401 else 403) \<and> \<not> authorize (nv_auth env) (rq_api_key rq) minimum)))"
proof (cases "pr_limiter p")
  case None
  with assms show ?thesis
    by (auto simp: check_access_def limit_rate_def bind_st_def return_st_def raise_st_def split: if_splits
        intro!: exI [of _ None])
next
  case (Some l)
  obtain l' ok where a: "allow l (rq_api_key rq) (rq_client rq) (nv_monotonic env (pr_world p)) = (l', ok)" by force
  with Some assms show ?thesis
    by (auto simp: check_access_def limit_rate_def bind_st_def return_st_def raise_st_def split: if_splits
        intro!: exI [of _ "Some l'"])
qed

lemma persistence_error_http [simp]: "persistence_errors m = catch_st m persistence_error"
  by (simp add: persistence_errors_def)

text \<open>A request that is refused at its start ends there.\<close>

lemma call_refused:
  assumes "check_access env rq (minimum_role c) p = (p', Inl (HTTPException s d code))"
  shows "call env rq c p = (p', Inl (HTTPException s d code))"
proof -
  have "bind_st (check_access env rq (minimum_role c)) f p = (p', Inl (HTTPException s d code))" for f :: "unit \<Rightarrow> 'a operation"
    using assms by (simp add: bind_st_def)
  then show ?thesis
    by (cases c)
      (simp_all add: validate_workflow_def run_endpoint_def rerun_workflow_def list_workflows_def
        list_dead_letters_def get_workflow_run_def get_workflow_dag_def register_webhook_def list_webhooks_def
        trigger_webhook_def create_schedule_def list_schedules_endpoint_def delete_schedule_def
        run_due_schedules_def list_tasks_def health_check_def catch_st_def)
qed

text \<open>
  C12: a request without the role its endpoint asks for changes nothing but the state of the
  rate limiter and is answered 401 (no key), 403 (a key without the role) or 429; with no
  limiter, with the first two exactly as the key is absent or not.
\<close>

theorem access_denied_inert:
  assumes "\<not> authorize (nv_auth env) (rq_api_key rq) (minimum_role c)" and "call env rq c p = (p', r)"
  shows "(\<exists>l. p' = p\<lparr>pr_limiter := l\<rparr>)
    \<and> fst (respond r) \<in> {if empty_key (rq_api_key rq) then 401 else 403, 429}
    \<and> (pr_limiter p = None \<longrightarrow> p' = p \<and> fst (respond r) \<noteq> 429)"
proof -
  obtain p1 q where q: "check_access env rq (minimum_role c) p = (p1, q)" by force
  obtain l where p1: "p1 = p\<lparr>pr_limiter := l\<rparr>" "pr_limiter p = None \<longrightarrow> l = None"
    and q': "q = Inr () \<and> authorize (nv_auth env) (rq_api_key rq) (minimum_role c)
      \<or> (\<exists>s d code. q = Inl (HTTPException s d code) \<and> (s = 429 \<and> pr_limiter p \<noteq> None
          \<or> s = (if empty_key (rq_api_key rq) then 401 else 403) \<and> \<not> authorize (nv_auth env) (rq_api_key rq) (minimum_role c)))"
    using check_access_effect [OF q] by (elim exE conjE) (rule that)
  from q' assms(1) obtain s d code where r: "q = Inl (HTTPException s d code)"
    and s: "s = 429 \<and> pr_limiter p \<noteq> None \<or> s = (if empty_key (rq_api_key rq) then 401 else 403)"
    by (elim disjE exE conjE) simp_all
  have "p' = p1" "r = Inl (HTTPException s d code)"
    using call_refused [OF q [unfolded r]] assms(2) by simp_all
  moreover have "p\<lparr>pr_limiter := l\<rparr> = p" if "pr_limiter p = None" using that p1(2) by simp
  moreover have "fst (respond (Inl (HTTPException s d code))) = s" by (simp add: respond_def)
  ultimately show ?thesis using p1 s by auto
qed

theorem access_denied_inert_witness:
  "\<exists>r. call ex_closed_env ex_request (RunWorkflow ''leads.yaml'' False) (ex_process True) = (ex_process True, r)
    \<and> fst (respond r) = 401"
proof -
  obtain p' r where c: "call ex_closed_env ex_request (RunWorkflow ''leads.yaml'' False) (ex_process True) = (p', r)"
    by force
  have "\<not> authorize (nv_auth ex_closed_env) (rq_api_key ex_request) (minimum_role (RunWorkflow ''leads.yaml'' False))"
    by (simp add: ex_closed_env_def ex_request_def authorize_def)
  moreover have "pr_limiter (ex_process True) = None" "empty_key (rq_api_key ex_request)"
    by (simp_all add: ex_process_def ex_request_def empty_key_def)
  ultimately show ?thesis using access_denied_inert [OF _ c] c by auto
qed

section \<open>Idempotency keys\<close>

definition claimed_keys :: "'w process \<Rightarrow> (string \<times> string) set" where
  "claimed_keys p = (if pr_db_available p then db_process_claimed p else mem_claimed p)"

lemmas claimed_keys_defs = claimed_keys_def db_process_claimed_def db_claimed_def mem_claimed_def

lemma sv_claim_available: "sv_claim (active_services env p) ns k p = (p', r) \<Longrightarrow> pr_db_available p' = pr_db_available p"
  by (auto simp: active_services_def get_runtime_services_def database_services_def in_memory_def lift_op_def
      set_part_defs split: if_splits prod.splits)

interpretation active_claims: idempotency "\<lambda>ns key p. sv_claim (active_services env p) ns key p" claimed_keys
  for env :: "'w env"
proof
  fix ns k and p p' :: "'w process" and r
  note mem = idempotency.claim_taken [OF mem_claim_store] idempotency.claim_fresh [OF mem_claim_store]
  note db = idempotency.claim_taken [OF db_claim_store] idempotency.claim_fresh [OF db_claim_store]
  assume k: "k \<noteq> []" and c: "sv_claim (active_services env p) ns (Some k) p = (p', r)"
  have av: "pr_db_available p' = pr_db_available p" by (rule sv_claim_available [OF c])
  show "claimed_keys p' = claimed_keys p \<and> r \<noteq> Inr True" if "(ns, k) \<in> claimed_keys p"
    using that c k av mem(1) [of ns k p "nv_libs env" p' r] db(1) [of ns k p "nv_libs env" p' r]
    by (simp add: claimed_keys_def active_services_def get_runtime_services_def split: if_splits)
  show "case r of Inr b \<Rightarrow> b \<and> claimed_keys p' = insert (ns, k) (claimed_keys p) | Inl e \<Rightarrow> claimed_keys p' = claimed_keys p"
    if "(ns, k) \<notin> claimed_keys p"
    using that c k av mem(2) [of ns k p "nv_libs env" p' r] db(2) [of ns k p "nv_libs env" p' r]
    by (cases r) (simp_all add: claimed_keys_def active_services_def get_runtime_services_def split: if_splits)
next
  show "sv_claim (active_services env p) ns key p = (p, Inr True)" if "key = None \<or> key = Some []" for key ns p
    using that
    by (simp add: active_services_def get_runtime_services_def idempotency.claim_no_key [OF mem_claim_store]
        idempotency.claim_no_key [OF db_claim_store])
qed

text \<open>No request gives up a claim.\<close>

lemma claims_never_lost:
  assumes "\<And>K K' b. preserves (claims_kept.holds K K' b) f" and "f p = (p', r)"
  shows "pr_db_available p' = pr_db_available p \<and> claimed_keys p \<subseteq> claimed_keys p'"
proof -
  have "claims_kept.holds (set (pr_claims p)) (set (tb_claims (db_tables (pr_db p)))) (pr_db_available p) p"
    by (simp add: claims_kept.holds_def)
  from preservesD [OF assms(1,2) this] show ?thesis
    by (auto simp: claims_kept.holds_def claimed_keys_defs)
qed

lemma db_claim_taken:
  assumes "db_claim ns (Some k) db = (db', r)" and "(ns, k) \<in> set (tb_claims (db_tables db))" and "k \<noteq> []"
  shows "db_tables db' = db_tables db \<and> (r = Inr False \<or> (\<exists>m. r = Inl (SQLAlchemyError m)))"
  using assms
  by (auto simp: db_claim_def session_def Let_def split: list.splits option.splits)

lemma claim_taken_effect:
  assumes "sv_claim (active_services env p) ns (Some k) p = (p', r)" and "(ns, k) \<in> claimed_keys p" and "k \<noteq> []"
  shows "pr_world p' = pr_world p \<and> stored_runs p' = stored_runs p \<and> stored_versions p' = stored_versions p
    \<and> (r = Inr False \<or> (\<exists>m. r = Inl (SQLAlchemyError m)))"
proof (cases "pr_db_available p")
  case True
  then obtain db' where c: "db_claim ns (Some k) (pr_db p) = (db', r)" and p': "p' = set_db db' p"
    using assms(1) by (auto simp: active_services_def get_runtime_services_def database_services_def lift_op_def
        split: prod.splits)
  have "(ns, k) \<in> set (tb_claims (db_tables (pr_db p)))" using assms(2) True by (simp add: claimed_keys_defs)
  from db_claim_taken [OF c this assms(3)] p' True db_views_cong [of db' "pr_db p"] show ?thesis
    by (simp add: stored_runs_def stored_versions_def backend_views set_db_def)
next
  case False
  then show ?thesis
    using assms by (auto simp: active_services_def get_runtime_services_def in_memory_def lift_op_def claim_def
        claimed_keys_defs set_claims_def split: if_splits)
qed

lemma run_endpoint_claims:
  assumes "run_endpoint env rq y b p = (p', Inr body)" and "rq_idempotency_key rq = Some k" and "k \<noteq> []"
  shows "(''workflow:run'', k) \<in> claimed_keys p' \<and> pr_db_available p' = pr_db_available p"
proof -
  let ?claim = "claim_idempotency env ''workflow:run'' (rq_idempotency_key rq)"
  obtain p1 where a: "check_access env rq OPERATOR p = (p1, Inr ())"
    and h: "catch_st (catch_st (bind_st ?claim (\<lambda>_. dispatch env y None b None)) (validation_error env)) persistence_error p1
      = (p', Inr body)"
    using assms(1) by (auto simp: run_endpoint_def validation_errors_def dest!: bind_st_Inr)
  have "bind_st ?claim (\<lambda>_. dispatch env y None b None) p1 = (p', Inr body)"
    using h by (auto elim!: catch_st_cases)
  then obtain p2 where c: "?claim p1 = (p2, Inr ())" and d: "dispatch env y None b None p2 = (p', Inr body)"
    by (auto dest!: bind_st_Inr)
  have "sv_claim (active_services env p1) ''workflow:run'' (Some k) p1 = (p2, Inr True)"
    using c assms(2,3)
    by (auto simp: claim_idempotency_def empty_key_def bind_st_def return_st_def raise_st_def
        split: prod.splits sum.splits if_splits)
  from active_claims.claim_granted(2) [OF assms(3) this] sv_claim_available [OF this]
  have "(''workflow:run'', k) \<in> claimed_keys p2" "pr_db_available p2 = pr_db_available p1" by simp_all
  moreover have "pr_db_available p1 = pr_db_available p"
    using check_access_effect [OF a] by auto
  ultimately show ?thesis
    using claims_never_lost [OF claims_kept.requests.dispatch_preserves d] by auto
qed

text \<open>
  C13: once a run request with an idempotency key has been answered with a run, a later run
  request with the same key, after whatever requests in between, never runs: it is refused
  (409 unless it is denied access or the database fails), no task is called and no run or
  version is stored.
\<close>

theorem idempotent_run_once:
  assumes "call env rq (RunWorkflow y b) p = (p1, Inr body)" and "rq_idempotency_key rq = Some k" and "k \<noteq> []"
    and "serve env between p1 = (p2, answers)"
    and "rq_idempotency_key rq' = Some k" and "call env rq' (RunWorkflow y' b') p2 = (p3, r)"
  shows "fst (respond r) \<in> {401, 403, 409, 429, 503} \<and> pr_world p3 = pr_world p2
    \<and> stored_runs p3 = stored_runs p2 \<and> stored_versions p3 = stored_versions p2"
proof -
  have "(''workflow:run'', k) \<in> claimed_keys p1"
    using run_endpoint_claims [OF assms(1) [unfolded call.simps] assms(2,3)] by simp
  moreover have "preserves (claims_kept.holds K K' c) (serve env between)" for K K' c
    using claims_kept.requests.serve_preserves by (auto intro!: preservesI)
  ultimately have key: "(''workflow:run'', k) \<in> claimed_keys p2"
    using claims_never_lost [where f = "serve env between", OF _ assms(4)] by blast
  obtain pa q where a: "check_access env rq' OPERATOR p2 = (pa, q)" by force
  obtain l where pa: "pa = p2\<lparr>pr_limiter := l\<rparr>"
    and q: "q = Inr () \<or> (\<exists>s d code. q = Inl (HTTPException s d code) \<and> s \<in> {401, 403, 429})"
    using check_access_effect [OF a] by (auto split: if_splits)
  have same: "pr_world pa = pr_world p2" "stored_runs pa = stored_runs p2" "stored_versions pa = stored_versions p2"
    "claimed_keys pa = claimed_keys p2"
    by (simp_all add: pa stored_runs_def stored_versions_def backend_views claimed_keys_defs fun_eq_iff)
  show ?thesis
  proof (cases "q = Inr ()")
    case False
    then obtain s d code where s: "q = Inl (HTTPException s d code)" "s \<in> {401, 403, 429}" using q by blast
    have "call env rq' (RunWorkflow y' b') p2 = (pa, Inl (HTTPException s d code))"
      by (rule call_refused) (simp add: a s(1))
    with assms(6) s(2) same show ?thesis by (simp add: respond_def) blast
  next
    case True
    obtain pb g where c: "sv_claim (active_services env pa) ''workflow:run'' (Some k) pa = (pb, g)" by force
    note t = claim_taken_effect [OF c _ assms(3)]
    have g: "g = Inr False \<or> (\<exists>m. g = Inl (SQLAlchemyError m))" using t key same by blast
    have "p3 = pb \<and> fst (respond r) \<in> {409, 503}"
      using g assms(3,5,6) a True c
      by (auto simp: run_endpoint_def validation_errors_def claim_idempotency_def empty_key_def bind_st_def
          catch_st_def raise_st_def respond_def validation_error_def)
    with t key same show ?thesis by auto
  qed
qed

lemma ex_first_run:
  "case call ex_env ex_request (RunWorkflow ''leads.yaml'' False) (ex_process False) of
     (p, Inl e) \<Rightarrow> False
   | (p, Inr body) \<Rightarrow> dget body ''run_id'' = Some (PyStr ''uuid-0'')
       \<and> \<not> isl (snd (call ex_env ex_anonymous (GetWorkflowRun ''uuid-0'') p))"
  by code_simp

theorem idempotent_run_once_witness:
  "\<exists>p1 p2 p3 body answers r. call ex_env ex_request (RunWorkflow ''leads.yaml'' False) (ex_process False) = (p1, Inr body)
    \<and> serve ex_env [(ex_anonymous, ListWorkflows)] p1 = (p2, answers)
    \<and> call ex_env ex_request (RunWorkflow ''other'' True) p2 = (p3, r)
    \<and> fst (respond r) \<in> {401, 403, 409, 429, 503} \<and> pr_world p3 = pr_world p2"
proof -
  obtain p1 body where c: "call ex_env ex_request (RunWorkflow ''leads.yaml'' False) (ex_process False) = (p1, Inr body)"
    using ex_first_run by (auto split: prod.splits sum.splits)
  obtain p2 answers where h: "serve ex_env [(ex_anonymous, ListWorkflows)] p1 = (p2, answers)" by force
  obtain p3 r where d: "call ex_env ex_request (RunWorkflow ''other'' True) p2 = (p3, r)" by force
  have k: "rq_idempotency_key ex_request = Some ''k''" by (simp add: ex_request_def)
  from idempotent_run_once [OF c k _ h k d] c h d show ?thesis by blast
qed

section \<open>Locks\<close>

text \<open>
  C20: whatever requests are served, and however they end, no lock is left behind: the
  in-memory provider holds exactly the keys it held before.
\<close>

theorem locks_released:
  assumes "serve env calls p = (p', answers)"
  shows "pr_locks p' = pr_locks p"
  by (rule locks_kept.serve_preserves [OF assms]) (rule refl)

theorem locks_released_witness:
  "pr_locks (fst (serve ex_env [(ex_request, RunWorkflow ''leads.yaml'' False), (ex_request, RunWorkflow ''other'' True)]
     ((ex_process False)\<lparr>pr_locks := [''workflow:x'']\<rparr>))) = [''workflow:x'']"
proof -
  obtain p' answers where s: "serve ex_env [(ex_request, RunWorkflow ''leads.yaml'' False), (ex_request, RunWorkflow ''other'' True)]
     ((ex_process False)\<lparr>pr_locks := [''workflow:x'']\<rparr>) = (p', answers)" by force
  from locks_released [OF s] s show ?thesis by simp
qed


lemma ex_hash: "\<exists>h. canonical_yaml_hash ex_libs ''leads.yaml'' = Inr h"
  by (simp add: canonical_yaml_hash_def ex_libs_def table_libs_def)


section \<open>The scheduler's tick\<close>

definition stored_schedules :: "'w process \<Rightarrow> string \<Rightarrow> scheduled_workflow option" where
  "stored_schedules p = (if pr_db_available p then db_scheduled p else mem_scheduled p)"

definition schedules_good :: "'w process \<Rightarrow> bool" where
  "schedules_good p = (if pr_db_available p then db_process_good p else mem_process_good p)"

lemma tick_available: "tick env p = (p', r) \<Longrightarrow> pr_db_available p' = pr_db_available p"
  using claims_never_lost [OF claims_kept.requests.tick_preserves] by blast

text \<open>
  C17: on either backend, a tick that returns advances exactly the schedules that are due and
  whose fire time was not claimed before, each once, and reports exactly those; it claims
  the fire times of all due schedules and leaves every other schedule as it was.
\<close>

theorem tick_advances_due:
  assumes "schedules_good p" and "tick env p = (p', Inr rows)"
  shows "schedules_good p'
    \<and> (\<forall>n. case stored_schedules p n of
          None \<Rightarrow> stored_schedules p' n = None
        | Some x \<Rightarrow> if is_due (nv_clock env (pr_world p)) x \<and> fire_key x \<notin> claimed_keys p
            then \<exists>t. stored_schedules p' n = Some (ran (nv_libs env) t x) else stored_schedules p' n = Some x)
    \<and> claimed_keys p' = claimed_keys p
        \<union> fire_key ` {x. stored_schedules p (sw_name x) = Some x \<and> is_due (nv_clock env (pr_world p)) x}
    \<and> (\<exists>names. map (\<lambda>row. dget row ''name'') rows = map (Some \<circ> PyStr) names \<and> distinct names
        \<and> set names = {n. \<exists>x. stored_schedules p n = Some x \<and> is_due (nv_clock env (pr_world p)) x
            \<and> fire_key x \<notin> claimed_keys p})"
proof -
  have av: "pr_db_available p' = pr_db_available p" by (rule tick_available [OF assms(2)])
  have now: "at_time (\<lambda>p. nv_clock env (pr_world p)) None p = nv_clock env (pr_world p)" by (simp add: at_time_def)
  have adv: "has_run L None q x \<longleftrightarrow> (\<exists>t. q = Some (ran L t x))" for L q x by (simp add: has_run_def)
  show ?thesis
  proof (cases "pr_db_available p")
    case True
    have g: "db_process_good p" using assms(1) True by (simp add: schedules_good_def)
    have d: "dispatch_due (nv_libs env) (sv_schedules (database_services (nv_libs env)))
        (Some (sv_claim (database_services (nv_libs env)))) (\<lambda>p. nv_clock env (pr_world p))
        (\<lambda>y. dispatch env y None False None) None p = (p', Inr rows)"
      using assms(2) True by (simp add: tick_def active_services_def get_runtime_services_def)
    have views: "schedules_good p' = db_process_good p'" "stored_schedules p = db_scheduled p"
      "stored_schedules p' = db_scheduled p'" "claimed_keys p = db_process_claimed p" "claimed_keys p' = db_process_claimed p'"
      using av True by (simp_all add: schedules_good_def stored_schedules_def claimed_keys_def)
    show ?thesis
      unfolding views using db_sched.dispatch_due_ok [OF g dispatch_frames_db d] unfolding now adv .
  next
    case False
    have g: "mem_process_good p" using assms(1) False by (simp add: schedules_good_def)
    have d: "dispatch_due (nv_libs env) (sv_schedules (in_memory (nv_libs env)))
        (Some (sv_claim (in_memory (nv_libs env)))) (\<lambda>p. nv_clock env (pr_world p))
        (\<lambda>y. dispatch env y None False None) None p = (p', Inr rows)"
      using assms(2) False by (simp add: tick_def active_services_def get_runtime_services_def)
    have views: "schedules_good p' = mem_process_good p'" "stored_schedules p = mem_scheduled p"
      "stored_schedules p' = mem_scheduled p'" "claimed_keys p = mem_claimed p" "claimed_keys p' = mem_claimed p'"
      using av False by (simp_all add: schedules_good_def stored_schedules_def claimed_keys_def)
    show ?thesis
      unfolding views using mem_sched.dispatch_due_ok [OF g dispatch_frames_mem d] unfolding now adv .
  qed
qed

lemma ex_tick_returns:
  "\<not> isl (snd (tick ex_env (ex_scheduled ''leads.yaml'')))"
  by code_simp

theorem tick_advances_due_witness:
  "\<exists>p' rows t. tick ex_env (ex_scheduled ''leads.yaml'') = (p', Inr rows)
    \<and> stored_schedules p' ''nightly'' = Some (ran ex_libs t (ex_schedule ''leads.yaml''))"
proof -
  obtain p' rows where t: "tick ex_env (ex_scheduled ''leads.yaml'') = (p', Inr rows)"
    using ex_tick_returns by (metis prod.collapse sum.collapse(2))
  have g: "schedules_good (ex_scheduled ''leads.yaml'')"
    by (simp add: schedules_good_def ex_scheduled_def ex_process_def mem_process_good_def ex_schedule_def
        mem_good_def)
  have stored: "stored_schedules (ex_scheduled ''leads.yaml'') ''nightly'' = Some (ex_schedule ''leads.yaml'')"
    by (simp add: stored_schedules_def ex_scheduled_def ex_process_def mem_scheduled_def)
  have due: "is_due (nv_clock ex_env (pr_world (ex_scheduled ''leads.yaml''))) (ex_schedule ''leads.yaml'')
      \<and> fire_key (ex_schedule ''leads.yaml'') \<notin> claimed_keys (ex_scheduled ''leads.yaml'')"
    by (simp add: is_due_def ex_schedule_def ex_scheduled_def ex_process_def claimed_keys_defs ex_env_def)
  have "case stored_schedules (ex_scheduled ''leads.yaml'') ''nightly'' of
          None \<Rightarrow> stored_schedules p' ''nightly'' = None
        | Some x \<Rightarrow> if is_due (nv_clock ex_env (pr_world (ex_scheduled ''leads.yaml''))) x
              \<and> fire_key x \<notin> claimed_keys (ex_scheduled ''leads.yaml'')
            then \<exists>t. stored_schedules p' ''nightly'' = Some (ran (nv_libs ex_env) t x)
            else stored_schedules p' ''nightly'' = Some x"
    using tick_advances_due [OF g t] by blast
  then have "\<exists>s. stored_schedules p' ''nightly'' = Some (ran ex_libs s (ex_schedule ''leads.yaml''))"
    using due by (simp add: stored) (simp add: ex_env_def)
  with t show ?thesis by blast
qed


lemma ex_dispatch_fails:
  "isl (snd (dispatch ex_env ''other'' None False None
     ((ex_scheduled ''other'')\<lparr>pr_claims := fire_key (ex_schedule ''other'') # pr_claims (ex_scheduled ''other'')\<rparr>)))"
  by code_simp


section \<open>Registrations\<close>

definition stored_triggers :: "'w process \<Rightarrow> string \<Rightarrow> webhook_trigger option" where
  "stored_triggers p = (if pr_db_available p then db_triggers (pr_db p) else map_of (pr_webhooks p))"

text \<open>
  C21: from a process with no registrations, after whatever requests, every schedule and
  every webhook that is stored has a definition that loads, and every schedule a valid cron
  expression: what the validation at registration promises is never lost.
\<close>

theorem registered_definitions_load:
  assumes "pr_schedules p = []" and "pr_webhooks p = []" and "tb_schedules (db_tables (pr_db p)) = []"
    and "tb_webhooks (db_tables (pr_db p)) = []" and "serve env calls p = (p', answers)"
  shows "(stored_schedules p' n = Some s \<longrightarrow> loads (nv_libs env) (sw_yaml_definition s) \<and> is_valid_cron (nv_libs env) (sw_cron s))
    \<and> (stored_triggers p' n = Some t \<longrightarrow> loads (nv_libs env) (wh_yaml_definition t))"
proof -
  have "registered.holds env (pr_db_available p) p"
    using assms(1-4) by (simp add: registered.holds_def registries_ok_def registry_tables_ok_def)
  from registered.requests.serve_preserves [OF assms(5) this]
  have mem: "all_values (schedule_ok (nv_libs env)) (pr_schedules p')" "all_values (\<lambda>v. loads (nv_libs env) (wh_yaml_definition v)) (pr_webhooks p')"
    and db: "all_values (\<lambda>r. schedule_ok (nv_libs env) (to_schedule [] r)) (tb_schedules (db_tables (pr_db p')))"
      "all_values (\<lambda>r. loads (nv_libs env) (wg_yaml_definition r)) (tb_webhooks (db_tables (pr_db p')))"
    by (simp_all add: registered.holds_def registries_ok_def registry_tables_ok_def)
  show ?thesis
    using all_values_dget [OF mem(1), of n] all_values_dget [OF mem(2), of n] all_values_dget [OF db(1), of n]
      all_values_dget [OF db(2), of n]
    by (auto simp: stored_schedules_def stored_triggers_def mem_scheduled_def db_scheduled_def db_schedules_def
        db_triggers_def to_schedule_def to_trigger_def schedule_ok_def)
qed

definition ex_registrations :: "(request \<times> api_call) list" where
  "ex_registrations =
     [(ex_request, CreateSchedule ''nightly'' ''0 0 * * *'' ''leads.yaml''),
      (ex_request, CreateSchedule ''broken'' ''0 0 * * *'' ''other''),
      (ex_request, RegisterWebhook ''hook'' ''leads.yaml'' [] None)]"

lemma ex_registered:
  "case serve ex_env ex_registrations (ex_process False) of
     (p, answers) \<Rightarrow> map fst answers = [200, 422, 200] \<and> stored_schedules p ''nightly'' \<noteq> None
       \<and> stored_triggers p ''hook'' \<noteq> None"
  by code_simp

theorem registered_definitions_load_witness:
  "\<exists>p answers s t. serve ex_env ex_registrations (ex_process False) = (p, answers)
    \<and> stored_schedules p ''nightly'' = Some s \<and> stored_triggers p ''hook'' = Some t
    \<and> loads (nv_libs ex_env) (sw_yaml_definition s) \<and> loads (nv_libs ex_env) (wh_yaml_definition t)"
proof -
  obtain p answers where h: "serve ex_env ex_registrations (ex_process False) = (p, answers)" by force
  then obtain s t where st: "stored_schedules p ''nightly'' = Some s" "stored_triggers p ''hook'' = Some t"
    using ex_registered by auto
  have "pr_schedules (ex_process False) = []" "pr_webhooks (ex_process False) = []"
    "tb_schedules (db_tables (pr_db (ex_process False))) = []" "tb_webhooks (db_tables (pr_db (ex_process False))) = []"
    by (simp_all add: ex_process_def ex_db_def)
  from registered_definitions_load [OF this h, of "''nightly''" s t] registered_definitions_load [OF this h, of "''hook''" s t] h st
  show ?thesis by blast
qed

section \<open>Running and reading back\<close>

definition store_view :: "'w process \<Rightarrow> bool \<times> runs \<times> versions \<times> database" where
  "store_view p = (pr_db_available p, pr_runs p, pr_versions p, pr_db p)"

lemma store_view_cong:
  assumes "store_view q = store_view p"
  shows "consistent q = consistent p \<and> stored_runs q = stored_runs p \<and> stored_versions q = stored_versions p
    \<and> get_storage env q = get_storage env p \<and> get_runtime_services L q = get_runtime_services L p"
  using assms
  by (simp add: store_view_def consistent_def stored_runs_def stored_versions_def backend_views get_storage_def
      get_runtime_services_def)

lemma with_lock_held:
  assumes "with_lock env key (locked_execute env y a) p = (p', Inr result)"
  shows "\<exists>p0 p1. store_view p0 = store_view p \<and> dispatch_execute env y a p0 = (p1, Inr result) \<and> store_view p' = store_view p1"
proof (cases "nv_redis_locking env")
  case True
  define q where "q = p\<lparr>pr_uuids := Suc (pr_uuids p)\<rparr>"
  let ?token = "nv_uuid env (pr_uuids p)"
  obtain rd a' where e: "redis_enter (nv_redis_clock env (pr_world q)) key ?token 60 (pr_redis q) = (rd, a')" by force
  obtain p1 r where b: "locked_execute env y a a' (q\<lparr>pr_redis := rd\<rparr>) = (p1, r)" by force
  have w: "with_lock env key (locked_execute env y a) p
      = (p1\<lparr>pr_redis := redis_exit (nv_redis_clock env (pr_world p1)) a' key ?token (pr_redis p1)\<rparr>, r)"
    using True e b by (simp add: with_lock_def with_redis_lock_def bind_st_def draw_uuid_def q_def)
  have "r = Inr result" "a'"
    using w b assms by (auto simp: locked_execute_def raise_st_def split: if_splits)
  with b have "dispatch_execute env y a (q\<lparr>pr_redis := rd\<rparr>) = (p1, Inr result)" by (simp add: locked_execute_def)
  moreover have "store_view p' = store_view p1" using w assms by (auto simp: store_view_def)
  moreover have "store_view (q\<lparr>pr_redis := rd\<rparr>) = store_view p" by (simp add: store_view_def q_def)
  ultimately show ?thesis by blast
next
  case False
  obtain ks a' where e: "lock_enter key (pr_locks p) = (ks, a')" by force
  obtain p1 r where b: "locked_execute env y a a' (p\<lparr>pr_locks := ks\<rparr>) = (p1, r)" by force
  have w: "with_lock env key (locked_execute env y a) p = (p1\<lparr>pr_locks := lock_exit a' key (pr_locks p1)\<rparr>, r)"
    using False e b by (simp add: with_lock_def with_memory_lock_def)
  have "r = Inr result" "a'"
    using w b assms by (auto simp: locked_execute_def raise_st_def split: if_splits)
  with b have "dispatch_execute env y a (p\<lparr>pr_locks := ks\<rparr>) = (p1, Inr result)" by (simp add: locked_execute_def)
  moreover have "store_view p' = store_view p1" using w assms by (auto simp: store_view_def)
  moreover have "store_view (p\<lparr>pr_locks := ks\<rparr>) = store_view p" by (simp add: store_view_def)
  ultimately show ?thesis by blast
qed

lemma dispatch_runs:
  assumes "dispatch env y rid False h p = (p', Inr body)" and "\<not> nv_async env"
  shows "\<exists>a p0 p1 result. store_view p0 = store_view p \<and> run_workflow env y (get_storage env p0) a p0 = (p1, Inr result)
    \<and> ra_services a = Some (get_runtime_services (nv_libs env) p) \<and> ra_events a = Some (get_runtime_services (nv_libs env) p)
    \<and> ra_version_hash a = h \<and> (\<exists>r. ra_run_id a = Some r \<and> (\<forall>r0. rid = Some r0 \<longrightarrow> r0 \<noteq> [] \<longrightarrow> r = r0))
    \<and> body = dset ''dispatched'' (PyStr ''sync'') result \<and> store_view p' = store_view p1"
proof -
  let ?sv = "get_runtime_services (nv_libs env) p"
  have "\<exists>pa r. store_view pa = store_view p \<and> (\<forall>r0. rid = Some r0 \<longrightarrow> r0 \<noteq> [] \<longrightarrow> r = r0)
      \<and> dispatch_sync env ?sv y r h pa = (p', Inr body)"
  proof (cases "empty_key rid")
    case True
    with assms have "dispatch_sync env ?sv y (nv_uuid env (pr_uuids p)) h (p\<lparr>pr_uuids := Suc (pr_uuids p)\<rparr>) = (p', Inr body)"
      by (simp add: dispatch_def active_services_def Let_def draw_uuid_def bind_st_def)
    moreover have "store_view (p\<lparr>pr_uuids := Suc (pr_uuids p)\<rparr>) = store_view p" by (simp add: store_view_def)
    moreover have "\<forall>r0. rid = Some r0 \<longrightarrow> r0 \<noteq> [] \<longrightarrow> r = r0" for r using True by (auto simp: empty_key_def)
    ultimately show ?thesis by blast
  next
    case False
    with assms have "dispatch_sync env ?sv y (the rid) h p = (p', Inr body)"
      by (simp add: dispatch_def active_services_def Let_def return_st_def bind_st_def)
    then show ?thesis by (intro exI [of _ p] exI [of _ "the rid"]) auto
  qed
  then obtain pa r where a: "store_view pa = store_view p" "\<forall>r0. rid = Some r0 \<longrightarrow> r0 \<noteq> [] \<longrightarrow> r = r0"
    and s: "dispatch_sync env ?sv y r h pa = (p', Inr body)"
    by blast
  define pb where "pb = pa\<lparr>pr_uuids := Suc (pr_uuids pa)\<rparr>"
  let ?a = "dispatch_args env ?sv (nv_uuid env (pr_uuids pa)) r h"
  have vb: "store_view pb = store_view p" using a(1) by (simp add: pb_def store_view_def)
  obtain result where body: "body = dset ''dispatched'' (PyStr ''sync'') result"
    and e: "(if nv_locking env
           then bind_st (lift_sum (canonical_yaml_hash (nv_libs env) y)) (\<lambda>h.
                  with_lock env (''workflow:'' @ h) (locked_execute env y ?a))
           else dispatch_execute env y ?a) pb = (p', Inr result)"
    using s by (auto simp: dispatch_sync_def draw_uuid_def pb_def return_st_def Let_def dest!: bind_st_Inr)
  have "\<exists>p0 p1. store_view p0 = store_view pb \<and> dispatch_execute env y ?a p0 = (p1, Inr result) \<and> store_view p' = store_view p1"
  proof (cases "nv_locking env")
    case True
    with e obtain q k where "lift_sum (canonical_yaml_hash (nv_libs env) y) pb = (q, Inr k)"
      and w: "with_lock env (''workflow:'' @ k) (locked_execute env y ?a) q = (p', Inr result)"
      by (auto dest!: bind_st_Inr)
    then have "q = pb" by (simp add: lift_sum_def)
    with with_lock_held [OF w] show ?thesis by simp
  next
    case False
    with e show ?thesis by auto
  qed
  then obtain p0 p1 where "store_view p0 = store_view p" "dispatch_execute env y ?a p0 = (p1, Inr result)"
    "store_view p' = store_view p1" using vb by auto
  with body a(2) show ?thesis
    by (intro exI [of _ ?a] exI [of _ p0] exI [of _ p1] exI [of _ result])
      (simp add: dispatch_execute_def dispatch_args_def)
qed

lemma claim_consistent:
  assumes "claim_idempotency env ns key p = (p', r)" and "consistent p"
  shows "consistent p'"
proof (cases "empty_key key")
  case True
  with assms show ?thesis by (simp add: claim_idempotency_def)
next
  case False
  then obtain b where c: "sv_claim (active_services env p) ns key p = (p', b)"
    using assms(1) by (cases "sv_claim (active_services env p) ns key p")
      (auto simp: claim_idempotency_def bind_st_def return_st_def raise_st_def split: sum.splits if_splits)
  show ?thesis
  proof (cases "pr_db_available p")
    case True
    then obtain db' where "db_claim ns key (pr_db p) = (db', b)" "p' = set_db db' p"
      using c by (auto simp: active_services_def get_runtime_services_def database_services_def lift_op_def
          split: prod.splits)
    with assms(2) True db_claim_frame show ?thesis
      by (auto simp: consistent_def backend_views db_process_good_def set_db_def)
  next
    case False
    with c assms(2) show ?thesis
      by (auto simp: active_services_def get_runtime_services_def in_memory_def lift_op_def set_claims_def
          consistent_def backend_views split: prod.splits)
  qed
qed

lemma access_consistent:
  assumes "check_access env rq minimum p = (p', r)"
  shows "store_view p' = store_view p"
  using check_access_effect [OF assms] by (elim exE conjE) (simp add: store_view_def)

text \<open>A claim stores no run and no version.\<close>

lemma claim_stores:
  assumes "claim_idempotency env ns key p = (p', r)"
  shows "stored_runs p' = stored_runs p \<and> stored_versions p' = stored_versions p \<and> pr_db_available p' = pr_db_available p"
proof (cases "empty_key key")
  case True
  with assms show ?thesis by (simp add: claim_idempotency_def)
next
  case False
  then obtain b where c: "sv_claim (active_services env p) ns key p = (p', b)"
    using assms by (cases "sv_claim (active_services env p) ns key p")
      (auto simp: claim_idempotency_def bind_st_def return_st_def raise_st_def split: sum.splits if_splits)
  have av: "pr_db_available p' = pr_db_available p" by (rule sv_claim_available [OF c])
  show ?thesis
  proof (cases "pr_db_available p")
    case True
    then obtain db' where d: "db_claim ns key (pr_db p) = (db', b)" and p': "p' = set_db db' p"
      using c by (auto simp: active_services_def get_runtime_services_def database_services_def lift_op_def
          split: prod.splits)
    have "tb_runs (db_tables db') = tb_runs (db_tables (pr_db p))" "tb_steps (db_tables db') = tb_steps (db_tables (pr_db p))"
      "tb_definitions (db_tables db') = tb_definitions (db_tables (pr_db p))"
      using keeps_db_claim [of tb_runs ns key, THEN keepsD] keeps_db_claim [of tb_steps ns key, THEN keepsD]
        keeps_db_claim [of tb_definitions ns key, THEN keepsD] d by simp_all
    with av True p' show ?thesis
      by (simp add: stored_runs_def stored_versions_def backend_views set_db_def db_views read_run_def run_steps_def
          fun_eq_iff)
  next
    case False
    with c av show ?thesis
      by (auto simp: active_services_def get_runtime_services_def in_memory_def lift_op_def set_claims_def
          stored_runs_def stored_versions_def backend_views split: prod.splits)
  qed
qed

text \<open>A run request that is answered with a run comes to its dispatch with its stores as they were.\<close>

lemma run_endpoint_dispatches:
  assumes "call env rq (RunWorkflow y b) p = (p', Inr body)" and "consistent p"
  shows "\<exists>q. consistent q \<and> pr_db_available q = pr_db_available p \<and> stored_runs q = stored_runs p
    \<and> stored_versions q = stored_versions p \<and> dispatch env y None b None q = (p', Inr body)"
proof -
  let ?claim = "claim_idempotency env ''workflow:run'' (rq_idempotency_key rq)"
  obtain pa where a: "check_access env rq OPERATOR p = (pa, Inr ())"
    and h: "catch_st (catch_st (bind_st ?claim (\<lambda>_. dispatch env y None b None)) (validation_error env)) persistence_error pa
      = (p', Inr body)"
    using assms(1) by (auto simp: run_endpoint_def validation_errors_def dest!: bind_st_Inr)
  have "bind_st ?claim (\<lambda>_. dispatch env y None b None) pa = (p', Inr body)"
    using h by (auto elim!: catch_st_cases)
  then obtain pb where c: "?claim pa = (pb, Inr ())" and d: "dispatch env y None b None pb = (p', Inr body)"
    by (auto dest!: bind_st_Inr)
  note v = access_consistent [OF a]
  have "consistent pa" using store_view_cong [OF v] assms(2) by simp
  then have "consistent pb" by (rule claim_consistent [OF c])
  moreover have "pr_db_available pa = pr_db_available p" using v by (simp add: store_view_def)
  ultimately show ?thesis using claim_stores [OF c] store_view_cong [OF v] d by auto
qed

text \<open>What a read of a run gives is the stored record, with its events.\<close>

lemma get_endpoint_reads:
  assumes "call env rq (GetWorkflowRun rid) p = (p', Inr body)" and "consistent p"
  shows "\<exists>r evs. stored_runs p rid = Some r \<and> body = record_dict r @ [(''events'', evs)]"
proof -
  obtain pc pd row evs where a: "check_access env rq VIEWER p = (pc, Inr ())"
    and f: "find_run env rid pc = (pd, Inr row)" and body: "body = record_dict row @ [(''events'', evs)]"
    using assms(1) by (auto simp: get_workflow_run_def return_st_def elim!: catch_st_cases dest!: bind_st_Inr)
  obtain pe found where get: "sg_get_run (get_storage env pc) rid pc = (pe, Inr found)" and found: "found = Some row"
    using f by (auto simp: find_run_def return_st_def raise_st_def dest!: bind_st_Inr split: option.splits)
  note v = store_view_cong [OF access_consistent [OF a]]
  have "found = stored_runs pc rid" by (rule get_run_active [OF _ get]) (use v assms(2) in simp)
  with v found body show ?thesis by auto
qed



text \<open>Queueing a run stores the version of its definition and reports its hash.\<close>

lemma dispatch_queues:
  assumes "dispatch env y None True None p = (p', Inr body)" and "consistent p"
  shows "consistent p' \<and> pr_db_available p' = pr_db_available p
    \<and> (\<exists>h. dget body ''version_hash'' = Some (PyStr h) \<and> canonical_yaml_hash (nv_libs env) y = Inr h
        \<and> stored_versions p' = (stored_versions p)(h \<mapsto> (case stored_versions p h of None \<Rightarrow> y | Some y0 \<Rightarrow> y0)))"
proof -
  let ?sv = "get_runtime_services (nv_libs env) p"
  define p0 where "p0 = p\<lparr>pr_uuids := Suc (pr_uuids p)\<rparr>"
  have v0: "store_view p0 = store_view p" by (simp add: p0_def store_view_def)
  have "dispatch_async env ?sv y (nv_uuid env (pr_uuids p)) None p0 = (p', Inr body)"
    using assms(1) by (simp add: dispatch_def active_services_def empty_key_def bind_st_def draw_uuid_def p0_def Let_def)
  then obtain p1 v p2 t where put: "sv_version_put ?sv y p0 = (p1, Inr v)"
    and delay: "celery_delay env y (nv_uuid env (pr_uuids p)) (vr_content_hash v) p1 = (p2, Inr t)"
    and p': "p' = p2" and body: "dget body ''version_hash'' = Some (PyStr (vr_content_hash v))"
    by (auto simp: dispatch_async_def return_st_def elim!: catch_st_cases dest!: bind_st_Inr)
  have sv: "?sv = get_runtime_services (nv_libs env) p0" using store_view_cong [OF v0] by simp
  have c0: "consistent p0" using store_view_cong [OF v0] assms(2) by simp
  note put' = put [unfolded sv]
  have "store_view p2 = store_view p1"
    using delay by (auto simp: celery_delay_def store_view_def split: prod.splits)
  note v2 = this store_view_cong [OF this]
  have "pr_db_available p' = pr_db_available p"
    using version_ops_available(1) [OF put'] v2(1) v0 p' by (simp add: store_view_def)
  with version_put_active [OF c0 put'] body v2 p' store_view_cong [OF v0] show ?thesis by auto
qed


definition ex_queue_env :: "nat env" where
  "ex_queue_env = ex_env\<lparr>nv_delay := (\<lambda>y r h c w. (w, Inr ''task-1'')), nv_probe := (\<lambda>w. True)\<rparr>"

definition ex_delivered :: "nat process \<Rightarrow> string \<Rightarrow> bool" where
  "ex_delivered p h =
     (case run_workflow_task ex_queue_env 0 ''leads.yaml'' (Some ''uuid-0'') (Some h) None
             ((ex_process True)\<lparr>pr_db := pr_db p\<rparr>) of
        (q, Done result) \<Rightarrow>
          \<not> isl (snd (call ex_queue_env ex_anonymous (GetWorkflowRun ''uuid-0'') (p\<lparr>pr_db := pr_db q\<rparr>)))
      | _ \<Rightarrow> False)"

lemma ex_queued_run:
  "case call ex_queue_env ex_request (RunWorkflow ''leads.yaml'' True) (ex_process True) of
     (p, Inl e) \<Rightarrow> False
   | (p, Inr body) \<Rightarrow> dget body ''run_id'' = Some (PyStr ''uuid-0'')
       \<and> (case dget body ''version_hash'' of Some (PyStr h) \<Rightarrow> ex_delivered p h | _ \<Rightarrow> False)"
  by code_simp


lemma draw_bind:
  "bind_st (draw_uuid env) f p = f (nv_uuid env (pr_uuids p)) (p\<lparr>pr_uuids := Suc (pr_uuids p)\<rparr>)"
  by (simp add: bind_st_def draw_uuid_def)

lemma bind_st_raises: "snd (m s) = Inl e \<Longrightarrow> snd (bind_st m f s) = Inl e"
  by (auto simp: bind_st_def split: prod.split sum.split)

text \<open>
  C22: how an unparsable definition is reported depends on how it is dispatched: 422 when it
  runs inline, but 503, as if the broker were down, when it is to be queued.
\<close>

theorem unparsable_run_status:
  assumes "pr_limiter p = None" and "authorize (nv_auth env) (rq_api_key rq) OPERATOR" and "empty_key (rq_idempotency_key rq)"
    and "canonical_yaml_hash (nv_libs env) y = Inl (WorkflowValidationError m)"
  shows "fst (respond (snd (call env rq (RunWorkflow y b) p))) = (if b \<or> nv_async env then 503 else 422)"
proof -
  let ?e = "WorkflowValidationError m"
  have access: "check_access env rq OPERATOR p = (p, Inr ())"
    using assms(1,2) by (simp add: check_access_def limit_rate_def bind_st_def return_st_def)
  have put: "sv_version_put (get_runtime_services (nv_libs env) q) y q' = (q', Inl ?e)" for q q' :: "'a process"
    using assms(4) by (simp add: get_runtime_services_def database_services_def in_memory_def lift_op_def
        version_put_def db_version_put_def set_versions_def set_db_def)
  have run: "snd (run_workflow env y ops (dispatch_args env (get_runtime_services (nv_libs env) q) t r None) q') = Inl ?e"
    for ops q t r q'
    by (simp add: run_workflow_def fix_run_id_def dispatch_args_def new_trace_def pinned_definition_def
        store_version_def bind_st_def return_st_def put)
  have "snd (dispatch env y None b None p) =
      Inl (if b \<or> nv_async env then HTTPException 503 (''Async dispatch failed: '' @ m) ''dispatch_failed'' else ?e)"
  proof (cases "b \<or> nv_async env")
    case True
    then show ?thesis
      by (auto simp: dispatch_def active_services_def empty_key_def draw_bind dispatch_async_def catch_st_def put
          bind_st_def [of "sv_version_put sv y" for sv] Let_def)
  next
    case False
    have "snd (dispatch_sync env (get_runtime_services (nv_libs env) q) y r None q') = Inl ?e" for q r q'
      unfolding dispatch_sync_def draw_bind
      by (rule bind_st_raises)
        (simp add: Let_def assms(4) lift_sum_def bind_st_def dispatch_execute_def run)
    with False show ?thesis
      by (simp add: dispatch_def active_services_def empty_key_def draw_bind Let_def)
  qed
  then have "snd (bind_st (claim_idempotency env ''workflow:run'' (rq_idempotency_key rq)) (\<lambda>_. dispatch env y None b None) p)
      = Inl (if b \<or> nv_async env then HTTPException 503 (''Async dispatch failed: '' @ m) ''dispatch_failed'' else ?e)"
    using assms(3) by (simp add: bind_st_def claim_idempotency_def)
  then have claimed: "\<exists>q. bind_st (claim_idempotency env ''workflow:run'' (rq_idempotency_key rq)) (\<lambda>_. dispatch env y None b None) p
      = (q, Inl (if b \<or> nv_async env then HTTPException 503 (''Async dispatch failed: '' @ m) ''dispatch_failed'' else ?e))"
    by (metis prod.collapse)
  show ?thesis
  proof (cases "b \<or> nv_async env")
    case True
    with claimed obtain q where "bind_st (claim_idempotency env ''workflow:run'' (rq_idempotency_key rq)) (\<lambda>_. dispatch env y None b None) p
        = (q, Inl (HTTPException 503 (''Async dispatch failed: '' @ m) ''dispatch_failed''))" by auto
    with True show ?thesis
      by (simp add: run_endpoint_def bind_st_def [of "check_access env rq OPERATOR"] access validation_errors_def
          catch_st_def validation_error_def respond_def raise_st_def)
  next
    case False
    with claimed obtain q where "bind_st (claim_idempotency env ''workflow:run'' (rq_idempotency_key rq)) (\<lambda>_. dispatch env y None b None) p
        = (q, Inl ?e)" by auto
    with False show ?thesis
      by (simp add: run_endpoint_def bind_st_def [of "check_access env rq OPERATOR"] access validation_errors_def
          catch_st_def validation_error_def respond_def raise_st_def)
  qed
qed

theorem unparsable_run_status_witness:
  "fst (respond (snd (call ex_env ex_anonymous (RunWorkflow ''other'' True) (ex_process False)))) = 503"
proof -
  obtain m where m: "canonical_yaml_hash (nv_libs ex_env) ''other'' = Inl (WorkflowValidationError m)"
    by (simp add: canonical_yaml_hash_def ex_env_def ex_libs_def table_libs_def)
  have "pr_limiter (ex_process False) = None" "authorize (nv_auth ex_env) (rq_api_key ex_anonymous) OPERATOR"
    "empty_key (rq_idempotency_key ex_anonymous)"
    by (simp_all add: ex_process_def ex_env_def authorize_def ex_anonymous_def empty_key_def)
  from unparsable_run_status [OF this m, of True] show ?thesis by simp
qed

end
